(* ===== verification/Prelude.thy ===== *)
theory Prelude
  imports Main "HOL-Library.Word" "HOL-Library.Multiset"
    "HOL-Library.Char_ord" "HOL-Library.List_Lexorder"
begin

text \<open>
  Shared vocabulary of the development: Go maps and their iteration order, Go strings (decimal
  formatting, joining, prefixes), and the generic list lemmas that several components use.

  A Go \<open>range\<close> over a map visits the entries in an order the language leaves open. Every model of
  such a loop therefore takes the visited entries as a list, and \<open>range_of m xs\<close> says that
  \<open>xs\<close> is one of the orders Go may choose for the map \<open>m\<close>. Statements about such loops
  hold for every order.
\<close>

unbundle bit_operations_syntax

named_theorems go_defs \<open>definitions that proofs unfold together\<close>
named_theorems range_simps \<open>facts about map iteration\<close>

section \<open>Maps and their iteration\<close>

definition range_of :: "('k \<rightharpoonup> 'v) \<Rightarrow> ('k \<times> 'v) list \<Rightarrow> bool" where
  "range_of m xs \<longleftrightarrow> distinct (map fst xs) \<and> map_of xs = m"

lemma range_of_distinct [range_simps]: "range_of m xs \<Longrightarrow> distinct (map fst xs)"
  by (simp add: range_of_def)

lemma range_of_mem: "range_of m xs \<Longrightarrow> (k, v) \<in> set xs \<longleftrightarrow> m k = Some v"
  by (auto simp: range_of_def)

lemma range_of_keys: "range_of m xs \<Longrightarrow> fst ` set xs = dom m"
  by (force simp: range_of_def dom_map_of_conv_image_fst)

lemma range_of_empty_iff [simp]: "range_of Map.empty xs \<longleftrightarrow> xs = []"
  by (cases xs) (auto simp: range_of_def fun_eq_iff split: if_splits)

lemma range_of_Nil_iff [simp]: "range_of m [] \<longleftrightarrow> m = Map.empty"
  by (auto simp: range_of_def)

lemma range_of_set_eq: "range_of m xs \<Longrightarrow> range_of m ys \<Longrightarrow> set xs = set ys"
  by (auto simp: range_of_mem)

lemma range_of_map_of: "distinct (map fst xs) \<Longrightarrow> range_of (map_of xs) xs"
  by (simp add: range_of_def)

section \<open>Strings\<close>

fun string_of_nat :: "nat \<Rightarrow> string" where
  "string_of_nat n =
     (if n < 10 then [char_of (48 + n)] else string_of_nat (n div 10) @ [char_of (48 + n mod 10)])"

declare string_of_nat.simps [simp del]

definition string_of_int :: "int \<Rightarrow> string" where
  "string_of_int i = (if i < 0 then CHR ''-'' # string_of_nat (nat (- i)) else string_of_nat (nat i))"

lemma string_of_nat_nonempty [simp]: "string_of_nat n \<noteq> []"
  by (subst string_of_nat.simps) simp

text \<open>The number a decimal string stands for.\<close>

definition decimal_value :: "string \<Rightarrow> nat" where
  "decimal_value s = foldl (\<lambda>v c. v * 10 + (of_char c - 48)) 0 s"

lemma decimal_value_string [simp]: "decimal_value (string_of_nat n) = n"
proof (induction n rule: string_of_nat.induct)
  case (1 n)
  show ?case
  proof (cases "n < 10")
    case True
    then show ?thesis by (subst string_of_nat.simps) (simp add: decimal_value_def of_char_of)
  next
    case False
    with 1 have "foldl (\<lambda>v c. v * 10 + (of_char c - 48)) 0 (string_of_nat (n div 10)) = n div 10"
      by (simp add: decimal_value_def)
    with False show ?thesis by (subst string_of_nat.simps) (simp add: decimal_value_def of_char_of)
  qed
qed

lemma string_of_nat_inj [simp]: "string_of_nat n = string_of_nat m \<longleftrightarrow> n = m"
  by (metis decimal_value_string)

text \<open>\<open>strings.Join\<close>: the elements with the separator between them.\<close>

fun join_with :: "string \<Rightarrow> string list \<Rightarrow> string" where
  "join_with sep [] = []"
| "join_with sep [x] = x"
| "join_with sep (x # y # ys) = x @ sep @ join_with sep (y # ys)"

lemma join_with_Cons: "xs \<noteq> [] \<Longrightarrow> join_with sep (x # xs) = x @ sep @ join_with sep xs"
  by (cases xs) auto

text \<open>\<open>strings.HasPrefix\<close> and \<open>strings.TrimPrefix\<close>.\<close>

fun has_prefix :: "string \<Rightarrow> string \<Rightarrow> bool" where
  "has_prefix s [] = True"
| "has_prefix [] (p # ps) = False"
| "has_prefix (c # s) (p # ps) = (c = p \<and> has_prefix s ps)"

definition trim_prefix :: "string \<Rightarrow> string \<Rightarrow> string" where
  "trim_prefix s p = (if has_prefix s p then drop (length p) s else s)"

definition has_suffix :: "string \<Rightarrow> string \<Rightarrow> bool" where
  "has_suffix s p \<longleftrightarrow> has_prefix (rev s) (rev p)"

lemma has_prefix_iff: "has_prefix s p \<longleftrightarrow> (\<exists>r. s = p @ r)"
  by (induction s p rule: has_prefix.induct) auto

lemma has_suffix_iff: "has_suffix s p \<longleftrightarrow> (\<exists>r. s = r @ p)"
  unfolding has_suffix_def has_prefix_iff by (metis rev_append rev_rev_ident)

lemma trim_prefix_append [simp]: "trim_prefix (p @ s) p = s"
  by (simp add: trim_prefix_def has_prefix_iff)

lemma trim_prefix_no_prefix: "\<not> has_prefix s p \<Longrightarrow> trim_prefix s p = s"
  by (simp add: trim_prefix_def)

text \<open>\<open>strings.Split\<close> at a one-character separator: always at least one field.\<close>

fun split_at :: "char \<Rightarrow> string \<Rightarrow> string list" where
  "split_at c [] = [[]]"
| "split_at c (x # xs) =
     (if x = c then [] # split_at c xs
      else (case split_at c xs of [] \<Rightarrow> [[x]] | y # ys \<Rightarrow> (x # y) # ys))"

lemma split_at_nonempty [simp]: "split_at c s \<noteq> []"
  by (induction s) (auto split: list.splits)

lemma join_split_at: "join_with [c] (split_at c s) = s"
proof (induction s)
  case (Cons x xs)
  then show ?case
    by (cases "split_at c xs"; cases "tl (split_at c xs)") (auto simp: join_with_Cons)
qed simp

section \<open>Lists\<close>

text \<open>\<open>slices.Compact\<close>: equal neighbours are kept once.\<close>

fun compact :: "'a list \<Rightarrow> 'a list" where
  "compact [] = []"
| "compact [x] = [x]"
| "compact (x # y # ys) = (if x = y then compact (y # ys) else x # compact (y # ys))"

lemma set_compact [simp]: "set (compact xs) = set xs"
  by (induction xs rule: compact.induct) auto

lemma sorted_compact: "sorted xs \<Longrightarrow> sorted_wrt (<) (compact (xs :: 'a :: linorder list))"
  by (induction xs rule: compact.induct) force+

lemma compact_sort: "compact (sort xs) = sorted_list_of_set (set (xs :: 'a :: linorder list))"
proof -
  have "sorted_wrt (<) (compact (sort xs))" by (simp add: sorted_compact)
  then show ?thesis
    by (metis List.finite_set set_compact set_sort sorted_list_of_set.idem_if_sorted_distinct
        strict_sorted_iff)
qed

lemma list_all2_leftD: "list_all2 P xs ys \<Longrightarrow> x \<in> set xs \<Longrightarrow> \<exists>y\<in>set ys. P x y"
  by (induction rule: list_all2_induct) auto

lemma list_all2_rightD: "list_all2 P xs ys \<Longrightarrow> y \<in> set ys \<Longrightarrow> \<exists>x\<in>set xs. P x y"
  by (induction rule: list_all2_induct) auto

lemma filter_empty_iff_all: "filter P xs = [] \<longleftrightarrow> (\<forall>x\<in>set xs. \<not> P x)"
  by (simp add: filter_empty_conv)

end
