(* ===== verification/GoErrors.thy ===== *)
theory GoErrors
  imports Prelude
begin

text \<open>
  Go errors as values, and \<open>anx/provider/utils/utils.go\<close>.

  An error is a leaf (a sentinel made by \<open>errors.New\<close>, an error type of go-anxcloud or of the
  Kubernetes cloud-provider library, or any other library error) or an error wrapped by
  \<open>fmt.Errorf\<close> with \<open>%w\<close>. \<open>errors.Is\<close> and \<open>errors.As\<close> walk the chain of wrapped
  errors. \<open>nil\<close> is \<open>None\<close> of \<open>go_error option\<close>. \<open>Panic\<close> is not an error value of the
  code: it is the outcome of a run-time panic (a nil dereference), which no handler here recovers.
\<close>

datatype go_error =
    Sentinel string
  | HTTPError int            \<comment> \<open>\<open>api.HTTPError\<close> with its status code\<close>
  | ResponseError int        \<comment> \<open>\<open>*client.ResponseError\<close> with the status of its response\<close>
  | RateLimitError int       \<comment> \<open>\<open>api.RateLimitError\<close> with \<open>RetryAfter\<close>, in seconds\<close>
  | RetryError string int    \<comment> \<open>\<open>cloudproviderapi.RetryError\<close>: message and delay\<close>
  | OtherError string
  | Wrapped string go_error
  | Panic string

fun chain :: "go_error \<Rightarrow> go_error list" where
  "chain (Wrapped m e) = Wrapped m e # chain e"
| "chain e = [e]"

definition errors_is :: "go_error \<Rightarrow> go_error \<Rightarrow> bool" where
  "errors_is e target \<longleftrightarrow> target \<in> set (chain e)"

fun as_http :: "go_error \<Rightarrow> int option" where
  "as_http (HTTPError s) = Some s"
| "as_http (Wrapped m e) = as_http e"
| "as_http _ = None"

fun as_response :: "go_error \<Rightarrow> int option" where
  "as_response (ResponseError s) = Some s"
| "as_response (Wrapped m e) = as_response e"
| "as_response _ = None"

fun as_rate_limit :: "go_error \<Rightarrow> int option" where
  "as_rate_limit (RateLimitError t) = Some t"
| "as_rate_limit (Wrapped m e) = as_rate_limit e"
| "as_rate_limit _ = None"

text \<open>\<open>fmt.Errorf("...: %w", err)\<close>; a panic has already unwound the statement.\<close>

fun wrap_error :: "string \<Rightarrow> go_error \<Rightarrow> go_error" where
  "wrap_error m (Panic p) = Panic p"
| "wrap_error m e = Wrapped m e"

lemma as_wrap_error [simp]:
  "as_http (wrap_error m e) = as_http e"
  "as_response (wrap_error m e) = as_response e"
  "as_rate_limit (wrap_error m e) = as_rate_limit e"
  by (cases e; simp)+

lemma errors_is_wrap [simp]:
  "errors_is (wrap_error m e) (Sentinel s) = errors_is e (Sentinel s)"
  by (cases e) (auto simp: errors_is_def)

lemma errors_is_refl [simp]: "errors_is e e"
  by (cases e) (auto simp: errors_is_def)

section \<open>utils.go\<close>

definition IsNotFoundError :: "go_error option \<Rightarrow> bool" where
  "IsNotFoundError err =
     (case err of
        None \<Rightarrow> False
      | Some e \<Rightarrow> (case as_response e of Some s \<Rightarrow> s = 404 | None \<Rightarrow> False))"

definition IsUnauthorizedOrForbiddenError :: "go_error option \<Rightarrow> bool" where
  "IsUnauthorizedOrForbiddenError err =
     (case err of
        None \<Rightarrow> False
      | Some e \<Rightarrow>
          let statusCode = (case as_http e of
                              Some s \<Rightarrow> s
                            | None \<Rightarrow> (case as_response e of Some s \<Rightarrow> s | None \<Rightarrow> 0))
          in statusCode = 401 \<or> statusCode = 403)"

definition ErrUnauthorizedForbiddenBackoff :: go_error where
  "ErrUnauthorizedForbiddenBackoff =
     Sentinel ''operation currently blocked due to client side unauthorized/forbidden request limiting''"

lemma IsUnauthorizedOrForbiddenError_wrap [simp]:
  "IsUnauthorizedOrForbiddenError (Some (wrap_error m e)) = IsUnauthorizedOrForbiddenError (Some e)"
  by (cases "as_http e") (simp_all add: IsUnauthorizedOrForbiddenError_def Let_def)

lemma IsNotFoundError_wrap [simp]: "IsNotFoundError (Some (wrap_error m e)) = IsNotFoundError (Some e)"
  by (simp add: IsNotFoundError_def)

lemma backoff_not_unauthorized [simp]:
  "\<not> IsUnauthorizedOrForbiddenError (Some ErrUnauthorizedForbiddenBackoff)"
  by (simp add: IsUnauthorizedOrForbiddenError_def ErrUnauthorizedForbiddenBackoff_def)

end
