(* ===== verification/Objects.thy ===== *)
theory Objects
  imports GoErrors
begin

text \<open>
  The LBaaS objects the provider reads and writes, and the parameters that stand for code outside
  this repository: the go-anxcloud client (\<open>api.API\<close>, \<open>compare.Reconcile\<close>,
  \<open>compare.Search\<close>, the state predicates of \<open>gs\<close>). Of an object the fields used here are
  kept; a nested struct of which only \<open>Identifier\<close> is used is that identifier, a pointer to one
  is an \<open>option\<close>.
\<close>

section \<open>LBaaS objects\<close>

record gs_state =
  state_id :: string
  state_type :: nat

record lb_backend =
  be_id :: string
  be_name :: string
  be_mode :: string
  be_health :: string
  be_lb :: string
  be_state :: gs_state

record lb_frontend =
  fe_id :: string
  fe_name :: string
  fe_mode :: string
  fe_lb :: "string option"
  fe_backend :: "string option"
  fe_state :: gs_state

record lb_bind =
  bi_id :: string
  bi_name :: string
  bi_address :: string
  bi_port :: int
  bi_frontend :: string
  bi_state :: gs_state

record lb_server =
  se_id :: string
  se_name :: string
  se_ip :: string
  se_port :: int
  se_check :: string
  se_backend :: string
  se_state :: gs_state

text \<open>A \<open>types.Object\<close>: one of the four, a LoadBalancer, or a \<open>corev1.ResourceWithTag\<close>.\<close>

datatype object =
    OBackend lb_backend
  | OFrontend lb_frontend
  | OBind lb_bind
  | OServer lb_server
  | OLoadBalancer string
  | OResourceWithTag string string

record resource =
  res_id :: string
  res_type :: string

text \<open>The type identifiers the typed retrievers are registered under.\<close>

definition frontendResourceTypeIdentifier :: string where
  "frontendResourceTypeIdentifier = ''da9d14b9d95840c08213de67f9cee6e2''"
definition backendResourceTypeIdentifier :: string where
  "backendResourceTypeIdentifier = ''33164a3066a04a52be43c607f0c5dd8c''"
definition bindResourceTypeIdentifier :: string where
  "bindResourceTypeIdentifier = ''bd24def982aa478fb3352cb5f49aab47''"
definition serverResourceTypeIdentifier :: string where
  "serverResourceTypeIdentifier = ''01f321a4875446409d7d8469503a905f''"

definition zero_state :: gs_state where
  "zero_state = \<lparr>state_id = [], state_type = 0\<rparr>"

text \<open>The objects a typed retriever starts from: everything but the identifier is the zero value.\<close>

definition blank_backend :: "string \<Rightarrow> lb_backend" where
  "blank_backend i = \<lparr>be_id = i, be_name = [], be_mode = [], be_health = [], be_lb = [], be_state = zero_state\<rparr>"

definition blank_frontend :: "string \<Rightarrow> lb_frontend" where
  "blank_frontend i = \<lparr>fe_id = i, fe_name = [], fe_mode = [], fe_lb = None, fe_backend = None, fe_state = zero_state\<rparr>"

definition blank_bind :: "string \<Rightarrow> lb_bind" where
  "blank_bind i = \<lparr>bi_id = i, bi_name = [], bi_address = [], bi_port = 0, bi_frontend = [], bi_state = zero_state\<rparr>"

definition blank_server :: "string \<Rightarrow> lb_server" where
  "blank_server i = \<lparr>se_id = i, se_name = [], se_ip = [], se_port = 0, se_check = [], se_backend = [], se_state = zero_state\<rparr>"

text \<open>
  The client fills the object it is given through its pointer, so the dynamic type cannot change:
  these read the object back as the type the caller passed.
\<close>

fun backend_of :: "lb_backend \<Rightarrow> object \<Rightarrow> lb_backend" where
  "backend_of d (OBackend b) = b" | "backend_of d _ = d"

fun frontend_of :: "lb_frontend \<Rightarrow> object \<Rightarrow> lb_frontend" where
  "frontend_of d (OFrontend b) = b" | "frontend_of d _ = d"

fun bind_of :: "lb_bind \<Rightarrow> object \<Rightarrow> lb_bind" where
  "bind_of d (OBind b) = b" | "bind_of d _ = d"

fun server_of :: "lb_server \<Rightarrow> object \<Rightarrow> lb_server" where
  "server_of d (OServer b) = b" | "server_of d _ = d"

fun loadbalancer_of :: "string \<Rightarrow> object \<Rightarrow> string" where
  "loadbalancer_of d (OLoadBalancer i) = i" | "loadbalancer_of d _ = d"

text \<open>\<open>o.(gs.StateRetriever)\<close>: the four managed types carry a state.\<close>

fun object_state :: "object \<Rightarrow> gs_state option" where
  "object_state (OBackend b) = Some (be_state b)"
| "object_state (OFrontend f) = Some (fe_state f)"
| "object_state (OBind b) = Some (bi_state b)"
| "object_state (OServer s) = Some (se_state s)"
| "object_state _ = None"

section \<open>Attribute paths\<close>

datatype attrval = AStr string | AInt int

definition backend_attr :: "string \<Rightarrow> lb_backend \<Rightarrow> attrval option" where
  "backend_attr a b =
     (if a = ''Identifier'' then Some (AStr (be_id b))
      else if a = ''Name'' then Some (AStr (be_name b))
      else if a = ''Mode'' then Some (AStr (be_mode b))
      else if a = ''HealthCheck'' then Some (AStr (be_health b))
      else if a = ''LoadBalancer.Identifier'' then Some (AStr (be_lb b)) else None)"

definition frontend_attr :: "string \<Rightarrow> lb_frontend \<Rightarrow> attrval option" where
  "frontend_attr a f =
     (if a = ''Identifier'' then Some (AStr (fe_id f))
      else if a = ''Name'' then Some (AStr (fe_name f))
      else if a = ''Mode'' then Some (AStr (fe_mode f))
      else if a = ''LoadBalancer.Identifier'' then map_option AStr (fe_lb f)
      else if a = ''DefaultBackend.Identifier'' then map_option AStr (fe_backend f) else None)"

definition bind_attr :: "string \<Rightarrow> lb_bind \<Rightarrow> attrval option" where
  "bind_attr a b =
     (if a = ''Identifier'' then Some (AStr (bi_id b))
      else if a = ''Name'' then Some (AStr (bi_name b))
      else if a = ''Address'' then Some (AStr (bi_address b))
      else if a = ''Port'' then Some (AInt (bi_port b))
      else if a = ''Frontend.Identifier'' then Some (AStr (bi_frontend b)) else None)"

definition server_attr :: "string \<Rightarrow> lb_server \<Rightarrow> attrval option" where
  "server_attr a s =
     (if a = ''Identifier'' then Some (AStr (se_id s))
      else if a = ''Name'' then Some (AStr (se_name s))
      else if a = ''IP'' then Some (AStr (se_ip s))
      else if a = ''Port'' then Some (AInt (se_port s))
      else if a = ''Check'' then Some (AStr (se_check s))
      else if a = ''Backend.Identifier'' then Some (AStr (se_backend s)) else None)"

text \<open>Two objects agree on a list of attributes; the attributes exist on every object.\<close>

definition same_attrs :: "(string \<Rightarrow> 'a \<Rightarrow> attrval option) \<Rightarrow> string list \<Rightarrow> 'a \<Rightarrow> 'a \<Rightarrow> bool" where
  "same_attrs attr attrs x y \<longleftrightarrow> list_all (\<lambda>a. attr a x = attr a y) attrs"

definition has_attrs :: "(string \<Rightarrow> 'a \<Rightarrow> attrval option) \<Rightarrow> string list \<Rightarrow> 'a \<Rightarrow> bool" where
  "has_attrs attr attrs x \<longleftrightarrow> list_all (\<lambda>a. attr a x \<noteq> None) attrs"

lemma same_attrs_refl [simp]: "same_attrs attr attrs x x"
  by (simp add: same_attrs_def list_all_iff)

lemma same_attrs_sym: "same_attrs attr attrs x y = same_attrs attr attrs y x"
  by (auto simp: same_attrs_def list_all_iff)

lemma same_attrs_trans: "same_attrs attr attrs x y \<Longrightarrow> same_attrs attr attrs y z \<Longrightarrow> same_attrs attr attrs x z"
  by (auto simp: same_attrs_def list_all_iff)

section \<open>Parameters: the go-anxcloud library and the Engine\<close>

text \<open>
  \<open>compare.Reconcile\<close> gets attribute names, target and existing objects; it returns the target
  list as it leaves it, the objects to create and those to destroy, or an error. \<open>compare.Search\<close>
  returns an index or -1.
\<close>

type_synonym 'a reconciler = "string list \<Rightarrow> 'a list \<Rightarrow> 'a list \<Rightarrow> go_error + 'a list \<times> 'a list \<times> 'a list"
type_synonym 'a searcher = "string list \<Rightarrow> 'a \<Rightarrow> 'a list \<Rightarrow> go_error + int"

record lib =
  stateOK :: "gs_state \<Rightarrow> bool"
  stateError :: "gs_state \<Rightarrow> bool"
  statePending :: "gs_state \<Rightarrow> bool"
  updatingID :: string                        \<comment> \<open>\<open>lbaasv1.Updating.ID\<close>\<close>
  modeTCP :: string                           \<comment> \<open>\<open>lbaasv1.TCP\<close>\<close>
  cmpBackends :: "lb_backend reconciler"
  cmpFrontends :: "lb_frontend reconciler"
  cmpBinds :: "lb_bind reconciler"
  cmpServers :: "lb_server reconciler"
  searchBackends :: "lb_backend searcher"
  searchFrontends :: "lb_frontend searcher"
  ignoreNotFound :: "go_error option \<Rightarrow> go_error option"
  isRateLimitError :: "go_error \<Rightarrow> bool"
  getObjectIdentifier :: "object \<Rightarrow> go_error + string"
  errUnidentifiedObject :: go_error           \<comment> \<open>\<open>types.ErrUnidentifiedObject\<close>\<close>

text \<open>
  An operation of \<open>api.API\<close> works on the Engine (\<open>'w\<close>) and through a pointer on the object.
  \<open>List\<close> returns a channel of retrievers; each is called in turn.
\<close>

type_synonym 'w api_op = "object \<Rightarrow> 'w \<Rightarrow> go_error option \<times> object \<times> 'w"
type_synonym 'w retriever = "'w \<Rightarrow> (go_error + resource) \<times> 'w"

record 'w api =
  api_get :: "'w api_op"
  api_create :: "'w api_op"
  api_update :: "'w api_op"
  api_destroy :: "'w api_op"
  api_list :: "bool \<Rightarrow> string list \<Rightarrow> 'w \<Rightarrow> go_error option \<times> 'w retriever list \<times> 'w"

text \<open>
  What the code relies on. When every object has the attributes, \<open>compare.Reconcile\<close> succeeds;
  it creates the targets no existing object agrees with, destroys the existing objects that agree
  with no target, and a target with a partner is replaced in the target list by an existing object
  that agrees with it. Order and the choice between several partners are left open.
\<close>

definition reconcile_contract :: "(string \<Rightarrow> 'a \<Rightarrow> attrval option) \<Rightarrow> 'a reconciler \<Rightarrow> bool" where
  "reconcile_contract attr cmp \<longleftrightarrow>
     (\<forall>attrs target existing.
        (\<forall>x \<in> set target \<union> set existing. has_attrs attr attrs x) \<longrightarrow>
        (\<exists>target' c d. cmp attrs target existing = Inr (target', c, d) \<and>
           set c = {t \<in> set target. \<not> (\<exists>e\<in>set existing. same_attrs attr attrs t e)} \<and>
           set d = {e \<in> set existing. \<not> (\<exists>t\<in>set target. same_attrs attr attrs t e)} \<and>
           list_all2 (\<lambda>t t'. if \<exists>e\<in>set existing. same_attrs attr attrs t e
                              then t' \<in> set existing \<and> same_attrs attr attrs t t' else t' = t)
             target target'))"

definition search_contract :: "(string \<Rightarrow> 'a \<Rightarrow> attrval option) \<Rightarrow> 'a searcher \<Rightarrow> bool" where
  "search_contract attr srch \<longleftrightarrow>
     (\<forall>attrs x xs.
        (\<forall>y \<in> insert x (set xs). has_attrs attr attrs y) \<longrightarrow>
        (\<exists>i. srch attrs x xs = Inr i \<and> (i = -1 \<longleftrightarrow> (\<forall>y\<in>set xs. \<not> same_attrs attr attrs x y))))"

definition lib_contract :: "lib \<Rightarrow> bool" where
  "lib_contract L \<longleftrightarrow>
     reconcile_contract backend_attr (cmpBackends L) \<and> reconcile_contract frontend_attr (cmpFrontends L) \<and>
     reconcile_contract bind_attr (cmpBinds L) \<and> reconcile_contract server_attr (cmpServers L) \<and>
     search_contract backend_attr (searchBackends L) \<and> search_contract frontend_attr (searchFrontends L)"

text \<open>Of an object with an identifier field only the absence of the identifier is an error.\<close>

definition identifier_contract :: "lib \<Rightarrow> bool" where
  "identifier_contract L \<longleftrightarrow>
     (\<forall>obj e. getObjectIdentifier L obj = Inl e \<longrightarrow> errors_is e (errUnidentifiedObject L))"

text \<open>\<open>api.IgnoreNotFound\<close> maps a 404 to no error, keeps every other error, and invents none.\<close>

definition not_found_contract :: "lib \<Rightarrow> bool" where
  "not_found_contract L \<longleftrightarrow>
     (\<forall>err. ignoreNotFound L err = (case err of None \<Rightarrow> None | Some e \<Rightarrow> if as_http e = Some 404 then None else Some e))"

section \<open>A concrete library for the witnesses\<close>

definition ref_reconcile :: "(string \<Rightarrow> 'a \<Rightarrow> attrval option) \<Rightarrow> 'a reconciler" where
  "ref_reconcile attr attrs target existing =
     (if list_all (has_attrs attr attrs) (target @ existing) then
        Inr (map (\<lambda>t. case List.find (same_attrs attr attrs t) existing of None \<Rightarrow> t | Some e \<Rightarrow> e) target,
             filter (\<lambda>t. \<not> list_ex (same_attrs attr attrs t) existing) target,
             filter (\<lambda>e. \<not> list_ex (\<lambda>t. same_attrs attr attrs t e) target) existing)
      else Inl (OtherError ''attribute not found''))"

fun ref_index :: "('a \<Rightarrow> bool) \<Rightarrow> int \<Rightarrow> 'a list \<Rightarrow> int" where
  "ref_index P i [] = -1"
| "ref_index P i (x # xs) = (if P x then i else ref_index P (i + 1) xs)"

definition ref_search :: "(string \<Rightarrow> 'a \<Rightarrow> attrval option) \<Rightarrow> 'a searcher" where
  "ref_search attr attrs x xs =
     (if list_all (has_attrs attr attrs) (x # xs) then Inr (ref_index (same_attrs attr attrs x) 0 xs)
      else Inl (OtherError ''attribute not found''))"

fun ref_identifier :: "object \<Rightarrow> string" where
  "ref_identifier (OBackend b) = be_id b"
| "ref_identifier (OFrontend f) = fe_id f"
| "ref_identifier (OBind b) = bi_id b"
| "ref_identifier (OServer s) = se_id s"
| "ref_identifier (OLoadBalancer i) = i"
| "ref_identifier (OResourceWithTag i t) = i"

definition ref_lib :: lib where
  "ref_lib =
     \<lparr>stateOK = (\<lambda>s. state_type s = 0), stateError = (\<lambda>s. state_type s = 1),
      statePending = (\<lambda>s. state_type s = 2), updatingID = ''0'', modeTCP = ''tcp'',
      cmpBackends = ref_reconcile backend_attr, cmpFrontends = ref_reconcile frontend_attr,
      cmpBinds = ref_reconcile bind_attr, cmpServers = ref_reconcile server_attr,
      searchBackends = ref_search backend_attr, searchFrontends = ref_search frontend_attr,
      ignoreNotFound = (\<lambda>err. case err of None \<Rightarrow> None | Some e \<Rightarrow> if as_http e = Some 404 then None else Some e),
      isRateLimitError = (\<lambda>e. as_rate_limit e \<noteq> None),
      getObjectIdentifier = (\<lambda>obj. if ref_identifier obj = [] then Inl (Sentinel ''unidentified'') else Inr (ref_identifier obj)),
      errUnidentifiedObject = Sentinel ''unidentified''\<rparr>"

lemma ref_reconcile_contract: "reconcile_contract attr (ref_reconcile attr)"
  unfolding reconcile_contract_def
proof (intro allI impI)
  fix attrs and target existing :: "'a list"
  assume known: "\<forall>x \<in> set target \<union> set existing. has_attrs attr attrs x"
  have repl: "list_all2 (\<lambda>t t'. if \<exists>e\<in>set existing. same_attrs attr attrs t e
                then t' \<in> set existing \<and> same_attrs attr attrs t t' else t' = t) ts
        (map (\<lambda>t. case List.find (same_attrs attr attrs t) existing of None \<Rightarrow> t | Some e \<Rightarrow> e) ts)" for ts
    by (induction ts) (auto simp: find_None_iff find_Some_iff split: option.splits)
  show "\<exists>target' c d. ref_reconcile attr attrs target existing = Inr (target', c, d) \<and>
      set c = {t \<in> set target. \<not> (\<exists>e\<in>set existing. same_attrs attr attrs t e)} \<and>
      set d = {e \<in> set existing. \<not> (\<exists>t\<in>set target. same_attrs attr attrs t e)} \<and>
      list_all2 (\<lambda>t t'. if \<exists>e\<in>set existing. same_attrs attr attrs t e
                  then t' \<in> set existing \<and> same_attrs attr attrs t t' else t' = t) target target'"
    using known repl by (auto simp: ref_reconcile_def list_all_iff list_ex_iff)
qed

lemma ref_index_iff: "0 \<le> i \<Longrightarrow> ref_index P i xs = -1 \<longleftrightarrow> (\<forall>x\<in>set xs. \<not> P x)"
  by (induction P i xs rule: ref_index.induct) auto

lemma ref_search_contract: "search_contract attr (ref_search attr)"
  by (auto simp: search_contract_def ref_search_def list_all_iff ref_index_iff)

lemma ref_lib_contract: "lib_contract ref_lib"
  by (simp add: lib_contract_def ref_lib_def ref_reconcile_contract ref_search_contract)

lemma ref_lib_identifier: "identifier_contract ref_lib"
  by (auto simp: identifier_contract_def ref_lib_def split: if_splits)

lemma ref_lib_not_found: "not_found_contract ref_lib"
  by (simp add: not_found_contract_def ref_lib_def)

section \<open>A concrete Engine for the witnesses\<close>

text \<open>
  Stored objects with their identifiers in order of creation, tags, and a counter for fresh
  identifiers. Created objects are ready at once.
\<close>

record ref_world =
  re_objects :: "(string \<times> object) list"
  re_tags :: "(string \<times> string) list"
  re_next :: nat

fun same_type :: "object \<Rightarrow> object \<Rightarrow> bool" where
  "same_type (OBackend _) (OBackend _) = True"
| "same_type (OFrontend _) (OFrontend _) = True"
| "same_type (OBind _) (OBind _) = True"
| "same_type (OServer _) (OServer _) = True"
| "same_type (OLoadBalancer _) (OLoadBalancer _) = True"
| "same_type _ _ = False"

definition ready_state :: gs_state where
  "ready_state = \<lparr>state_id = ''1'', state_type = 0\<rparr>"

fun with_id :: "string \<Rightarrow> object \<Rightarrow> object" where
  "with_id i (OBackend b) = OBackend (b\<lparr>be_id := i, be_state := ready_state\<rparr>)"
| "with_id i (OFrontend f) = OFrontend (f\<lparr>fe_id := i, fe_state := ready_state\<rparr>)"
| "with_id i (OBind b) = OBind (b\<lparr>bi_id := i, bi_state := ready_state\<rparr>)"
| "with_id i (OServer s) = OServer (s\<lparr>se_id := i, se_state := ready_state\<rparr>)"
| "with_id i obj = obj"

fun type_identifier :: "object \<Rightarrow> string" where
  "type_identifier (OBackend b) = backendResourceTypeIdentifier"
| "type_identifier (OFrontend f) = frontendResourceTypeIdentifier"
| "type_identifier (OBind b) = bindResourceTypeIdentifier"
| "type_identifier (OServer s) = serverResourceTypeIdentifier"
| "type_identifier _ = []"

definition ref_get :: "ref_world api_op" where
  "ref_get obj w =
     (case List.find (\<lambda>(i, x). i = ref_identifier obj \<and> same_type obj x) (re_objects w) of
        None \<Rightarrow> (Some (HTTPError 404), obj, w)
      | Some (i, x) \<Rightarrow> (None, x, w))"

definition ref_create :: "ref_world api_op" where
  "ref_create obj w =
     (case obj of
        OResourceWithTag i t \<Rightarrow> (None, obj, w\<lparr>re_tags := re_tags w @ [(i, t)]\<rparr>)
      | _ \<Rightarrow> let i = ''id-'' @ string_of_nat (re_next w); x = with_id i obj
             in (None, x, w\<lparr>re_objects := re_objects w @ [(i, x)], re_next := Suc (re_next w)\<rparr>))"

definition ref_update :: "ref_world api_op" where
  "ref_update obj w =
     (None, obj, w\<lparr>re_objects := map (\<lambda>(i, x). if i = ref_identifier obj then (i, obj) else (i, x)) (re_objects w)\<rparr>)"

definition ref_destroy :: "ref_world api_op" where
  "ref_destroy obj w =
     (if list_ex (\<lambda>(i, x). i = ref_identifier obj) (re_objects w)
      then (None, obj, w\<lparr>re_objects := filter (\<lambda>(i, x). i \<noteq> ref_identifier obj) (re_objects w)\<rparr>)
      else (Some (HTTPError 404), obj, w))"

definition ref_list :: "bool \<Rightarrow> string list \<Rightarrow> ref_world \<Rightarrow> go_error option \<times> ref_world retriever list \<times> ref_world" where
  "ref_list full ts w =
     (let found = filter (\<lambda>(i, x). list_all (\<lambda>t. List.member (re_tags w) (i, t)) ts) (re_objects w)
      in if found = [] then (Some (HTTPError 422), [], w)
         else (None, map (\<lambda>(i, x) v. (Inr \<lparr>res_id = i, res_type = type_identifier x\<rparr>, v)) found, w))"

definition ref_api :: "ref_world api" where
  "ref_api = \<lparr>api_get = ref_get, api_create = ref_create, api_update = ref_update,
              api_destroy = ref_destroy, api_list = ref_list\<rparr>"

end
