(* ===== verification/GoNet.thy ===== *)
theory GoNet
  imports Prelude
begin

text \<open>
  The part of Go's standard packages \<open>net\<close> and \<open>net/netip\<close> that the provider calls: an
  \<open>net.IP\<close> is a byte slice (\<open>nil\<close> is the empty list), an \<open>net.IPNet\<close> an address with
  a mask. Parsing and printing follow \<open>netip.ParseAddr\<close> and \<open>IP.String\<close>.
\<close>

type_synonym byte = "8 word"
type_synonym ip = "byte list"

record ipnet =
  net_ip :: ip
  net_mask :: "byte list"

section \<open>Predicates on addresses\<close>

definition v4InV6Prefix :: "byte list" where
  "v4InV6Prefix = replicate 10 0 @ [0xff, 0xff]"

definition to4 :: "ip \<Rightarrow> ip" where
  "to4 a = (if length a = 4 then a
            else if length a = 16 \<and> take 12 a = v4InV6Prefix then drop 12 a else [])"

definition ip_equal :: "ip \<Rightarrow> ip \<Rightarrow> bool" where
  "ip_equal a x \<longleftrightarrow>
     (if length a = length x then a = x
      else if length a = 4 \<and> length x = 16 then take 12 x = v4InV6Prefix \<and> a = drop 12 x
      else if length a = 16 \<and> length x = 4 then take 12 a = v4InV6Prefix \<and> drop 12 a = x
      else False)"

definition IPv4zero :: ip where
  "IPv4zero = v4InV6Prefix @ [0, 0, 0, 0]"

definition IPv6unspecified :: ip where
  "IPv6unspecified = replicate 16 0"

definition isUnspecified :: "ip \<Rightarrow> bool" where
  "isUnspecified a \<longleftrightarrow> ip_equal a IPv4zero \<or> ip_equal a IPv6unspecified"

lemma ip_equal_refl [simp]: "ip_equal a a"
  by (simp add: ip_equal_def)

lemma ip_equal_sym: "ip_equal a b = ip_equal b a"
  by (auto simp: ip_equal_def)

lemma length_v4InV6Prefix [simp]: "length v4InV6Prefix = 12"
  by (simp add: v4InV6Prefix_def)

lemma ip_equal_to4: "to4 a \<noteq> [] \<Longrightarrow> ip_equal a b \<longleftrightarrow> (to4 b = to4 a)"
  by (auto simp: ip_equal_def to4_def split: if_splits)
     (metis append_take_drop_id)+

text \<open>The zero value of \<open>net.IP\<close> (a failed parse) is not "unspecified".\<close>

lemma isUnspecified_nil [simp]: "\<not> isUnspecified []"
  by (simp add: isUnspecified_def ip_equal_def IPv4zero_def IPv6unspecified_def)

section \<open>Parsing\<close>

definition is_digit :: "char \<Rightarrow> bool" where
  "is_digit c \<longleftrightarrow> 48 \<le> (of_char c :: nat) \<and> (of_char c :: nat) \<le> 57"

definition digit_val :: "char \<Rightarrow> nat" where
  "digit_val c = of_char c - 48"

text \<open>
  \<open>parseIPv4Fields\<close>: \<open>val\<close> and \<open>dig\<close> are the value and the number of digits of the
  current octet, \<open>acc\<close> the finished octets.
\<close>

fun parse4_fields :: "string \<Rightarrow> nat \<Rightarrow> nat \<Rightarrow> byte list \<Rightarrow> byte list option" where
  "parse4_fields [] val dig acc = (if length acc < 3 then None else Some (acc @ [of_nat val]))"
| "parse4_fields (c # cs) val dig acc =
     (if is_digit c then
        (if dig = 1 \<and> val = 0 then None
         else let val' = val * 10 + digit_val c
              in if val' > 255 then None else parse4_fields cs val' (Suc dig) acc)
      else if c = CHR ''.'' then
        (if dig = 0 \<or> cs = [] then None
         else if length acc = 3 then None
         else parse4_fields cs 0 0 (acc @ [of_nat val]))
      else None)"

definition parse_ipv4 :: "string \<Rightarrow> ip option" where
  "parse_ipv4 s = parse4_fields s 0 0 []"

definition hex_val :: "char \<Rightarrow> nat option" where
  "hex_val c =
     (let n = (of_char c :: nat) in
      if 48 \<le> n \<and> n \<le> 57 then Some (n - 48)
      else if 97 \<le> n \<and> n \<le> 102 then Some (n - 87)
      else if 65 \<le> n \<and> n \<le> 70 then Some (n - 55)
      else None)"

text \<open>One group of hex digits: its value and what is left, \<open>None\<close> with more than four digits.\<close>

fun hex_group :: "string \<Rightarrow> nat \<Rightarrow> nat \<Rightarrow> (nat \<times> nat \<times> string) option" where
  "hex_group [] off acc = Some (acc, off, [])"
| "hex_group (c # cs) off acc =
     (case hex_val c of
        None \<Rightarrow> Some (acc, off, c # cs)
      | Some h \<Rightarrow> if off > 3 then None else hex_group cs (Suc off) (acc * 16 + h))"

text \<open>
  The loop of \<open>parseIPv6\<close>: \<open>out\<close> are the bytes read so far (\<open>i\<close> is their number),
  \<open>ell\<close> the position of the ellipsis. The result is the bytes, the ellipsis and the unread
  rest of the string.
\<close>

function parse6_loop ::
  "string \<Rightarrow> byte list \<Rightarrow> nat option \<Rightarrow> (byte list \<times> nat option \<times> string) option" where
  "parse6_loop s out ell =
     (if length out \<ge> 16 then Some (out, ell, s)
      else case hex_group s 0 0 of
        None \<Rightarrow> None
      | Some (acc, off, rest) \<Rightarrow>
          if off = 0 then None
          else if rest \<noteq> [] \<and> hd rest = CHR ''.'' then
            (if ell = None \<and> length out \<noteq> 12 then None
             else if length out + 4 > 16 then None
             else case parse_ipv4 s of None \<Rightarrow> None | Some q \<Rightarrow> Some (out @ q, ell, []))
          else
            let out' = out @ [of_nat (acc div 256), of_nat acc] in
            if rest = [] then Some (out', ell, [])
            else if hd rest \<noteq> CHR '':'' then None
            else if length rest = 1 then None
            else let s' = tl rest in
              if hd s' = CHR '':'' then
                (if ell \<noteq> None then None
                 else if tl s' = [] then Some (out', Some (length out'), [])
                 else parse6_loop (tl s') out' (Some (length out')))
              else parse6_loop s' out' ell)"
  by pat_completeness auto
termination
  by (relation "measure (\<lambda>(s, out, ell). 16 - length out)") auto

declare parse6_loop.simps [simp del]

definition parse6_finish :: "byte list \<times> nat option \<times> string \<Rightarrow> ip option" where
  "parse6_finish r =
     (case r of (out, ell, s) \<Rightarrow>
        if s \<noteq> [] then None
        else if length out < 16 then
          (case ell of None \<Rightarrow> None
           | Some e \<Rightarrow> Some (take e out @ replicate (16 - length out) 0 @ drop e out))
        else (if ell \<noteq> None then None else Some out))"

text \<open>\<open>parseIPv6\<close> without a zone: a zone makes \<open>net.ParseIP\<close> fail in any case.\<close>

definition parse_ipv6 :: "string \<Rightarrow> ip option" where
  "parse_ipv6 s =
     (if CHR ''%'' \<in> set s then None
      else if take 2 s = ''::'' then
        (if drop 2 s = [] then Some IPv6unspecified
         else case parse6_loop (drop 2 s) [] (Some 0) of None \<Rightarrow> None | Some r \<Rightarrow> parse6_finish r)
      else case parse6_loop s [] None of None \<Rightarrow> None | Some r \<Rightarrow> parse6_finish r)"

text \<open>
  \<open>netip.ParseAddr\<close>: the first of the three characters decides. The boolean is true for an IPv4
  address (\<open>BitLen\<close> 32).
\<close>

fun addr_kind :: "string \<Rightarrow> char option" where
  "addr_kind [] = None"
| "addr_kind (c # cs) = (if c = CHR ''.'' \<or> c = CHR '':'' \<or> c = CHR ''%'' then Some c else addr_kind cs)"

definition parse_addr :: "string \<Rightarrow> (bool \<times> ip) option" where
  "parse_addr s =
     (case addr_kind s of
        None \<Rightarrow> None
      | Some c \<Rightarrow>
          if c = CHR ''.'' then map_option (\<lambda>q. (True, v4InV6Prefix @ q)) (parse_ipv4 s)
          else if c = CHR '':'' then map_option (Pair False) (parse_ipv6 s)
          else None)"

text \<open>\<open>net.ParseIP\<close>: sixteen bytes, or nil.\<close>

definition parseIP :: "string \<Rightarrow> ip" where
  "parseIP s = (case parse_addr s of None \<Rightarrow> [] | Some (_, a) \<Rightarrow> a)"

text \<open>A parsed address has sixteen bytes.\<close>

lemma parse4_fields_length:
  "length acc \<le> 3 \<Longrightarrow> parse4_fields s val dig acc = Some q \<Longrightarrow> length q = 4"
  by (induction s val dig acc rule: parse4_fields.induct)
     (auto simp: Let_def split: if_splits)

lemma parse_ipv4_length: "parse_ipv4 s = Some q \<Longrightarrow> length q = 4"
  by (auto simp: parse_ipv4_def dest: parse4_fields_length [rotated])

definition parse6_inv :: "byte list \<Rightarrow> nat option \<Rightarrow> bool" where
  "parse6_inv out ell \<longleftrightarrow> length out \<le> 16 \<and> even (length out) \<and> (\<forall>e. ell = Some e \<longrightarrow> e \<le> length out)"

lemma parse6_inv_group:
  assumes "parse6_inv out ell" and "\<not> 16 \<le> length out"
  shows "parse6_inv (out @ [x, y]) ell" and "parse6_inv (out @ [x, y]) (Some (Suc (Suc (length out))))"
proof -
  from assms have "length out + 2 \<le> 16" by (auto simp: parse6_inv_def)
  with assms show "parse6_inv (out @ [x, y]) ell"
    and "parse6_inv (out @ [x, y]) (Some (Suc (Suc (length out))))"
    by (auto simp: parse6_inv_def)
qed

lemma parse6_loop_inv:
  "parse6_loop s out ell = Some (out', ell', s') \<Longrightarrow> parse6_inv out ell \<Longrightarrow> parse6_inv out' ell'"
proof (induction s out ell rule: parse6_loop.induct)
  case (1 s out ell)
  show ?case
  proof (cases "16 \<le> length out")
    case True
    with "1.prems" show ?thesis by (simp add: parse6_loop.simps)
  next
    case short: False
    note grp = parse6_inv_group [OF "1.prems"(2) short]
    obtain acc off rest where hg: "hex_group s 0 0 = Some (acc, off, rest)" and off: "off \<noteq> 0"
      using "1.prems"(1) short
      by (subst (asm) parse6_loop.simps) (auto split: option.splits if_splits)
    note eqn = parse6_loop.simps [of s out ell] and defs = hg off short Let_def
    consider "rest \<noteq> []" "hd rest = CHR ''.''" | "rest = []"
      | "rest \<noteq> []" "hd rest = CHR '':''" "length rest \<noteq> 1" "hd (tl rest) = CHR '':''" "ell = None"
      | "rest \<noteq> []" "hd rest = CHR '':''" "length rest \<noteq> 1" "hd (tl rest) \<noteq> CHR '':''"
      using "1.prems"(1) by (simp add: eqn defs split: if_splits)
    then show ?thesis
    proof cases
      case 1
      with "1.prems" obtain q where "parse_ipv4 s = Some q" "out' = out @ q" "ell' = ell" "length out + 4 \<le> 16"
        by (simp add: eqn defs split: if_splits option.splits)
      with "1.prems"(2) show ?thesis by (auto simp: parse6_inv_def dest: parse_ipv4_length)
    next
      case 2
      with "1.prems" grp show ?thesis by (auto simp: eqn defs)
    next
      case 3
      then have "tl (tl rest) \<noteq> [] \<Longrightarrow> parse6_loop (tl (tl rest)) (out @ [of_nat (acc div 256), of_nat acc])
          (Some (Suc (Suc (length out)))) = Some (out', ell', s') \<Longrightarrow> parse6_inv out' ell'"
        using "1.IH"(1) [OF short hg refl refl off] grp by simp
      with 3 "1.prems"(1) grp show ?thesis
        by (auto simp: parse6_loop.simps [of s out None] defs split: if_splits)
    next
      case 4
      with "1.prems"(1) grp show ?thesis
        using "1.IH"(2) [OF short hg] off by (auto simp: eqn defs split: if_splits)
    qed
  qed
qed

lemma parse6_finish_length: "parse6_inv out ell \<Longrightarrow> parse6_finish (out, ell, s) = Some a \<Longrightarrow> length a = 16"
  by (auto simp: parse6_finish_def parse6_inv_def split: if_splits option.splits)

lemma parse_ipv6_length: "parse_ipv6 s = Some a \<Longrightarrow> length a = 16"
proof -
  have inv: "parse6_inv [] None" "parse6_inv [] (Some 0)" by (auto simp: parse6_inv_def)
  have "parse6_loop t [] ell = Some r \<Longrightarrow> parse6_inv [] ell \<Longrightarrow> parse6_finish r = Some a \<Longrightarrow> length a = 16"
    for t ell r
    by (cases r) (auto dest: parse6_loop_inv parse6_finish_length)
  with inv show "parse_ipv6 s = Some a \<Longrightarrow> length a = 16"
    by (auto simp: parse_ipv6_def IPv6unspecified_def split: if_splits option.splits)
qed

lemma parse_addr_length: "parse_addr s = Some (v4, a) \<Longrightarrow> length a = 16"
  by (auto simp: parse_addr_def dest: parse_ipv4_length parse_ipv6_length split: option.splits if_splits)

lemma parse_addr_v4: "parse_addr s = Some (True, a) \<Longrightarrow> take 12 a = v4InV6Prefix"
  by (auto simp: parse_addr_def split: option.splits if_splits)

lemma length_parseIP: "length (parseIP s) = 0 \<or> length (parseIP s) = 16"
  by (auto simp: parseIP_def dest: parse_addr_length split: option.splits)

section \<open>Printing\<close>

definition dotted :: "ip \<Rightarrow> string" where
  "dotted a = join_with ''.'' (map (\<lambda>b. string_of_nat (unat b)) a)"

definition hex_digit :: "nat \<Rightarrow> char" where
  "hex_digit n = (if n < 10 then char_of (48 + n) else char_of (87 + n))"

fun hex_string :: "nat \<Rightarrow> string" where
  "hex_string n = (if n < 16 then [hex_digit n] else hex_string (n div 16) @ [hex_digit (n mod 16)])"

declare hex_string.simps [simp del]

fun groups :: "byte list \<Rightarrow> nat list" where
  "groups (a # b # bs) = (unat a * 256 + unat b) # groups bs"
| "groups _ = []"

fun zero_run :: "nat list \<Rightarrow> nat" where
  "zero_run [] = 0"
| "zero_run (g # gs) = (if g = 0 then Suc (zero_run gs) else 0)"

text \<open>The first longest run of at least two zero groups: its start and length.\<close>

fun best_run :: "nat list \<Rightarrow> nat \<Rightarrow> nat \<times> nat \<Rightarrow> nat \<times> nat" where
  "best_run [] i best = best"
| "best_run (g # gs) i best =
     (let l = zero_run (g # gs)
      in best_run gs (Suc i) (if l \<ge> 2 \<and> l > snd best then (i, l) else best))"

definition string6 :: "ip \<Rightarrow> string" where
  "string6 a =
     (let gs = groups a; r = best_run gs 0 (255, 0); hx = map hex_string
      in if snd r = 0 then join_with '':'' (hx gs)
         else join_with '':'' (hx (take (fst r) gs)) @ ''::'' @
              join_with '':'' (hx (drop (fst r + snd r) gs)))"

definition hex2 :: "byte \<Rightarrow> string" where
  "hex2 b = [hex_digit (unat b div 16), hex_digit (unat b mod 16)]"

definition ip_string :: "ip \<Rightarrow> string" where
  "ip_string a =
     (if a = [] then ''<nil>''
      else if length a \<noteq> 4 \<and> length a \<noteq> 16 then CHR ''?'' # concat (map hex2 a)
      else if length (to4 a) = 4 then dotted (to4 a) else string6 a)"

section \<open>Networks\<close>

fun ones_of_byte :: "nat \<Rightarrow> byte \<Rightarrow> nat \<Rightarrow> nat \<times> byte" where
  "ones_of_byte 0 v n = (n, v)"
| "ones_of_byte (Suc k) v n =
     (if v AND 0x80 \<noteq> 0 then ones_of_byte k (push_bit 1 v) (Suc n) else (n, v))"

fun simpleMaskLength :: "byte list \<Rightarrow> nat \<Rightarrow> nat option" where
  "simpleMaskLength [] n = Some n"
| "simpleMaskLength (v # vs) n =
     (if v = 0xff then simpleMaskLength vs (n + 8)
      else (case ones_of_byte 8 v n of (n', v') \<Rightarrow>
              if v' \<noteq> 0 then None else if \<exists>x\<in>set vs. x \<noteq> 0 then None else Some n'))"

definition mask_size :: "byte list \<Rightarrow> int \<times> int" where
  "mask_size m = (case simpleMaskLength m 0 of None \<Rightarrow> (0, 0) | Some n \<Rightarrow> (int n, int (length m) * 8))"

fun cidr_mask_bytes :: "nat \<Rightarrow> nat \<Rightarrow> byte list" where
  "cidr_mask_bytes 0 n = []"
| "cidr_mask_bytes (Suc l) n =
     (if n \<ge> 8 then 0xff # cidr_mask_bytes l (n - 8)
      else NOT (drop_bit n 0xff) # cidr_mask_bytes l 0)"

lemma cidr_mask_bytes_numeral:
  "cidr_mask_bytes (numeral l) n =
     (if n \<ge> 8 then 0xff # cidr_mask_bytes (pred_numeral l) (n - 8)
      else NOT (drop_bit n 0xff) # cidr_mask_bytes (pred_numeral l) 0)"
  by (simp add: numeral_eq_Suc)

lemma cidr_mask_bytes_1:
  "cidr_mask_bytes (Suc 0) n = (if n \<ge> 8 then [0xff] else [NOT (drop_bit n 0xff)])"
  by simp

definition cidrMask :: "nat \<Rightarrow> nat \<Rightarrow> byte list" where
  "cidrMask ones bits =
     (if bits \<noteq> 32 \<and> bits \<noteq> 128 then [] else if ones > bits then []
      else cidr_mask_bytes (bits div 8) ones)"

definition ip_mask :: "ip \<Rightarrow> byte list \<Rightarrow> ip" where
  "ip_mask a m =
     (let m' = (if length m = 16 \<and> length a = 4 \<and> (\<forall>x\<in>set (take 12 m). x = 0xff) then drop 12 m else m);
          a' = (if length m' = 4 \<and> length a = 16 \<and> take 12 a = v4InV6Prefix then drop 12 a else a)
      in if length a' \<noteq> length m' then [] else map2 (AND) a' m')"

text \<open>\<open>dtoi\<close>: the decimal prefix of a string, \<open>None\<close> when empty or at least \<open>0xFFFFFF\<close>.\<close>

fun dtoi :: "string \<Rightarrow> nat \<Rightarrow> nat option" where
  "dtoi [] n = Some n"
| "dtoi (c # cs) n =
     (if is_digit c then
        (let n' = n * 10 + digit_val c in if n' \<ge> 0xFFFFFF then None else dtoi cs n')
      else None)"

definition parseCIDR :: "string \<Rightarrow> ipnet option" where
  "parseCIDR s =
     (let addr = takeWhile (\<lambda>c. c \<noteq> CHR ''/'') s; rest = dropWhile (\<lambda>c. c \<noteq> CHR ''/'') s in
      if rest = [] then None
      else case parse_addr addr of
        None \<Rightarrow> None
      | Some (v4, a) \<Rightarrow>
          (if tl rest = [] then None
           else case dtoi (tl rest) 0 of
             None \<Rightarrow> None
           | Some n \<Rightarrow>
               let bits = (if v4 then 32 else 128) in
               if n > bits then None
               else Some \<lparr>net_ip = ip_mask a (cidrMask n bits), net_mask = cidrMask n bits\<rparr>))"

text \<open>Facts that evaluate a parse of a literal.\<close>

lemmas parse_eval = parseCIDR_def parse_addr_def parse_ipv4_def parse_ipv6_def is_digit_def
  digit_val_def ip_mask_def cidrMask_def v4InV6Prefix_def cidr_mask_bytes_numeral cidr_mask_bytes_1

end
