(* ===== verification/ReconState.thy ===== *)
theory ReconState
  imports Objects GoNet
begin

text \<open>
  The state of one reconciliation (\<open>reconciliation/reconciliation.go\<close>, \<open>types.go\<close>) and how it
  is filled from the Engine: \<open>New\<close>, \<open>retrieveState\<close>, \<open>retrieveResources\<close>,
  \<open>filterBinds\<close>, \<open>filterServers\<close>, \<open>sortObjectIntoStateArray\<close>, \<open>Status\<close>.

  Logging is not modelled. The prometheus vectors are counters and gauges of the record
  \<open>recon_metrics\<close>; of a histogram the number of observations is kept.
\<close>

section \<open>Data\<close>

record port =
  external :: "16 word"
  internal :: "16 word"

record server_spec =
  sv_name :: string
  sv_address :: ip

record recon =
  resourceNameSuffix :: string
  lb_identifier :: string
  externalAddresses :: "ip list"
  ports :: "string \<rightharpoonup> port"
  targetServers :: "server_spec list"
  tags :: "string list"
  frontends :: "lb_frontend list"
  backends :: "lb_backend list"
  binds :: "lb_bind list"
  servers :: "lb_server list"
  existingFailed :: "object list"
  existingProgressing :: "object list"
  existingUpdating :: "object list"
  portBackends :: "string \<rightharpoonup> lb_backend"
  portFrontends :: "string \<rightharpoonup> lb_frontend"
  publicAddresses :: "string list"
  backoffSteps :: int

record recon_metrics =
  pendingCreate :: int
  pendingDestroy :: int
  createErrors :: nat
  deleteRetries :: nat
  deleteErrors :: nat
  createdTotal :: nat
  deletedTotal :: nat
  createDurations :: nat
  totalDurations :: nat
  retrievedFrontends :: nat
  retrievedBinds :: nat
  retrievedBackends :: nat
  retrievedServers :: nat

record 'w st =
  world :: 'w
  rcn :: recon
  met :: recon_metrics

definition ErrResourcesNotDestroyable :: go_error where
  "ErrResourcesNotDestroyable = Sentinel ''failed to Destroy some resources''"
definition ErrLBaaSResourceProgressing :: go_error where
  "ErrLBaaSResourceProgressing = Sentinel ''LBaaS resource still progressing''"
definition ErrLBaaSResourceRecoveryPending :: go_error where
  "ErrLBaaSResourceRecoveryPending = Sentinel ''LBaaS resource recovery pending''"
definition ErrLBaaSResourceFailed :: go_error where
  "ErrLBaaSResourceFailed = Sentinel ''LBaaS resource in failure state''"

lemmas sentinel_defs = ErrResourcesNotDestroyable_def ErrLBaaSResourceProgressing_def
  ErrLBaaSResourceRecoveryPending_def ErrLBaaSResourceFailed_def

text \<open>\<open>makeResourceName\<close>: the non-empty parts and the suffix, joined by dots.\<close>

definition makeResourceName :: "recon \<Rightarrow> string list \<Rightarrow> string" where
  "makeResourceName r parts = join_with ''.'' (filter (\<lambda>p. p \<noteq> []) (parts @ [resourceNameSuffix r]))"

text \<open>\<open>New\<close>: the LoadBalancer is read once; its identifier is what the Engine returned.\<close>

definition recon_New ::
  "'w api \<Rightarrow> string \<Rightarrow> string \<Rightarrow> string \<Rightarrow> ip list \<Rightarrow> (string \<rightharpoonup> port) \<Rightarrow> server_spec list \<Rightarrow> int \<Rightarrow>
   'w \<Rightarrow> (go_error + recon) \<times> 'w" where
  "recon_New A suffix lbid uid addrs ps srvs steps w =
     (case api_get A (OLoadBalancer lbid) w of
        (Some e, obj, w') \<Rightarrow>
          (Inl (wrap_error ''error retrieving LBaaS LoadBalancer to attach service to'' e), w')
      | (None, obj, w') \<Rightarrow>
          (Inr \<lparr>resourceNameSuffix = suffix, lb_identifier = loadbalancer_of lbid obj,
                externalAddresses = addrs, ports = ps, targetServers = srvs,
                tags = [''anxccm-svc-uid='' @ uid],
                frontends = [], backends = [], binds = [], servers = [],
                existingFailed = [], existingProgressing = [], existingUpdating = [],
                portBackends = Map.empty, portFrontends = Map.empty,
                publicAddresses = [], backoffSteps = steps\<rparr>, w'))"

section \<open>Object states\<close>

fun isResourceUpdating :: "lib \<Rightarrow> object \<Rightarrow> bool" where
  "isResourceUpdating L (OBackend b) = (state_id (be_state b) = updatingID L)"
| "isResourceUpdating L (OFrontend f) = (state_id (fe_state f) = updatingID L)"
| "isResourceUpdating L (OBind b) = (state_id (bi_state b) = updatingID L)"
| "isResourceUpdating L (OServer s) = (state_id (se_state s) = updatingID L)"
| "isResourceUpdating L _ = False"

definition sortObjectIntoStateArray :: "lib \<Rightarrow> object \<Rightarrow> recon \<Rightarrow> recon" where
  "sortObjectIntoStateArray L obj r =
     (case object_state obj of
        None \<Rightarrow> r
      | Some s \<Rightarrow>
          if isResourceUpdating L obj then r\<lparr>existingUpdating := existingUpdating r @ [obj]\<rparr>
          else if stateError L s then r\<lparr>existingFailed := existingFailed r @ [obj]\<rparr>
          else if statePending L s then r\<lparr>existingProgressing := existingProgressing r @ [obj]\<rparr>
          else r)"

section \<open>Public addresses\<close>

text \<open>\<open>sort.Search\<close> (binary search) and \<open>sort.SearchStrings\<close>.\<close>

function search_loop :: "(nat \<Rightarrow> bool) \<Rightarrow> nat \<Rightarrow> nat \<Rightarrow> nat" where
  "search_loop f i j =
     (if i < j then
        (let h = (i + j) div 2 in if \<not> f h then search_loop f (h + 1) j else search_loop f i h)
      else i)"
  by pat_completeness auto
termination
  by (relation "measure (\<lambda>(f, i, j). j - i)") auto

declare search_loop.simps [simp del]

definition searchStrings :: "string list \<Rightarrow> string \<Rightarrow> nat" where
  "searchStrings a x = search_loop (\<lambda>i. x \<le> a ! i) 0 (length a)"

definition storePublicAddress :: "string \<Rightarrow> recon \<Rightarrow> recon" where
  "storePublicAddress addr r =
     (let idx = searchStrings (publicAddresses r) addr
      in if idx \<ge> length (publicAddresses r) \<or> publicAddresses r ! idx \<noteq> addr
         then r\<lparr>publicAddresses := sort (publicAddresses r @ [addr])\<rparr> else r)"

section \<open>Retrieval\<close>

text \<open>\<open>filterBinds\<close> and \<open>filterServers\<close>: the loops with the kept objects so far.\<close>

fun filterBinds :: "lib \<Rightarrow> lb_bind list \<Rightarrow> lb_bind list \<Rightarrow> recon \<Rightarrow> (go_error + lb_bind list) \<times> recon" where
  "filterBinds L [] ret r = (Inr ret, r)"
| "filterBinds L (b # bs) ret r =
     (case searchFrontends L [''Identifier''] (blank_frontend (bi_frontend b)) (frontends r) of
        Inl e \<Rightarrow> (Inl (wrap_error ''error checking if Binds belongs to one of our frontends'' e), r)
      | Inr idx \<Rightarrow>
          if idx \<noteq> -1 then
            let r' = sortObjectIntoStateArray L (OBind b) r;
                r'' = (if bi_address b \<noteq> [] then storePublicAddress (bi_address b) r' else r')
            in filterBinds L bs (ret @ [b]) r''
          else filterBinds L bs ret r)"

fun filterServers :: "lib \<Rightarrow> lb_server list \<Rightarrow> lb_server list \<Rightarrow> recon \<Rightarrow> (go_error + lb_server list) \<times> recon" where
  "filterServers L [] ret r = (Inr ret, r)"
| "filterServers L (s # ss) ret r =
     (case searchBackends L [''Identifier''] (blank_backend (se_backend s)) (backends r) of
        Inl e \<Rightarrow> (Inl (wrap_error ''error checking if Server belongs to one of our frontends'' e), r)
      | Inr idx \<Rightarrow>
          if idx \<noteq> -1 then filterServers L ss (ret @ [s]) (sortObjectIntoStateArray L (OServer s) r)
          else filterServers L ss ret r)"

text \<open>
  The four closures of \<open>typedRetrievers\<close>. \<open>allBinds\<close> and \<open>allServers\<close> are local variables
  the closures append to. A frontend without a LoadBalancer is a nil dereference.
\<close>

record 'w gather =
  g_world :: 'w
  g_recon :: recon
  allBinds :: "lb_bind list"
  allServers :: "lb_server list"

definition get_frontend :: "lib \<Rightarrow> 'w api \<Rightarrow> string \<Rightarrow> 'w gather \<Rightarrow> go_error option \<times> 'w gather" where
  "get_frontend L A i g =
     (case api_get A (OFrontend (blank_frontend i)) (g_world g) of
        (Some e, obj, w) \<Rightarrow> (Some e, g\<lparr>g_world := w\<rparr>)
      | (None, obj, w) \<Rightarrow>
          let f = frontend_of (blank_frontend i) obj; r = g_recon g in
          (case fe_lb f of
             None \<Rightarrow> (Some (Panic ''nil pointer dereference: frontend.LoadBalancer''), g\<lparr>g_world := w\<rparr>)
           | Some l \<Rightarrow>
               (None, g\<lparr>g_world := w,
                        g_recon := (if l = lb_identifier r
                          then sortObjectIntoStateArray L (OFrontend f) (r\<lparr>frontends := frontends r @ [f]\<rparr>)
                          else r)\<rparr>)))"

definition get_backend :: "lib \<Rightarrow> 'w api \<Rightarrow> string \<Rightarrow> 'w gather \<Rightarrow> go_error option \<times> 'w gather" where
  "get_backend L A i g =
     (case api_get A (OBackend (blank_backend i)) (g_world g) of
        (Some e, obj, w) \<Rightarrow> (Some e, g\<lparr>g_world := w\<rparr>)
      | (None, obj, w) \<Rightarrow>
          let b = backend_of (blank_backend i) obj; r = g_recon g in
          (None, g\<lparr>g_world := w,
                   g_recon := (if be_lb b = lb_identifier r
                     then sortObjectIntoStateArray L (OBackend b) (r\<lparr>backends := backends r @ [b]\<rparr>)
                     else r)\<rparr>))"

definition get_bind :: "'w api \<Rightarrow> string \<Rightarrow> 'w gather \<Rightarrow> go_error option \<times> 'w gather" where
  "get_bind A i g =
     (case api_get A (OBind (blank_bind i)) (g_world g) of
        (Some e, obj, w) \<Rightarrow> (Some e, g\<lparr>g_world := w\<rparr>)
      | (None, obj, w) \<Rightarrow>
          (None, g\<lparr>g_world := w, allBinds := allBinds g @ [bind_of (blank_bind i) obj]\<rparr>))"

definition get_server :: "'w api \<Rightarrow> string \<Rightarrow> 'w gather \<Rightarrow> go_error option \<times> 'w gather" where
  "get_server A i g =
     (case api_get A (OServer (blank_server i)) (g_world g) of
        (Some e, obj, w) \<Rightarrow> (Some e, g\<lparr>g_world := w\<rparr>)
      | (None, obj, w) \<Rightarrow>
          (None, g\<lparr>g_world := w, allServers := allServers g @ [server_of (blank_server i) obj]\<rparr>))"

text \<open>The lookup in \<open>typedRetrievers\<close>; a resource of any other type is ignored.\<close>

definition typed_retrieve :: "lib \<Rightarrow> 'w api \<Rightarrow> resource \<Rightarrow> 'w gather \<Rightarrow> go_error option \<times> 'w gather" where
  "typed_retrieve L A res g =
     (if res_type res = frontendResourceTypeIdentifier then get_frontend L A (res_id res) g
      else if res_type res = backendResourceTypeIdentifier then get_backend L A (res_id res) g
      else if res_type res = bindResourceTypeIdentifier then get_bind A (res_id res) g
      else if res_type res = serverResourceTypeIdentifier then get_server A (res_id res) g
      else (None, g))"

fun retrieve_loop :: "lib \<Rightarrow> 'w api \<Rightarrow> 'w retriever list \<Rightarrow> 'w gather \<Rightarrow> go_error option \<times> 'w gather" where
  "retrieve_loop L A [] g = (None, g)"
| "retrieve_loop L A (rt # rts) g =
     (case rt (g_world g) of
        (Inl e, w) \<Rightarrow> (Some (wrap_error ''error retrieving resource'' e), g\<lparr>g_world := w\<rparr>)
      | (Inr res, w) \<Rightarrow>
          (case typed_retrieve L A res (g\<lparr>g_world := w\<rparr>) of
             (Some e, g') \<Rightarrow> (Some (wrap_error ''error retrieving typed resource'' e), g')
           | (None, g') \<Rightarrow> retrieve_loop L A rts g'))"

definition count_retrieved :: "recon \<Rightarrow> recon_metrics \<Rightarrow> recon_metrics" where
  "count_retrieved r m =
     m\<lparr>retrievedFrontends := retrievedFrontends m + length (frontends r),
       retrievedBinds := retrievedBinds m + length (binds r),
       retrievedBackends := retrievedBackends m + length (backends r),
       retrievedServers := retrievedServers m + length (servers r)\<rparr>"

definition retrieveResources :: "lib \<Rightarrow> 'w api \<Rightarrow> 'w st \<Rightarrow> go_error option \<times> 'w st" where
  "retrieveResources L A s =
     (case api_list A True (tags (rcn s)) (world s) of
        (Some e, _, w) \<Rightarrow>
          ((if as_http e \<noteq> Some 422 then Some (wrap_error ''error retrieving resources'' e) else None),
           s\<lparr>world := w\<rparr>)
      | (None, oc, w) \<Rightarrow>
          (case retrieve_loop L A oc \<lparr>g_world = w, g_recon = rcn s, allBinds = [], allServers = []\<rparr> of
             (Some e, g) \<Rightarrow> (Some e, s\<lparr>world := g_world g, rcn := g_recon g\<rparr>)
           | (None, g) \<Rightarrow>
               (case filterBinds L (allBinds g) [] (g_recon g) of
                  (Inl e, r) \<Rightarrow> (Some e, s\<lparr>world := g_world g, rcn := r\<lparr>binds := []\<rparr>\<rparr>)
                | (Inr bs, r) \<Rightarrow>
                    (case filterServers L (allServers g) [] (r\<lparr>binds := bs\<rparr>) of
                       (Inl e, r') \<Rightarrow> (Some e, s\<lparr>world := g_world g, rcn := r'\<lparr>servers := []\<rparr>\<rparr>)
                     | (Inr ss, r') \<Rightarrow>
                         let r'' = r'\<lparr>servers := ss\<rparr> in
                         (None, s\<lparr>world := g_world g, rcn := r'', met := count_retrieved r'' (met s)\<rparr>)))))"

definition reset_recon :: "recon \<Rightarrow> recon" where
  "reset_recon r =
     r\<lparr>frontends := [], backends := [], binds := [], servers := [],
       portBackends := Map.empty, portFrontends := Map.empty,
       existingFailed := [], existingProgressing := [], existingUpdating := []\<rparr>"

definition retrieveState :: "lib \<Rightarrow> 'w api \<Rightarrow> 'w st \<Rightarrow> go_error option \<times> 'w st" where
  "retrieveState L A s = retrieveResources L A (s\<lparr>rcn := reset_recon (rcn s)\<rparr>)"

text \<open>\<open>Status\<close>: the ports of the binds, by address; \<open>uint16(bind.Port)\<close> truncates.\<close>

fun status_loop :: "lb_bind list \<Rightarrow> (string \<rightharpoonup> 16 word list) \<Rightarrow> (string \<rightharpoonup> 16 word list)" where
  "status_loop [] m = m"
| "status_loop (b # bs) m =
     (let m' = (if m (bi_address b) = None then m(bi_address b \<mapsto> []) else m)
      in status_loop bs (m'(bi_address b \<mapsto> the (m' (bi_address b)) @ [of_int (bi_port b)])))"

definition recon_Status :: "lib \<Rightarrow> 'w api \<Rightarrow> 'w st \<Rightarrow> (go_error + (string \<rightharpoonup> 16 word list)) \<times> 'w st" where
  "recon_Status L A s =
     (case retrieveState L A s of
        (Some e, s') \<Rightarrow> (Inl e, s')
      | (None, s') \<Rightarrow> (Inr (status_loop (binds (rcn s')) Map.empty), s'))"

section \<open>Data for the witnesses\<close>

definition sample_recon :: recon where
  "sample_recon =
     \<lparr>resourceNameSuffix = ''svc.ns.cluster'', lb_identifier = ''lb-1'',
      externalAddresses = [v4InV6Prefix @ [8, 8, 8, 8]],
      ports = [''http'' \<mapsto> \<lparr>external = 80, internal = 42037\<rparr>],
      targetServers = [\<lparr>sv_name = ''node-1'', sv_address = v4InV6Prefix @ [10, 244, 0, 4]\<rparr>],
      tags = [''anxccm-svc-uid=uid''],
      frontends = [], backends = [], binds = [], servers = [],
      existingFailed = [], existingProgressing = [], existingUpdating = [],
      portBackends = Map.empty, portFrontends = Map.empty,
      publicAddresses = [''1.2.3.4'', ''1.2.3.9''], backoffSteps = 3\<rparr>"

definition zero_metrics :: recon_metrics where
  "zero_metrics =
     \<lparr>pendingCreate = 0, pendingDestroy = 0, createErrors = 0, deleteRetries = 0, deleteErrors = 0,
      createdTotal = 0, deletedTotal = 0, createDurations = 0, totalDurations = 0,
      retrievedFrontends = 0, retrievedBinds = 0, retrievedBackends = 0, retrievedServers = 0\<rparr>"

text \<open>An Engine with one of our backends and its server, and a backend of another LoadBalancer.\<close>

definition sample_backend :: lb_backend where
  "sample_backend = \<lparr>be_id = ''b1'', be_name = ''http.svc.ns.cluster'', be_mode = ''tcp'',
     be_health = ''check'', be_lb = ''lb-1'', be_state = ready_state\<rparr>"

definition sample_server :: lb_server where
  "sample_server = \<lparr>se_id = ''s1'', se_name = ''node-1.http.svc.ns.cluster'', se_ip = ''10.244.0.4'',
     se_port = 42037, se_check = ''enabled'', se_backend = ''b1'', se_state = ready_state\<rparr>"

definition sample_world :: ref_world where
  "sample_world =
     \<lparr>re_objects = [(''b1'', OBackend sample_backend),
        (''b2'', OBackend (sample_backend\<lparr>be_id := ''b2'', be_lb := ''lb-2''\<rparr>)),
        (''s1'', OServer sample_server),
        (''s2'', OServer (sample_server\<lparr>se_id := ''s2'', se_backend := ''b2''\<rparr>))],
      re_tags = map (\<lambda>i. (i, ''anxccm-svc-uid=uid'')) [''b1'', ''b2'', ''s1'', ''s2''],
      re_next = 3\<rparr>"

definition sample_st :: "ref_world st" where
  "sample_st = \<lparr>world = sample_world, rcn = sample_recon, met = zero_metrics\<rparr>"

section \<open>Sorting objects by state\<close>

datatype obj_class = Updating | Failed | Progressing | Ready

definition obj_class :: "lib \<Rightarrow> object \<Rightarrow> obj_class" where
  "obj_class L obj =
     (case object_state obj of
        None \<Rightarrow> Ready
      | Some s \<Rightarrow> if isResourceUpdating L obj then Updating else if stateError L s then Failed
                  else if statePending L s then Progressing else Ready)"

text \<open>The three arrays hold exactly the objects of \<open>os\<close> in the three classes.\<close>

definition in_class :: "lib \<Rightarrow> obj_class \<Rightarrow> object set \<Rightarrow> object set" where
  "in_class L c os = {x \<in> os. obj_class L x = c}"

lemma in_class_insert:
  "in_class L c (insert x os) = (if obj_class L x = c then insert x (in_class L c os) else in_class L c os)"
  by (auto simp: in_class_def)

lemma in_class_empty [simp]: "in_class L c {} = {}"
  by (simp add: in_class_def)

definition classified :: "lib \<Rightarrow> recon \<Rightarrow> object set \<Rightarrow> bool" where
  "classified L r os \<longleftrightarrow>
     set (existingUpdating r) = in_class L Updating os \<and>
     set (existingFailed r) = in_class L Failed os \<and>
     set (existingProgressing r) = in_class L Progressing os"

definition managed :: "recon \<Rightarrow> object set" where
  "managed r = OBackend ` set (backends r) \<union> OFrontend ` set (frontends r) \<union>
               OBind ` set (binds r) \<union> OServer ` set (servers r)"

text \<open>The fields that describe the wanted state; no retrieval changes them.\<close>

definition same_config :: "recon \<Rightarrow> recon \<Rightarrow> bool" where
  "same_config r r' \<longleftrightarrow>
     resourceNameSuffix r' = resourceNameSuffix r \<and> lb_identifier r' = lb_identifier r \<and>
     externalAddresses r' = externalAddresses r \<and> ports r' = ports r \<and>
     targetServers r' = targetServers r \<and> tags r' = tags r \<and> backoffSteps r' = backoffSteps r"

lemma same_config_refl [simp]: "same_config r r"
  by (simp add: same_config_def)

lemma same_config_trans: "same_config r r' \<Longrightarrow> same_config r' r'' \<Longrightarrow> same_config r r''"
  by (simp add: same_config_def)

lemma makeResourceName_config: "same_config r r' \<Longrightarrow> makeResourceName r' parts = makeResourceName r parts"
  by (simp add: same_config_def makeResourceName_def)

lemma sort_fields [simp]:
  "frontends (sortObjectIntoStateArray L obj r) = frontends r"
  "backends (sortObjectIntoStateArray L obj r) = backends r"
  "binds (sortObjectIntoStateArray L obj r) = binds r"
  "servers (sortObjectIntoStateArray L obj r) = servers r"
  "lb_identifier (sortObjectIntoStateArray L obj r) = lb_identifier r"
  "publicAddresses (sortObjectIntoStateArray L obj r) = publicAddresses r"
  "portBackends (sortObjectIntoStateArray L obj r) = portBackends r"
  "portFrontends (sortObjectIntoStateArray L obj r) = portFrontends r"
  "same_config r0 (sortObjectIntoStateArray L obj r) = same_config r0 r"
  by (auto simp: sortObjectIntoStateArray_def same_config_def split: option.splits)

lemma storePublicAddress_fields [simp]:
  "frontends (storePublicAddress a r) = frontends r"
  "backends (storePublicAddress a r) = backends r"
  "binds (storePublicAddress a r) = binds r"
  "servers (storePublicAddress a r) = servers r"
  "lb_identifier (storePublicAddress a r) = lb_identifier r"
  "portBackends (storePublicAddress a r) = portBackends r"
  "portFrontends (storePublicAddress a r) = portFrontends r"
  "same_config r0 (storePublicAddress a r) = same_config r0 r"
  "classified L (storePublicAddress a r) os = classified L r os"
  by (simp_all add: storePublicAddress_def same_config_def classified_def Let_def)

lemma sort_by_class:
  "sortObjectIntoStateArray L obj r =
     (case obj_class L obj of
        Updating \<Rightarrow> r\<lparr>existingUpdating := existingUpdating r @ [obj]\<rparr>
      | Failed \<Rightarrow> r\<lparr>existingFailed := existingFailed r @ [obj]\<rparr>
      | Progressing \<Rightarrow> r\<lparr>existingProgressing := existingProgressing r @ [obj]\<rparr>
      | Ready \<Rightarrow> r)"
  by (simp add: sortObjectIntoStateArray_def obj_class_def split: option.split)

lemma classified_sort: "classified L r os \<Longrightarrow> classified L (sortObjectIntoStateArray L obj r) (insert obj os)"
  by (cases "obj_class L obj") (simp_all add: classified_def sort_by_class in_class_insert)

lemma classified_cong:
  "existingUpdating r' = existingUpdating r \<Longrightarrow> existingFailed r' = existingFailed r \<Longrightarrow>
   existingProgressing r' = existingProgressing r \<Longrightarrow> classified L r' os = classified L r os"
  by (simp add: classified_def)

lemma classified_update [simp]:
  "classified L (r\<lparr>frontends := fs\<rparr>) os = classified L r os"
  "classified L (r\<lparr>backends := bs\<rparr>) os = classified L r os"
  "classified L (r\<lparr>binds := bis\<rparr>) os = classified L r os"
  "classified L (r\<lparr>servers := ss\<rparr>) os = classified L r os"
  by (simp_all add: classified_def)

lemma same_config_update [simp]:
  "same_config r0 (r\<lparr>frontends := fs\<rparr>) = same_config r0 r"
  "same_config r0 (r\<lparr>backends := bs\<rparr>) = same_config r0 r"
  "same_config r0 (r\<lparr>binds := bis\<rparr>) = same_config r0 r"
  "same_config r0 (r\<lparr>servers := ss\<rparr>) = same_config r0 r"
  "same_config r0 (r\<lparr>portBackends := pb\<rparr>) = same_config r0 r"
  "same_config r0 (r\<lparr>portFrontends := pf\<rparr>) = same_config r0 r"
  by (simp_all add: same_config_def)

lemma same_config_reset [simp]: "same_config r0 (reset_recon r) = same_config r0 r"
  by (simp add: same_config_def reset_recon_def)

section \<open>What retrieval establishes\<close>

text \<open>Every kept object belongs to our LoadBalancer, directly or through its parent.\<close>

definition owned :: "recon \<Rightarrow> bool" where
  "owned r \<longleftrightarrow>
     (\<forall>b\<in>set (backends r). be_lb b = lb_identifier r) \<and>
     (\<forall>f\<in>set (frontends r). fe_lb f = Some (lb_identifier r)) \<and>
     (\<forall>b\<in>set (binds r). \<exists>f\<in>set (frontends r). fe_id f = bi_frontend b) \<and>
     (\<forall>s\<in>set (servers r). \<exists>b\<in>set (backends r). be_id b = se_backend s)"

definition retrieved :: "lib \<Rightarrow> recon \<Rightarrow> bool" where
  "retrieved L r \<longleftrightarrow> owned r \<and> classified L r (managed r)"

text \<open>The part of it the loop over the resources keeps.\<close>

definition loop_inv :: "lib \<Rightarrow> recon \<Rightarrow> recon \<Rightarrow> bool" where
  "loop_inv L r0 r \<longleftrightarrow> same_config r0 r \<and> binds r = [] \<and> servers r = [] \<and> retrieved L r \<and>
     portBackends r = Map.empty \<and> portFrontends r = Map.empty"

lemma loop_inv_reset: "loop_inv L r (reset_recon r)"
  by (simp add: loop_inv_def retrieved_def owned_def classified_def managed_def reset_recon_def
      same_config_def)

lemma loop_inv_frontend:
  assumes "loop_inv L r0 r" and "fe_lb f = Some (lb_identifier r)"
  shows "loop_inv L r0 (sortObjectIntoStateArray L (OFrontend f) (r\<lparr>frontends := frontends r @ [f]\<rparr>))"
proof -
  let ?r = "r\<lparr>frontends := frontends r @ [f]\<rparr>"
  have "classified L (sortObjectIntoStateArray L (OFrontend f) ?r) (insert (OFrontend f) (managed r))"
    using assms(1) by (intro classified_sort) (simp add: loop_inv_def retrieved_def)
  moreover have "insert (OFrontend f) (managed r) = managed (sortObjectIntoStateArray L (OFrontend f) ?r)"
    by (auto simp: managed_def)
  ultimately show ?thesis using assms by (auto simp: loop_inv_def retrieved_def owned_def)
qed

lemma loop_inv_backend:
  assumes "loop_inv L r0 r" and "be_lb b = lb_identifier r"
  shows "loop_inv L r0 (sortObjectIntoStateArray L (OBackend b) (r\<lparr>backends := backends r @ [b]\<rparr>))"
proof -
  let ?r = "r\<lparr>backends := backends r @ [b]\<rparr>"
  have "classified L (sortObjectIntoStateArray L (OBackend b) ?r) (insert (OBackend b) (managed r))"
    using assms(1) by (intro classified_sort) (simp add: loop_inv_def retrieved_def)
  moreover have "insert (OBackend b) (managed r) = managed (sortObjectIntoStateArray L (OBackend b) ?r)"
    by (auto simp: managed_def)
  ultimately show ?thesis using assms by (auto simp: loop_inv_def retrieved_def owned_def)
qed

lemma typed_retrieve_inv:
  assumes "loop_inv L r0 (g_recon g)"
  shows "loop_inv L r0 (g_recon (snd (typed_retrieve L A res g)))"
  using assms loop_inv_frontend loop_inv_backend
  by (auto simp: typed_retrieve_def get_frontend_def get_backend_def get_bind_def get_server_def Let_def
      split: prod.splits option.splits)

lemma retrieve_loop_inv:
  "loop_inv L r0 (g_recon g) \<Longrightarrow> loop_inv L r0 (g_recon (snd (retrieve_loop L A rts g)))"
proof (induction rts arbitrary: g)
  case (Cons rt rts)
  show ?case
  proof (cases "rt (g_world g)")
    case (Pair x w)
    show ?thesis
    proof (cases x)
      case (Inl e)
      with Pair Cons.prems show ?thesis by simp
    next
      case (Inr res)
      have "loop_inv L r0 (g_recon (snd (typed_retrieve L A res (g\<lparr>g_world := w\<rparr>))))"
        using Cons.prems by (intro typed_retrieve_inv) simp
      with Pair Inr Cons.IH show ?thesis
        by (auto split: prod.splits option.splits)
    qed
  qed
qed simp

lemma search_contractD:
  assumes "search_contract attr srch" and "srch attrs x xs = Inr i"
    and "\<forall>y \<in> insert x (set xs). has_attrs attr attrs y"
  shows "i \<noteq> -1 \<longleftrightarrow> (\<exists>y\<in>set xs. same_attrs attr attrs x y)"
proof -
  from assms obtain j where "srch attrs x xs = Inr j"
    and "j = -1 \<longleftrightarrow> (\<forall>y\<in>set xs. \<not> same_attrs attr attrs x y)"
    unfolding search_contract_def by blast
  with assms(2) show ?thesis by simp
qed

lemma searchFrontends_found:
  assumes "lib_contract L" and "searchFrontends L [''Identifier''] (blank_frontend i) fs = Inr idx"
  shows "idx \<noteq> -1 \<longleftrightarrow> (\<exists>f\<in>set fs. fe_id f = i)"
proof -
  have "idx \<noteq> -1 \<longleftrightarrow> (\<exists>y\<in>set fs. same_attrs frontend_attr [''Identifier''] (blank_frontend i) y)"
    using assms by (intro search_contractD [where srch = "searchFrontends L"])
      (simp_all add: lib_contract_def has_attrs_def frontend_attr_def)
  then show ?thesis by (auto simp: same_attrs_def frontend_attr_def blank_frontend_def)
qed

lemma searchBackends_found:
  assumes "lib_contract L" and "searchBackends L [''Identifier''] (blank_backend i) bs = Inr idx"
  shows "idx \<noteq> -1 \<longleftrightarrow> (\<exists>b\<in>set bs. be_id b = i)"
proof -
  have "idx \<noteq> -1 \<longleftrightarrow> (\<exists>y\<in>set bs. same_attrs backend_attr [''Identifier''] (blank_backend i) y)"
    using assms by (intro search_contractD [where srch = "searchBackends L"])
      (simp_all add: lib_contract_def has_attrs_def backend_attr_def)
  then show ?thesis by (auto simp: same_attrs_def backend_attr_def blank_backend_def)
qed

text \<open>The filters as library functions: which objects are kept, and what keeping one does.\<close>

definition our_bind :: "recon \<Rightarrow> lb_bind \<Rightarrow> bool" where
  "our_bind r b \<longleftrightarrow> (\<exists>f\<in>set (frontends r). fe_id f = bi_frontend b)"

definition our_server :: "recon \<Rightarrow> lb_server \<Rightarrow> bool" where
  "our_server r s \<longleftrightarrow> (\<exists>b\<in>set (backends r). be_id b = se_backend s)"

definition absorb_bind :: "lib \<Rightarrow> lb_bind \<Rightarrow> recon \<Rightarrow> recon" where
  "absorb_bind L b r =
     (let r' = sortObjectIntoStateArray L (OBind b) r
      in if bi_address b \<noteq> [] then storePublicAddress (bi_address b) r' else r')"

lemma absorb_bind_fields [simp]:
  "frontends (absorb_bind L b r) = frontends r"
  "backends (absorb_bind L b r) = backends r"
  "servers (absorb_bind L b r) = servers r"
  "lb_identifier (absorb_bind L b r) = lb_identifier r"
  "portBackends (absorb_bind L b r) = portBackends r"
  "portFrontends (absorb_bind L b r) = portFrontends r"
  "same_config r0 (absorb_bind L b r) = same_config r0 r"
  "our_bind (absorb_bind L b r) = our_bind r"
  by (simp_all add: absorb_bind_def Let_def our_bind_def fun_eq_iff)

lemma fold_absorb_fields [simp]:
  "frontends (fold (absorb_bind L) bs r) = frontends r"
  "backends (fold (absorb_bind L) bs r) = backends r"
  "servers (fold (absorb_bind L) bs r) = servers r"
  "lb_identifier (fold (absorb_bind L) bs r) = lb_identifier r"
  "portBackends (fold (absorb_bind L) bs r) = portBackends r"
  "portFrontends (fold (absorb_bind L) bs r) = portFrontends r"
  "same_config r0 (fold (absorb_bind L) bs r) = same_config r0 r"
  by (induction bs arbitrary: r) simp_all

lemma fold_absorb_classified:
  "classified L r os \<Longrightarrow> classified L (fold (absorb_bind L) bs r) (os \<union> OBind ` set bs)"
proof (induction bs arbitrary: r os)
  case (Cons b bs)
  have "classified L (absorb_bind L b r) (insert (OBind b) os)"
    using Cons.prems by (simp add: absorb_bind_def Let_def classified_sort)
  from Cons.IH [OF this] show ?case by (simp add: insert_commute Un_commute)
qed simp

lemma fold_sort_fields [simp]:
  "frontends (fold (\<lambda>s. sortObjectIntoStateArray L (OServer s)) ss r) = frontends r"
  "backends (fold (\<lambda>s. sortObjectIntoStateArray L (OServer s)) ss r) = backends r"
  "binds (fold (\<lambda>s. sortObjectIntoStateArray L (OServer s)) ss r) = binds r"
  "lb_identifier (fold (\<lambda>s. sortObjectIntoStateArray L (OServer s)) ss r) = lb_identifier r"
  "portBackends (fold (\<lambda>s. sortObjectIntoStateArray L (OServer s)) ss r) = portBackends r"
  "portFrontends (fold (\<lambda>s. sortObjectIntoStateArray L (OServer s)) ss r) = portFrontends r"
  "same_config r0 (fold (\<lambda>s. sortObjectIntoStateArray L (OServer s)) ss r) = same_config r0 r"
  by (induction ss arbitrary: r) simp_all

lemma fold_sort_classified:
  "classified L r os \<Longrightarrow>
   classified L (fold (\<lambda>s. sortObjectIntoStateArray L (OServer s)) ss r) (os \<union> OServer ` set ss)"
proof (induction ss arbitrary: r os)
  case (Cons s ss)
  from Cons.IH [OF classified_sort [OF Cons.prems, of "OServer s"]] show ?case
    by (simp add: insert_commute Un_commute)
qed simp

lemma filterBinds_eq:
  assumes "lib_contract L" and "filterBinds L bs ret r = (Inr kept, r')"
  shows "kept = ret @ filter (our_bind r) bs \<and> r' = fold (absorb_bind L) (filter (our_bind r) bs) r"
  using assms(2)
proof (induction bs arbitrary: ret r)
  case (Cons b bs)
  from Cons.prems obtain idx where
    idx: "searchFrontends L [''Identifier''] (blank_frontend (bi_frontend b)) (frontends r) = Inr idx"
    by (auto split: sum.splits)
  then have ours: "idx \<noteq> -1 \<longleftrightarrow> our_bind r b"
    using searchFrontends_found [OF assms(1) idx] by (simp add: our_bind_def)
  show ?case
  proof (cases "our_bind r b")
    case True
    with Cons.prems idx ours have "filterBinds L bs (ret @ [b]) (absorb_bind L b r) = (Inr kept, r')"
      by (simp add: absorb_bind_def Let_def)
    from Cons.IH [OF this] True show ?thesis by simp
  next
    case False
    with Cons.prems idx ours have "filterBinds L bs ret r = (Inr kept, r')" by simp
    from Cons.IH [OF this] False show ?thesis by simp
  qed
qed simp

lemma filterServers_eq:
  assumes "lib_contract L" and "filterServers L ss ret r = (Inr kept, r')"
  shows "kept = ret @ filter (our_server r) ss \<and>
         r' = fold (\<lambda>s. sortObjectIntoStateArray L (OServer s)) (filter (our_server r) ss) r"
  using assms(2)
proof (induction ss arbitrary: ret r)
  case (Cons s ss)
  from Cons.prems obtain idx where
    idx: "searchBackends L [''Identifier''] (blank_backend (se_backend s)) (backends r) = Inr idx"
    by (auto split: sum.splits)
  then have ours: "idx \<noteq> -1 \<longleftrightarrow> our_server r s"
    using searchBackends_found [OF assms(1) idx] by (simp add: our_server_def)
  have cong: "our_server (sortObjectIntoStateArray L (OServer s) r) = our_server r"
    by (simp add: our_server_def fun_eq_iff)
  show ?case
  proof (cases "our_server r s")
    case True
    with Cons.prems idx ours
    have "filterServers L ss (ret @ [s]) (sortObjectIntoStateArray L (OServer s) r) = (Inr kept, r')"
      by simp
    from Cons.IH [OF this] True cong show ?thesis by simp
  next
    case False
    with Cons.prems idx ours have "filterServers L ss ret r = (Inr kept, r')" by simp
    from Cons.IH [OF this] False show ?thesis by simp
  qed
qed simp

text \<open>The whole retrieval.\<close>

lemma retrieveState_retrieved:
  assumes L: "lib_contract L" and ret: "retrieveState L A s = (None, s')"
  shows "retrieved L (rcn s') \<and> same_config (rcn s) (rcn s') \<and>
         portBackends (rcn s') = Map.empty \<and> portFrontends (rcn s') = Map.empty"
proof -
  let ?r0 = "reset_recon (rcn s)"
  obtain le oc w where list: "api_list A True (tags ?r0) (world s) = (le, oc, w)"
    by (cases "api_list A True (tags ?r0) (world s)") auto
  show ?thesis
  proof (cases le)
    case (Some e)
    with ret list have "rcn s' = ?r0"
      by (auto simp: retrieveState_def retrieveResources_def split: if_splits)
    with loop_inv_reset [of L "rcn s"] show ?thesis by (simp add: loop_inv_def)
  next
    case None
    let ?g0 = "\<lparr>g_world = w, g_recon = ?r0, allBinds = [], allServers = []\<rparr>"
    obtain re g where loop: "retrieve_loop L A oc ?g0 = (re, g)" by fastforce
    have inv: "loop_inv L (rcn s) (g_recon g)"
      using retrieve_loop_inv [of L "rcn s" ?g0 A oc] loop loop_inv_reset by simp
    from ret list None loop obtain bs r1 where
      re: "re = None" and fb: "filterBinds L (allBinds g) [] (g_recon g) = (Inr bs, r1)"
      by (auto simp: retrieveState_def retrieveResources_def split: option.splits prod.splits sum.splits)
    from ret list None loop re fb obtain ss r2 where
      fs: "filterServers L (allServers g) [] (r1\<lparr>binds := bs\<rparr>) = (Inr ss, r2)"
      and r': "rcn s' = r2\<lparr>servers := ss\<rparr>"
      by (auto simp: retrieveState_def retrieveResources_def Let_def split: option.splits prod.splits sum.splits)
    let ?bs = "filter (our_bind (g_recon g)) (allBinds g)"
    have b: "bs = ?bs" and r1: "r1 = fold (absorb_bind L) ?bs (g_recon g)"
      using filterBinds_eq [OF L fb] by auto
    let ?ss = "filter (our_server (r1\<lparr>binds := bs\<rparr>)) (allServers g)"
    have ss: "ss = ?ss"
      and r2: "r2 = fold (\<lambda>s. sortObjectIntoStateArray L (OServer s)) ?ss (r1\<lparr>binds := bs\<rparr>)"
      using filterServers_eq [OF L fs] by auto
    have "classified L (r1\<lparr>binds := bs\<rparr>) (managed (g_recon g) \<union> OBind ` set bs)"
      using fold_absorb_classified [of L "g_recon g" "managed (g_recon g)" ?bs] inv b r1
      by (simp add: loop_inv_def retrieved_def)
    then have "classified L r2 (managed (g_recon g) \<union> OBind ` set bs \<union> OServer ` set ss)"
      unfolding r2 ss by (rule fold_sort_classified)
    moreover have "managed (g_recon g) \<union> OBind ` set bs \<union> OServer ` set ss = managed (rcn s')"
      using inv by (auto simp: r' r2 r1 managed_def loop_inv_def)
    moreover have "owned (rcn s')"
      using inv by (auto simp: r' r2 r1 ss b owned_def loop_inv_def retrieved_def our_bind_def our_server_def)
    ultimately show ?thesis
      using inv by (simp add: r' r2 r1 retrieved_def loop_inv_def)
  qed
qed

section \<open>Binary search\<close>

lemma search_loop_spec:
  assumes "\<And>k l. k \<le> l \<Longrightarrow> l < n \<Longrightarrow> f k \<Longrightarrow> f l" and "i \<le> j" and "j \<le> n"
    and "\<And>k. k < i \<Longrightarrow> \<not> f k" and "\<And>k. j \<le> k \<Longrightarrow> k < n \<Longrightarrow> f k"
  shows "search_loop f i j \<le> n \<and> (\<forall>k < search_loop f i j. \<not> f k) \<and>
         (\<forall>k. search_loop f i j \<le> k \<longrightarrow> k < n \<longrightarrow> f k)"
  using assms
proof (induction f i j rule: search_loop.induct)
  case (1 f i j)
  let ?h = "(i + j) div 2"
  note mono = "1.prems"(1)
  show ?case
  proof (cases "i < j")
    case True
    then have h: "i \<le> ?h" "?h < j" by auto
    show ?thesis
    proof (cases "f ?h")
      case f: True
      have eq: "search_loop f i j = search_loop f i ?h"
        using True f by (simp add: Let_def search_loop.simps [of f i j])
      have hi: "\<And>k. ?h \<le> k \<Longrightarrow> k < n \<Longrightarrow> f k" using f mono by blast
      have nf: "\<not> \<not> f ?h" using f by simp
      show ?thesis
        unfolding eq
        by (rule "1.IH"(2) [OF True refl nf mono h(1) _ "1.prems"(4) hi]) (use h "1.prems" in auto)
    next
      case f: False
      have eq: "search_loop f i j = search_loop f (?h + 1) j"
        using True f by (simp add: Let_def search_loop.simps [of f i j])
      have "?h < n" using h "1.prems"(3) by simp
      then have lo: "\<And>k. k < ?h + 1 \<Longrightarrow> \<not> f k"
        using f mono by (metis Suc_eq_plus1 less_Suc_eq_le)
      have le: "?h + 1 \<le> j" using h by simp
      show ?thesis
        unfolding eq
        by (rule "1.IH"(1) [OF True refl f mono le "1.prems"(3) lo "1.prems"(5)])
    qed
  next
    case False
    then have "search_loop f i j = i" by (simp add: search_loop.simps [of f i j])
    with False "1.prems" show ?thesis by auto
  qed
qed

lemma searchStrings_spec:
  assumes "sorted a"
  shows "searchStrings a x \<le> length a \<and> (\<forall>k < searchStrings a x. a ! k < x) \<and>
         (\<forall>k. searchStrings a x \<le> k \<longrightarrow> k < length a \<longrightarrow> x \<le> a ! k)"
proof -
  let ?f = "\<lambda>i. x \<le> a ! i"
  have "\<And>k l. k \<le> l \<Longrightarrow> l < length a \<Longrightarrow> ?f k \<Longrightarrow> ?f l"
    using assms sorted_nth_mono order_trans by blast
  from search_loop_spec [of "length a" ?f 0 "length a", OF this]
  show ?thesis unfolding searchStrings_def not_le by simp
qed

lemma searchStrings_found:
  assumes "sorted a"
  shows "(searchStrings a x \<ge> length a \<or> a ! searchStrings a x \<noteq> x) \<longleftrightarrow> x \<notin> set a"
proof -
  let ?i = "searchStrings a x"
  note spec = searchStrings_spec [OF assms, of x]
  show ?thesis
  proof (cases "x \<in> set a")
    case True
    then obtain k where k: "k < length a" "a ! k = x" by (auto simp: in_set_conv_nth)
    with spec have i: "?i \<le> k" by (metis not_le order_less_irrefl)
    with k spec have "x \<le> a ! ?i" "?i < length a" by auto
    moreover have "a ! ?i \<le> x" using sorted_nth_mono [OF assms i] k by simp
    ultimately show ?thesis using True by auto
  next
    case False
    then show ?thesis using spec by (metis nth_mem not_le)
  qed
qed

text \<open>
  \<open>storePublicAddress\<close> keeps \<open>publicAddresses\<close> a sorted set: its binary search finds an
  address exactly when it is stored, so a new address is added once, in order.
\<close>

theorem storePublicAddress_sorted_set:
  assumes "sorted_wrt (<) (publicAddresses r)"
  shows "sorted_wrt (<) (publicAddresses (storePublicAddress addr r)) \<and>
         set (publicAddresses (storePublicAddress addr r)) = insert addr (set (publicAddresses r))"
proof -
  have srt: "sorted (publicAddresses r)" and dist: "distinct (publicAddresses r)"
    using assms by (auto simp: strict_sorted_iff)
  show ?thesis
    using assms searchStrings_found [OF srt, of addr] dist
    by (auto simp: storePublicAddress_def Let_def strict_sorted_iff)
qed

theorem storePublicAddress_sorted_set_witness:
  "sorted_wrt (<) (publicAddresses (storePublicAddress ''1.2.3.5'' sample_recon)) \<and>
   set (publicAddresses (storePublicAddress ''1.2.3.5'' sample_recon)) = {''1.2.3.4'', ''1.2.3.5'', ''1.2.3.9''}"
  using storePublicAddress_sorted_set [of sample_recon "''1.2.3.5''"]
  by (auto simp: sample_recon_def)



end
