(* ===== verification/ReconSteps.thy ===== *)
theory ReconSteps
  imports ReconState
begin

text \<open>
  The four reconciliation steps (\<open>reconcile_backends.go\<close>, \<open>reconcile_frontends.go\<close>,
  \<open>reconcile_binds.go\<close>, \<open>reconcile_servers.go\<close>) and \<open>ReconcileCheck\<close>.

  A step compares the wanted objects with the existing ones. All four use \<open>compare.Reconcile\<close>
  in the same way; the locale \<open>compare_step\<close> states that contract once, and its lemmas say what
  a step creates and destroys.

  Iterating \<open>r.ports\<close>: \<open>rng i\<close> is the order of the \<open>i\<close>-th \<open>range\<close> statement a
  step executes.
\<close>

type_synonym port_range = "nat \<Rightarrow> (string \<times> port) list"
type_synonym step_result = "go_error + object list \<times> object list"

definition ranges_ok :: "recon \<Rightarrow> port_range \<Rightarrow> bool" where
  "ranges_ok r rng \<longleftrightarrow> (\<forall>i. range_of (ports r) (rng i))"

section \<open>Backends\<close>

definition tcpHealthCheck :: string where
  \<open>tcpHealthCheck = ''"adv_check": "tcp-check"''\<close>

definition backendAttributes :: "string list" where
  "backendAttributes = [''Name'', ''Mode'', ''HealthCheck'', ''LoadBalancer.Identifier'']"

definition targetBackend :: "lib \<Rightarrow> recon \<Rightarrow> string \<Rightarrow> lb_backend" where
  "targetBackend L r name =
     \<lparr>be_id = [], be_name = makeResourceName r [name], be_mode = modeTCP L,
      be_health = tcpHealthCheck, be_lb = lb_identifier r, be_state = zero_state\<rparr>"

definition targetBackends :: "lib \<Rightarrow> port_range \<Rightarrow> recon \<Rightarrow> lb_backend list" where
  "targetBackends L rng r = map (\<lambda>(name, _). targetBackend L r name) (rng 0)"

text \<open>The second loop over the ports: the first target of the expected name is stored.\<close>

fun store_by_name ::
  "recon \<Rightarrow> ('a \<Rightarrow> string) \<Rightarrow> 'a list \<Rightarrow> (string \<times> port) list \<Rightarrow> (string \<rightharpoonup> 'a) \<Rightarrow> (string \<rightharpoonup> 'a)" where
  "store_by_name r nm targets [] m = m"
| "store_by_name r nm targets ((name, p) # ps) m =
     store_by_name r nm targets ps
       (case List.find (\<lambda>b. nm b = makeResourceName r [name]) targets of
          None \<Rightarrow> m | Some b \<Rightarrow> m(name \<mapsto> b))"

definition reconcileBackends :: "lib \<Rightarrow> port_range \<Rightarrow> recon \<Rightarrow> step_result \<times> recon" where
  "reconcileBackends L rng r =
     (case cmpBackends L backendAttributes (targetBackends L rng r) (backends r) of
        Inl e \<Rightarrow> (Inl e, r)
      | Inr (targets, c, d) \<Rightarrow>
          (Inr (map OBackend c, map OBackend d),
           if c = [] \<and> d = []
           then r\<lparr>portBackends := store_by_name r be_name targets (rng 1) (portBackends r)\<rparr> else r))"

section \<open>Frontends\<close>

definition frontendAttributes :: "string list" where
  "frontendAttributes = [''Name'', ''Mode'', ''LoadBalancer.Identifier'', ''DefaultBackend.Identifier'']"

definition targetFrontend :: "lib \<Rightarrow> recon \<Rightarrow> string \<Rightarrow> lb_backend \<Rightarrow> lb_frontend" where
  "targetFrontend L r name b =
     \<lparr>fe_id = [], fe_name = makeResourceName r [name], fe_mode = modeTCP L,
      fe_lb = Some (lb_identifier r), fe_backend = Some (be_id b), fe_state = zero_state\<rparr>"

fun targetFrontends_loop :: "lib \<Rightarrow> recon \<Rightarrow> (string \<times> port) list \<Rightarrow> lb_frontend list" where
  "targetFrontends_loop L r [] = []"
| "targetFrontends_loop L r ((name, _) # ps) =
     (case portBackends r name of
        None \<Rightarrow> targetFrontends_loop L r ps
      | Some b \<Rightarrow> targetFrontend L r name b # targetFrontends_loop L r ps)"

definition targetFrontends :: "lib \<Rightarrow> port_range \<Rightarrow> recon \<Rightarrow> lb_frontend list" where
  "targetFrontends L rng r = targetFrontends_loop L r (rng 0)"

definition reconcileFrontends :: "lib \<Rightarrow> port_range \<Rightarrow> recon \<Rightarrow> step_result \<times> recon" where
  "reconcileFrontends L rng r =
     (case cmpFrontends L frontendAttributes (targetFrontends L rng r) (frontends r) of
        Inl e \<Rightarrow> (Inl e, r)
      | Inr (targets, c, d) \<Rightarrow>
          (Inr (map OFrontend c, map OFrontend d),
           if c = [] \<and> d = []
           then r\<lparr>portFrontends := store_by_name r fe_name targets (rng 1) (portFrontends r)\<rparr> else r))"

section \<open>Binds\<close>

definition bindAttributes :: "string list" where
  "bindAttributes = [''Name'', ''Address'', ''Port'', ''Frontend.Identifier'']"

definition family_tag :: "ip \<Rightarrow> string" where
  "family_tag a = (if to4 a \<noteq> [] then ''v4'' else ''v6'')"

definition targetBind :: "recon \<Rightarrow> ip \<Rightarrow> string \<Rightarrow> port \<Rightarrow> lb_frontend \<Rightarrow> lb_bind" where
  "targetBind r a name p f =
     \<lparr>bi_id = [], bi_name = makeResourceName r [family_tag a, name], bi_address = ip_string a,
      bi_port = uint (external p), bi_frontend = fe_id f, bi_state = zero_state\<rparr>"

fun targetBinds_inner :: "recon \<Rightarrow> ip \<Rightarrow> (string \<times> port) list \<Rightarrow> lb_bind list" where
  "targetBinds_inner r a [] = []"
| "targetBinds_inner r a ((name, p) # ps) =
     (case portFrontends r name of
        None \<Rightarrow> targetBinds_inner r a ps
      | Some f \<Rightarrow> targetBind r a name p f # targetBinds_inner r a ps)"

text \<open>The outer loop; the \<open>range\<close> over the ports is executed anew for each address.\<close>

fun targetBinds_loop :: "port_range \<Rightarrow> recon \<Rightarrow> nat \<Rightarrow> ip list \<Rightarrow> lb_bind list" where
  "targetBinds_loop rng r i [] = []"
| "targetBinds_loop rng r i (a # as) = targetBinds_inner r a (rng i) @ targetBinds_loop rng r (Suc i) as"

definition targetBinds :: "lib \<Rightarrow> port_range \<Rightarrow> recon \<Rightarrow> lb_bind list" where
  "targetBinds L rng r = targetBinds_loop rng r 0 (externalAddresses r)"

definition reconcileBinds :: "lib \<Rightarrow> port_range \<Rightarrow> recon \<Rightarrow> step_result \<times> recon" where
  "reconcileBinds L rng r =
     (case cmpBinds L bindAttributes (targetBinds L rng r) (binds r) of
        Inl e \<Rightarrow> (Inl e, r)
      | Inr (targets, c, d) \<Rightarrow> (Inr (map OBind c, map OBind d), r))"

section \<open>Servers\<close>

definition serverAttributes :: "string list" where
  "serverAttributes = [''Name'', ''IP'', ''Port'', ''Check'', ''Backend.Identifier'']"

definition targetServer :: "recon \<Rightarrow> server_spec \<Rightarrow> string \<Rightarrow> port \<Rightarrow> lb_backend \<Rightarrow> lb_server" where
  "targetServer r sv name p b =
     \<lparr>se_id = [], se_name = makeResourceName r [sv_name sv, name], se_ip = ip_string (sv_address sv),
      se_port = uint (internal p), se_check = ''enabled'', se_backend = be_id b, se_state = zero_state\<rparr>"

fun targetServers_inner :: "recon \<Rightarrow> server_spec \<Rightarrow> (string \<times> port) list \<Rightarrow> lb_server list" where
  "targetServers_inner r sv [] = []"
| "targetServers_inner r sv ((name, p) # ps) =
     (case portBackends r name of
        None \<Rightarrow> targetServers_inner r sv ps
      | Some b \<Rightarrow> targetServer r sv name p b # targetServers_inner r sv ps)"

fun targetServers_loop :: "port_range \<Rightarrow> recon \<Rightarrow> nat \<Rightarrow> server_spec list \<Rightarrow> lb_server list" where
  "targetServers_loop rng r i [] = []"
| "targetServers_loop rng r i (sv # svs) =
     targetServers_inner r sv (rng i) @ targetServers_loop rng r (Suc i) svs"

definition targetServersOf :: "lib \<Rightarrow> port_range \<Rightarrow> recon \<Rightarrow> lb_server list" where
  "targetServersOf L rng r = targetServers_loop rng r 0 (targetServers r)"

definition reconcileServers :: "lib \<Rightarrow> port_range \<Rightarrow> recon \<Rightarrow> step_result \<times> recon" where
  "reconcileServers L rng r =
     (case cmpServers L serverAttributes (targetServersOf L rng r) (servers r) of
        Inl e \<Rightarrow> (Inl e, r)
      | Inr (targets, c, d) \<Rightarrow> (Inr (map OServer c, map OServer d), r))"

section \<open>ReconcileCheck\<close>

text \<open>
  The loop over the steps, each with the ranges \<open>rngs k\<close> of its turn, collecting what to create
  and to destroy.
\<close>

fun run_steps ::
  "(port_range \<Rightarrow> recon \<Rightarrow> step_result \<times> recon) list \<Rightarrow> (nat \<Rightarrow> port_range) \<Rightarrow> nat \<Rightarrow>
   object list \<Rightarrow> object list \<Rightarrow> recon \<Rightarrow> step_result \<times> recon" where
  "run_steps [] rngs k cr de r = (Inr (cr, de), r)"
| "run_steps (step # steps) rngs k cr de r =
     (case step (rngs k) r of
        (Inl e, r') \<Rightarrow> (Inl e, r')
      | (Inr (c, d), r') \<Rightarrow> run_steps steps rngs (Suc k) (cr @ c) (de @ d) r')"

definition reconcile_steps :: "lib \<Rightarrow> (nat \<Rightarrow> port_range) \<Rightarrow> recon \<Rightarrow> step_result \<times> recon" where
  "reconcile_steps L rngs r =
     run_steps [reconcileBackends L, reconcileFrontends L, reconcileBinds L, reconcileServers L]
       rngs 0 [] [] r"

text \<open>
  \<open>object_stringer.go\<close>: the strings the log shows. An object whose identifier cannot be read is
  an error, and a panic in the \<open>must\<close> variants; that is the only effect of the log on the
  program, so the calls are kept.
\<close>

fun type_name :: "object \<Rightarrow> string" where
  "type_name (OBackend _) = ''*v1.Backend''"
| "type_name (OFrontend _) = ''*v1.Frontend''"
| "type_name (OBind _) = ''*v1.Bind''"
| "type_name (OServer _) = ''*v1.Server''"
| "type_name (OLoadBalancer _) = ''*v1.LoadBalancer''"
| "type_name (OResourceWithTag _ _) = ''*v1.ResourceWithTag''"

definition stringifyObject :: "lib \<Rightarrow> object \<Rightarrow> go_error + string" where
  "stringifyObject L obj =
     (case getObjectIdentifier L obj of
        Inl e \<Rightarrow> if errors_is e (errUnidentifiedObject L)
                 then Inr (type_name obj @ '':'' @ ''<no identifier>'') else Inl e
      | Inr i \<Rightarrow> Inr (type_name obj @ '':'' @ i))"

fun stringify_loop :: "lib \<Rightarrow> object list \<Rightarrow> string list \<Rightarrow> go_error + string list" where
  "stringify_loop L [] ret = Inr ret"
| "stringify_loop L (obj # os) ret =
     (case stringifyObject L obj of Inl e \<Rightarrow> Inl e | Inr s \<Rightarrow> stringify_loop L os (ret @ [s]))"

definition stringifyObjects :: "lib \<Rightarrow> object list \<Rightarrow> go_error + string list" where
  "stringifyObjects L os = stringify_loop L os []"

definition mustStringifyObject :: "lib \<Rightarrow> object \<Rightarrow> go_error + string" where
  "mustStringifyObject L obj =
     (case stringifyObject L obj of
        Inl e \<Rightarrow> Inl (Panic ''stringifyObject failed in mustStringifyObject'') | Inr s \<Rightarrow> Inr s)"

definition mustStringifyObjects :: "lib \<Rightarrow> object list \<Rightarrow> go_error + string list" where
  "mustStringifyObjects L os =
     (case stringifyObjects L os of
        Inl e \<Rightarrow> Inl (Panic ''stringifyObjects failed in mustStringifyObjects'') | Inr ss \<Rightarrow> Inr ss)"

lemma stringifyObject_total: "identifier_contract L \<Longrightarrow> \<exists>s. stringifyObject L obj = Inr s"
  by (cases "getObjectIdentifier L obj") (auto simp: stringifyObject_def identifier_contract_def)

lemma stringify_loop_total: "identifier_contract L \<Longrightarrow> \<exists>ss. stringify_loop L os ret = Inr ss"
proof (induction os arbitrary: ret)
  case (Cons obj os)
  then show ?case using stringifyObject_total [OF Cons.prems, of obj] by auto
qed simp

lemma mustStringify_total:
  assumes "identifier_contract L"
  obtains s ss where "mustStringifyObject L obj = Inr s" and "mustStringifyObjects L os = Inr ss"
  using stringifyObject_total [OF assms, of obj] stringify_loop_total [OF assms, of os "[]"]
  by (auto simp: mustStringifyObject_def mustStringifyObjects_def stringifyObjects_def)

text \<open>
  \<open>updateFailedResources\<close>: every failed object is sent to the Engine with \<open>Update\<close>, up to the
  first error. The objects are changed through their pointers.
\<close>

fun update_loop :: "'w api \<Rightarrow> object list \<Rightarrow> 'w \<Rightarrow> go_error option \<times> 'w" where
  "update_loop A [] w = (None, w)"
| "update_loop A (obj # os) w =
     (case api_update A obj w of
        (Some e, _, w') \<Rightarrow> (Some (wrap_error ''error resetting failed LBaaS resource to Updating'' e), w')
      | (None, _, w') \<Rightarrow> update_loop A os w')"

definition updateFailedResources :: "lib \<Rightarrow> 'w api \<Rightarrow> 'w st \<Rightarrow> go_error option \<times> 'w st" where
  "updateFailedResources L A s =
     (case mustStringifyObjects L (existingFailed (rcn s)) of
        Inl p \<Rightarrow> (Some p, s)
      | Inr _ \<Rightarrow>
          (case update_loop A (existingFailed (rcn s)) (world s) of (err, w) \<Rightarrow> (err, s\<lparr>world := w\<rparr>)))"

definition ReconcileCheck :: "lib \<Rightarrow> 'w api \<Rightarrow> (nat \<Rightarrow> port_range) \<Rightarrow> 'w st \<Rightarrow> step_result \<times> 'w st" where
  "ReconcileCheck L A rngs s =
     (case retrieveState L A s of
        (Some e, s') \<Rightarrow> (Inl (wrap_error ''error retrieving current state for reconciliation'' e), s')
      | (None, s') \<Rightarrow>
          if existingFailed (rcn s') \<noteq> [] then
            (case updateFailedResources L A s' of
               (Some e, s'') \<Rightarrow> (Inl e, s'')
             | (None, s'') \<Rightarrow> (Inl ErrLBaaSResourceRecoveryPending, s''))
          else if existingUpdating (rcn s') \<noteq> [] then (Inl ErrLBaaSResourceRecoveryPending, s')
          else if existingProgressing (rcn s') \<noteq> [] then (Inl ErrLBaaSResourceProgressing, s')
          else (case reconcile_steps L rngs (rcn s') of (res, r) \<Rightarrow> (res, s'\<lparr>rcn := r\<rparr>)))"

section \<open>The contract of a step\<close>

text \<open>
  What the four steps share: the wanted objects are compared with the existing ones on a list of
  attributes, and what is missing or surplus is returned as \<open>types.Object\<close>s.
\<close>

locale compare_step =
  fixes attr :: "string \<Rightarrow> 'a \<Rightarrow> attrval option"
    and attrs :: "string list"
    and wrap :: "'a \<Rightarrow> object"
    and cmp :: "lib \<Rightarrow> 'a reconciler"
    and target :: "lib \<Rightarrow> port_range \<Rightarrow> recon \<Rightarrow> 'a list"
    and existing :: "recon \<Rightarrow> 'a list"
    and step :: "lib \<Rightarrow> port_range \<Rightarrow> recon \<Rightarrow> step_result \<times> recon"
  assumes contract: "lib_contract L \<Longrightarrow> reconcile_contract attr (cmp L)"
    and target_attrs: "x \<in> set (target L rng r) \<Longrightarrow> has_attrs attr attrs x"
    and step_result: "fst (step L rng r) =
      (case cmp L attrs (target L rng r) (existing r) of
         Inl e \<Rightarrow> Inl e | Inr (t, c, d) \<Rightarrow> Inr (map wrap c, map wrap d))"
    and step_lists: "same_config r (snd (step L rng r)) \<and> backends (snd (step L rng r)) = backends r \<and>
      frontends (snd (step L rng r)) = frontends r \<and> binds (snd (step L rng r)) = binds r \<and>
      servers (snd (step L rng r)) = servers r"
begin

definition missing :: "lib \<Rightarrow> port_range \<Rightarrow> recon \<Rightarrow> 'a set" where
  "missing L rng r =
     {t \<in> set (target L rng r). \<not> (\<exists>e\<in>set (existing r). same_attrs attr attrs t e)}"

definition surplus :: "lib \<Rightarrow> port_range \<Rightarrow> recon \<Rightarrow> 'a set" where
  "surplus L rng r =
     {e \<in> set (existing r). \<not> (\<exists>t\<in>set (target L rng r). same_attrs attr attrs t e)}"

lemma compare_ok:
  assumes "lib_contract L" and "\<forall>e\<in>set (existing r). has_attrs attr attrs e"
  shows "\<exists>t c d. cmp L attrs (target L rng r) (existing r) = Inr (t, c, d) \<and>
      set c = missing L rng r \<and> set d = surplus L rng r \<and>
      list_all2 (\<lambda>x x'. if \<exists>e\<in>set (existing r). same_attrs attr attrs x e
           then x' \<in> set (existing r) \<and> same_attrs attr attrs x x' else x' = x) (target L rng r) t"
proof -
  have "\<forall>x \<in> set (target L rng r) \<union> set (existing r). has_attrs attr attrs x"
    using assms(2) target_attrs by blast
  with contract [OF assms(1)] show ?thesis
    unfolding reconcile_contract_def missing_def surplus_def by simp
qed

lemma step_ok:
  assumes "lib_contract L" and "\<forall>e\<in>set (existing r). has_attrs attr attrs e"
  shows "\<exists>cr de. fst (step L rng r) = Inr (cr, de) \<and>
           set cr = wrap ` missing L rng r \<and> set de = wrap ` surplus L rng r"
proof -
  obtain t c d where "cmp L attrs (target L rng r) (existing r) = Inr (t, c, d)"
    and "set c = missing L rng r" and "set d = surplus L rng r"
    using compare_ok [OF assms, of rng] by blast
  then show ?thesis by (intro exI [of _ "map wrap c"] exI [of _ "map wrap d"]) (simp add: step_result)
qed

lemma step_sets:
  assumes "lib_contract L" and "\<forall>e\<in>set (existing r). has_attrs attr attrs e"
    and "step L rng r = (Inr (cr, de), r')"
  shows "set cr = wrap ` missing L rng r" and "set de = wrap ` surplus L rng r"
  using step_ok [OF assms(1,2), of rng] assms(3) by auto

lemma step_error:
  assumes "step L rng r = (Inl e, r')" and "lib_contract L"
  shows "\<exists>x\<in>set (existing r). \<not> has_attrs attr attrs x"
  using step_ok [OF assms(2), of r rng] assms(1) by auto

lemma step_quiet_iff:
  assumes "lib_contract L" and "\<forall>e\<in>set (existing r). has_attrs attr attrs e"
  shows "fst (step L rng r) = Inr ([], []) \<longleftrightarrow> missing L rng r = {} \<and> surplus L rng r = {}"
  using step_ok [OF assms, of rng] by auto

lemma quiet_partners:
  assumes "lib_contract L" and "\<forall>e\<in>set (existing r). has_attrs attr attrs e"
    and quiet: "fst (step L rng r) = Inr ([], [])"
  shows "\<exists>t. cmp L attrs (target L rng r) (existing r) = Inr (t, [], []) \<and>
    list_all2 (\<lambda>x x'. x' \<in> set (existing r) \<and> same_attrs attr attrs x x') (target L rng r) t"
proof -
  obtain t c d where cmp: "cmp L attrs (target L rng r) (existing r) = Inr (t, c, d)"
    and "set c = missing L rng r" and rel: "list_all2 (\<lambda>x x'. if \<exists>e\<in>set (existing r). same_attrs attr attrs x e
           then x' \<in> set (existing r) \<and> same_attrs attr attrs x x' else x' = x) (target L rng r) t"
    using compare_ok [OF assms(1,2), of rng] by blast
  moreover have cd: "c = [] \<and> d = []" using quiet cmp by (simp add: step_result)
  ultimately have "missing L rng r = {}" by simp
  then have "\<forall>x\<in>set (target L rng r). \<exists>e\<in>set (existing r). same_attrs attr attrs x e"
    by (auto simp: missing_def)
  then have "list_all2 (\<lambda>x x'. x' \<in> set (existing r) \<and> same_attrs attr attrs x x') (target L rng r) t"
    by (intro list.rel_mono_strong [OF rel]) simp
  with cmp cd show ?thesis by blast
qed

lemma step_no_target:
  assumes "lib_contract L" and "\<forall>e\<in>set (existing r). has_attrs attr attrs e"
    and "target L rng r = []" and "step L rng r = (Inr (cr, de), r')"
  shows "cr = []" and "set de = wrap ` set (existing r)"
  using step_sets [OF assms(1,2,4)] assms(3) by (auto simp: missing_def surplus_def)

end

lemmas attribute_defs = backendAttributes_def frontendAttributes_def bindAttributes_def serverAttributes_def

lemma backend_has_attrs [simp]: "has_attrs backend_attr backendAttributes b"
  by (simp add: has_attrs_def backend_attr_def attribute_defs)

lemma frontend_has_attrs [simp]:
  "has_attrs frontend_attr frontendAttributes f \<longleftrightarrow> fe_lb f \<noteq> None \<and> fe_backend f \<noteq> None"
  by (simp add: has_attrs_def frontend_attr_def attribute_defs)

lemma bind_has_attrs [simp]: "has_attrs bind_attr bindAttributes b"
  by (simp add: has_attrs_def bind_attr_def attribute_defs)

lemma server_has_attrs [simp]: "has_attrs server_attr serverAttributes s"
  by (simp add: has_attrs_def server_attr_def attribute_defs)

lemma set_targetFrontends_loop:
  "set (targetFrontends_loop L r ps) =
   (\<Union>(name, p)\<in>set ps. case portBackends r name of None \<Rightarrow> {} | Some b \<Rightarrow> {targetFrontend L r name b})"
  by (induction L r ps rule: targetFrontends_loop.induct) (simp_all split: option.split)

lemma targetFrontends_loop_mem:
  "f \<in> set (targetFrontends_loop L r ps) \<longleftrightarrow>
   (\<exists>name p b. (name, p) \<in> set ps \<and> portBackends r name = Some b \<and> f = targetFrontend L r name b)"
  by (fastforce simp: set_targetFrontends_loop split: option.splits)

lemma set_targetBinds_inner:
  "set (targetBinds_inner r a ps) =
   (\<Union>(name, p)\<in>set ps. case portFrontends r name of None \<Rightarrow> {} | Some f \<Rightarrow> {targetBind r a name p f})"
  by (induction r a ps rule: targetBinds_inner.induct) (simp_all split: option.split)

lemma targetBinds_inner_mem:
  "bi \<in> set (targetBinds_inner r a ps) \<longleftrightarrow>
   (\<exists>name p f. (name, p) \<in> set ps \<and> portFrontends r name = Some f \<and> bi = targetBind r a name p f)"
  by (fastforce simp: set_targetBinds_inner split: option.splits)

lemma set_targetServers_inner:
  "set (targetServers_inner r sv ps) =
   (\<Union>(name, p)\<in>set ps. case portBackends r name of None \<Rightarrow> {} | Some b \<Rightarrow> {targetServer r sv name p b})"
  by (induction r sv ps rule: targetServers_inner.induct) (simp_all split: option.split)

lemma targetServers_inner_mem:
  "s \<in> set (targetServers_inner r sv ps) \<longleftrightarrow>
   (\<exists>name p b. (name, p) \<in> set ps \<and> portBackends r name = Some b \<and> s = targetServer r sv name p b)"
  by (fastforce simp: set_targetServers_inner split: option.splits)

lemma targetBinds_loop_mem:
  "ranges_ok r rng \<Longrightarrow> bi \<in> set (targetBinds_loop rng r i as) \<longleftrightarrow>
   (\<exists>a\<in>set as. \<exists>name p f. ports r name = Some p \<and> portFrontends r name = Some f \<and> bi = targetBind r a name p f)"
proof (induction as arbitrary: i)
  case (Cons a as)
  have "(name, p) \<in> set (rng i) \<longleftrightarrow> ports r name = Some p" for name p
    using Cons.prems by (simp add: ranges_ok_def range_of_mem)
  with Cons show ?case by (auto simp: targetBinds_inner_mem)
qed simp

lemma targetServers_loop_mem:
  "ranges_ok r rng \<Longrightarrow> s \<in> set (targetServers_loop rng r i svs) \<longleftrightarrow>
   (\<exists>sv\<in>set svs. \<exists>name p b. ports r name = Some p \<and> portBackends r name = Some b \<and> s = targetServer r sv name p b)"
proof (induction svs arbitrary: i)
  case (Cons sv svs)
  have "(name, p) \<in> set (rng i) \<longleftrightarrow> ports r name = Some p" for name p
    using Cons.prems by (simp add: ranges_ok_def range_of_mem)
  with Cons show ?case by (auto simp: targetServers_inner_mem)
qed simp

interpretation backend_step: compare_step backend_attr backendAttributes OBackend cmpBackends
    targetBackends backends reconcileBackends
  by unfold_locales
     (auto simp: lib_contract_def reconcileBackends_def split: sum.splits prod.splits)

interpretation frontend_step: compare_step frontend_attr frontendAttributes OFrontend cmpFrontends
    targetFrontends frontends reconcileFrontends
  by unfold_locales
     (auto simp: lib_contract_def reconcileFrontends_def targetFrontends_def targetFrontends_loop_mem
        targetFrontend_def split: sum.splits prod.splits)

interpretation bind_step: compare_step bind_attr bindAttributes OBind cmpBinds
    targetBinds binds reconcileBinds
  by unfold_locales
     (auto simp: lib_contract_def reconcileBinds_def split: sum.splits prod.splits)

interpretation server_step: compare_step server_attr serverAttributes OServer cmpServers
    targetServersOf servers reconcileServers
  by unfold_locales
     (auto simp: lib_contract_def reconcileServers_def split: sum.splits prod.splits)

end
