(* ===== verification/ReconCheck.thy ===== *)
theory ReconCheck
  imports ReconSteps
begin

text \<open>
  What the four steps achieve together: \<open>reconciled\<close> is the final state the package documentation
  promises (a backend and a frontend per port, a bind per frontend and external address, a server
  per port and node, nothing else). The lemmas relate it to \<open>ReconcileCheck\<close> returning nothing to
  do, and say what is created and destroyed on the way.
\<close>

section \<open>Resource names\<close>

lemma makeResourceName_one:
  "makeResourceName r [n] =
     (if n = [] then resourceNameSuffix r
      else if resourceNameSuffix r = [] then n else n @ ''.'' @ resourceNameSuffix r)"
  by (simp add: makeResourceName_def)

lemma makeResourceName_inj: "makeResourceName r [n] = makeResourceName r [m] \<longleftrightarrow> n = m"
  by (auto simp: makeResourceName_one split: if_splits dest: arg_cong [where f = length])

lemma last_dot_inj:
  assumes "CHR ''.'' \<notin> set n" and "CHR ''.'' \<notin> set m" and "a @ CHR ''.'' # n = b @ CHR ''.'' # m"
  shows "a = b \<and> n = m"
proof -
  have tw: "takeWhile (\<lambda>c. c \<noteq> CHR ''.'') (rev (x @ CHR ''.'' # y)) = rev y" if "CHR ''.'' \<notin> set y" for x y
    using that by (subst rev_append, simp, subst takeWhile_append2) auto
  have "rev n = rev m" using tw [OF assms(1)] tw [OF assms(2)] assms(3) by metis
  with assms(3) show ?thesis by simp
qed

lemma makeResourceName_two:
  "a \<noteq> [] \<Longrightarrow> n \<noteq> [] \<Longrightarrow> makeResourceName r [a, n] =
     a @ ''.'' @ n @ (if resourceNameSuffix r = [] then [] else ''.'' @ resourceNameSuffix r)"
  by (simp add: makeResourceName_def)

section \<open>The wanted objects, spelled out\<close>

definition backend_for :: "lib \<Rightarrow> recon \<Rightarrow> string \<Rightarrow> lb_backend \<Rightarrow> bool" where
  "backend_for L r name b \<longleftrightarrow>
     be_name b = makeResourceName r [name] \<and> be_mode b = modeTCP L \<and>
     be_health b = tcpHealthCheck \<and> be_lb b = lb_identifier r"

definition frontend_for :: "lib \<Rightarrow> recon \<Rightarrow> string \<Rightarrow> lb_backend \<Rightarrow> lb_frontend \<Rightarrow> bool" where
  "frontend_for L r name b f \<longleftrightarrow>
     fe_name f = makeResourceName r [name] \<and> fe_mode f = modeTCP L \<and>
     fe_lb f = Some (lb_identifier r) \<and> fe_backend f = Some (be_id b)"

definition bind_for :: "recon \<Rightarrow> ip \<Rightarrow> string \<Rightarrow> port \<Rightarrow> lb_frontend \<Rightarrow> lb_bind \<Rightarrow> bool" where
  "bind_for r a name p f bi \<longleftrightarrow>
     bi_name bi = makeResourceName r [if to4 a \<noteq> [] then ''v4'' else ''v6'', name] \<and>
     bi_address bi = ip_string a \<and> bi_port bi = uint (external p) \<and> bi_frontend bi = fe_id f"

definition server_for :: "recon \<Rightarrow> server_spec \<Rightarrow> string \<Rightarrow> port \<Rightarrow> lb_backend \<Rightarrow> lb_server \<Rightarrow> bool" where
  "server_for r sv name p b s \<longleftrightarrow>
     se_name s = makeResourceName r [sv_name sv, name] \<and> se_ip s = ip_string (sv_address sv) \<and>
     se_port s = uint (internal p) \<and> se_check s = ''enabled'' \<and> se_backend s = be_id b"

lemma same_backend: "same_attrs backend_attr backendAttributes (targetBackend L r name) b = backend_for L r name b"
  by (auto simp: same_attrs_def backend_attr_def attribute_defs targetBackend_def backend_for_def)

lemma same_frontend:
  "same_attrs frontend_attr frontendAttributes (targetFrontend L r name b) f = frontend_for L r name b f"
  by (cases "fe_lb f"; cases "fe_backend f")
     (auto simp: same_attrs_def frontend_attr_def attribute_defs targetFrontend_def frontend_for_def)

lemma same_bind: "same_attrs bind_attr bindAttributes (targetBind r a name p f) bi = bind_for r a name p f bi"
  by (auto simp: same_attrs_def bind_attr_def attribute_defs targetBind_def bind_for_def family_tag_def)

lemma same_server: "same_attrs server_attr serverAttributes (targetServer r sv name p b) s = server_for r sv name p b s"
  by (auto simp: same_attrs_def server_attr_def attribute_defs targetServer_def server_for_def)

lemmas same_spec = same_backend same_frontend same_bind same_server

lemma for_config:
  assumes "same_config r r'"
  shows "backend_for L r' = backend_for L r" and "frontend_for L r' = frontend_for L r"
    and "bind_for r' = bind_for r" and "server_for r' = server_for r"
  using assms makeResourceName_config [OF assms]
  by (auto simp: fun_eq_iff backend_for_def frontend_for_def bind_for_def server_for_def same_config_def)

definition reconciled :: "lib \<Rightarrow> recon \<Rightarrow> bool" where
  "reconciled L r \<longleftrightarrow>
     (\<exists>pb pf.
        (\<forall>name p. ports r name = Some p \<longrightarrow>
           pb name \<in> set (backends r) \<and> backend_for L r name (pb name) \<and>
           pf name \<in> set (frontends r) \<and> frontend_for L r name (pb name) (pf name) \<and>
           (\<forall>a\<in>set (externalAddresses r). \<exists>bi\<in>set (binds r). bind_for r a name p (pf name) bi) \<and>
           (\<forall>sv\<in>set (targetServers r). \<exists>s\<in>set (servers r). server_for r sv name p (pb name) s)) \<and>
        (\<forall>b\<in>set (backends r). \<exists>name\<in>dom (ports r). backend_for L r name b) \<and>
        (\<forall>f\<in>set (frontends r). \<exists>name\<in>dom (ports r). frontend_for L r name (pb name) f) \<and>
        (\<forall>bi\<in>set (binds r). \<exists>name p a. ports r name = Some p \<and> a \<in> set (externalAddresses r) \<and>
           bind_for r a name p (pf name) bi) \<and>
        (\<forall>s\<in>set (servers r). \<exists>name p sv. ports r name = Some p \<and> sv \<in> set (targetServers r) \<and>
           server_for r sv name p (pb name) s))"

section \<open>Storing objects by port name\<close>

lemma store_by_name_lookup:
  "store_by_name r nm ts ps m name =
     (if name \<in> fst ` set ps
      then (case List.find (\<lambda>b. nm b = makeResourceName r [name]) ts of None \<Rightarrow> m name | Some b \<Rightarrow> Some b)
      else m name)"
  by (induction r nm ts ps m rule: store_by_name.induct) (auto split: option.splits)

text \<open>
  The loop after a quiet comparison: every target has been replaced by an existing partner, so each
  port gets an existing object, with the attributes of that port's target.
\<close>

lemma store_by_name_found:
  assumes rel: "list_all2 (\<lambda>t t'. t' \<in> E \<and> same_attrs attr attrs t t') targets ts"
    and nm: "\<And>x y. same_attrs attr attrs x y \<Longrightarrow> nm x = nm y"
    and name: "name \<in> fst ` set ps" and t: "t \<in> set targets" "nm t = makeResourceName r [name]"
  shows "\<exists>b t'. store_by_name r nm ts ps m name = Some b \<and> b \<in> E \<and> t' \<in> set targets \<and>
           nm t' = makeResourceName r [name] \<and> same_attrs attr attrs t' b"
proof -
  obtain t2 where "t2 \<in> set ts" "same_attrs attr attrs t t2"
    using list_all2_leftD [OF rel t(1)] by blast
  then have "\<exists>b\<in>set ts. nm b = makeResourceName r [name]"
    using nm [of t t2] t(2) by auto
  then obtain b where find: "List.find (\<lambda>b. nm b = makeResourceName r [name]) ts = Some b"
    by (cases "List.find (\<lambda>b. nm b = makeResourceName r [name]) ts") (auto simp: find_None_iff)
  then have b: "b \<in> set ts" "nm b = makeResourceName r [name]" by (auto simp: find_Some_iff)
  obtain t' where t': "t' \<in> set targets" "b \<in> E" "same_attrs attr attrs t' b"
    using list_all2_rightD [OF rel b(1)] by blast
  have "store_by_name r nm ts ps m name = Some b"
    using find name by (simp add: store_by_name_lookup)
  then show ?thesis using b t' nm [OF t'(3)] by auto
qed

section \<open>The steps one by one\<close>

lemma ranges_config: "same_config r r' \<Longrightarrow> ranges_ok r' rng = ranges_ok r rng"
  by (simp add: ranges_ok_def same_config_def)

lemma targetBackends_mem:
  "ranges_ok r rng \<Longrightarrow> t \<in> set (targetBackends L rng r) \<longleftrightarrow> (\<exists>name\<in>dom (ports r). t = targetBackend L r name)"
proof -
  assume "ranges_ok r rng"
  then have "(name, p) \<in> set (rng 0) \<longleftrightarrow> ports r name = Some p" for name p
    by (simp add: ranges_ok_def range_of_mem)
  then show ?thesis by (fastforce simp: targetBackends_def)
qed

lemma targetFrontends_mem:
  assumes "ranges_ok r rng"
  shows "t \<in> set (targetFrontends L rng r) \<longleftrightarrow>
    (\<exists>name\<in>dom (ports r). \<exists>b. portBackends r name = Some b \<and> t = targetFrontend L r name b)"
proof -
  from assms have "(name, p) \<in> set (rng 0) \<longleftrightarrow> ports r name = Some p" for name p
    by (simp add: ranges_ok_def range_of_mem)
  then show ?thesis by (fastforce simp: targetFrontends_def targetFrontends_loop_mem)
qed

lemma range_keys: "ranges_ok r rng \<Longrightarrow> name \<in> fst ` set (rng i) \<longleftrightarrow> name \<in> dom (ports r)"
  using range_of_keys [of "ports r" "rng i"] by (simp add: ranges_ok_def)

lemma same_backend_name: "same_attrs backend_attr backendAttributes x y \<Longrightarrow> be_name x = be_name y"
  by (simp add: same_attrs_def backend_attr_def attribute_defs)

lemma same_frontend_name: "same_attrs frontend_attr frontendAttributes x y \<Longrightarrow> fe_name x = fe_name y"
  by (simp add: same_attrs_def frontend_attr_def attribute_defs)

text \<open>A step that has something to do leaves the state alone, so the later steps see no objects.\<close>

lemma reconcileBackends_busy:
  "reconcileBackends L rng r = (Inr (cr, de), r') \<Longrightarrow> (cr, de) \<noteq> ([], []) \<Longrightarrow> r' = r"
  by (auto simp: reconcileBackends_def split: sum.splits prod.splits if_splits)

lemma reconcileFrontends_busy:
  "reconcileFrontends L rng r = (Inr (cr, de), r') \<Longrightarrow> (cr, de) \<noteq> ([], []) \<Longrightarrow> r' = r"
  by (auto simp: reconcileFrontends_def split: sum.splits prod.splits if_splits)

lemma reconcileBinds_state: "reconcileBinds L rng r = (res, r') \<Longrightarrow> r' = r"
  by (auto simp: reconcileBinds_def split: sum.splits prod.splits)

lemma reconcileServers_state: "reconcileServers L rng r = (res, r') \<Longrightarrow> r' = r"
  by (auto simp: reconcileServers_def split: sum.splits prod.splits)

lemma reconcileBackends_quiet:
  assumes L: "lib_contract L" and rng: "ranges_ok r rng"
    and step: "reconcileBackends L rng r = (Inr ([], []), r')"
  shows "\<exists>pb. r' = r\<lparr>portBackends := pb\<rparr> \<and>
    (\<forall>name\<in>dom (ports r). \<exists>b\<in>set (backends r). pb name = Some b \<and> backend_for L r name b) \<and>
    (\<forall>name. name \<notin> dom (ports r) \<longrightarrow> pb name = portBackends r name)"
proof -
  have "fst (reconcileBackends L rng r) = Inr ([], [])" using step by simp
  then obtain t where cmp: "cmpBackends L backendAttributes (targetBackends L rng r) (backends r) = Inr (t, [], [])"
    and rel: "list_all2 (\<lambda>x x'. x' \<in> set (backends r) \<and> same_attrs backend_attr backendAttributes x x')
                (targetBackends L rng r) t"
    using backend_step.quiet_partners [OF L] by auto
  let ?pb = "store_by_name r be_name t (rng 1) (portBackends r)"
  have r': "r' = r\<lparr>portBackends := ?pb\<rparr>" using step cmp by (simp add: reconcileBackends_def)
  have "\<exists>b\<in>set (backends r). ?pb name = Some b \<and> backend_for L r name b" if "name \<in> dom (ports r)" for name
  proof -
    have mem: "targetBackend L r name \<in> set (targetBackends L rng r)"
      using that rng by (auto simp: targetBackends_mem)
    have name: "be_name (targetBackend L r name) = makeResourceName r [name]"
      by (simp add: targetBackend_def)
    have key: "name \<in> fst ` set (rng 1)" using that range_keys [OF rng] by simp
    then obtain b t' where b: "?pb name = Some b" "b \<in> set (backends r)"
      and t': "t' \<in> set (targetBackends L rng r)" "be_name t' = makeResourceName r [name]"
        "same_attrs backend_attr backendAttributes t' b"
      using store_by_name_found [where nm = be_name and r = r and m = "portBackends r",
          OF rel same_backend_name key mem name] by blast
    obtain n where "t' = targetBackend L r n" using t'(1) rng by (auto simp: targetBackends_mem)
    with t'(2) have "t' = targetBackend L r name" by (simp add: targetBackend_def makeResourceName_inj)
    with t'(3) b show ?thesis by (auto simp: same_backend)
  qed
  moreover have "\<forall>name. name \<notin> dom (ports r) \<longrightarrow> ?pb name = portBackends r name"
    using range_keys [OF rng] by (simp add: store_by_name_lookup)
  ultimately show ?thesis using r' by blast
qed

lemma reconcileFrontends_quiet:
  assumes L: "lib_contract L" and rng: "ranges_ok r rng"
    and attrs: "\<forall>f\<in>set (frontends r). has_attrs frontend_attr frontendAttributes f"
    and step: "reconcileFrontends L rng r = (Inr ([], []), r')"
  shows "\<exists>pf. r' = r\<lparr>portFrontends := pf\<rparr> \<and>
    (\<forall>name\<in>dom (ports r). \<forall>b. portBackends r name = Some b \<longrightarrow>
       (\<exists>f\<in>set (frontends r). pf name = Some f \<and> frontend_for L r name b f))"
proof -
  have "fst (reconcileFrontends L rng r) = Inr ([], [])" using step by simp
  then obtain t where cmp: "cmpFrontends L frontendAttributes (targetFrontends L rng r) (frontends r) = Inr (t, [], [])"
    and rel: "list_all2 (\<lambda>x x'. x' \<in> set (frontends r) \<and> same_attrs frontend_attr frontendAttributes x x')
                (targetFrontends L rng r) t"
    using frontend_step.quiet_partners [OF L attrs] by blast
  let ?pf = "store_by_name r fe_name t (rng 1) (portFrontends r)"
  have r': "r' = r\<lparr>portFrontends := ?pf\<rparr>" using step cmp by (simp add: reconcileFrontends_def)
  have "\<exists>f\<in>set (frontends r). ?pf name = Some f \<and> frontend_for L r name b f"
    if "name \<in> dom (ports r)" and pb: "portBackends r name = Some b" for name b
  proof -
    have mem: "targetFrontend L r name b \<in> set (targetFrontends L rng r)"
      using that rng by (auto simp: targetFrontends_mem)
    have name: "fe_name (targetFrontend L r name b) = makeResourceName r [name]"
      by (simp add: targetFrontend_def)
    have key: "name \<in> fst ` set (rng 1)" using that range_keys [OF rng] by simp
    then obtain f t' where f: "?pf name = Some f" "f \<in> set (frontends r)"
      and t': "t' \<in> set (targetFrontends L rng r)" "fe_name t' = makeResourceName r [name]"
        "same_attrs frontend_attr frontendAttributes t' f"
      using store_by_name_found [where nm = fe_name and r = r and m = "portFrontends r",
          OF rel same_frontend_name key mem name] by blast
    obtain n b' where "t' = targetFrontend L r n b'" "portBackends r n = Some b'"
      using t'(1) rng by (auto simp: targetFrontends_mem)
    with t'(2) pb have "t' = targetFrontend L r name b"
      by (auto simp: targetFrontend_def makeResourceName_inj)
    with t'(3) f show ?thesis by (auto simp: same_frontend)
  qed
  with r' show ?thesis by blast
qed

text \<open>The run of the four steps, taken apart.\<close>

lemma reconcile_steps_split:
  assumes "reconcile_steps L rngs r = (Inr (cr, de), r')"
  shows "\<exists>c1 d1 r1 c2 d2 r2 c3 d3 c4 d4.
    reconcileBackends L (rngs 0) r = (Inr (c1, d1), r1) \<and>
    reconcileFrontends L (rngs 1) r1 = (Inr (c2, d2), r2) \<and>
    reconcileBinds L (rngs 2) r2 = (Inr (c3, d3), r2) \<and>
    reconcileServers L (rngs 3) r2 = (Inr (c4, d4), r2) \<and> r' = r2 \<and>
    cr = c1 @ c2 @ c3 @ c4 \<and> de = d1 @ d2 @ d3 @ d4"
  using assms
  by (auto simp: reconcile_steps_def numeral_2_eq_2 numeral_3_eq_3 split: prod.splits sum.splits
      dest: reconcileBinds_state reconcileServers_state)

definition frontends_complete :: "recon \<Rightarrow> bool" where
  "frontends_complete r \<longleftrightarrow> (\<forall>f\<in>set (frontends r). fe_lb f \<noteq> None \<and> fe_backend f \<noteq> None)"

text \<open>What each step finds missing and surplus, in terms of the wanted objects.\<close>

lemma backend_missing_iff:
  assumes "ranges_ok r rng"
  shows "x \<in> backend_step.missing L rng r \<longleftrightarrow>
    (\<exists>name\<in>dom (ports r). x = targetBackend L r name \<and> \<not> (\<exists>b\<in>set (backends r). backend_for L r name b))"
  unfolding backend_step.missing_def mem_Collect_eq targetBackends_mem [OF assms]
  by (metis same_backend)

lemma backend_surplus_iff:
  assumes "ranges_ok r rng"
  shows "x \<in> backend_step.surplus L rng r \<longleftrightarrow>
    x \<in> set (backends r) \<and> \<not> (\<exists>name\<in>dom (ports r). backend_for L r name x)"
  unfolding backend_step.surplus_def mem_Collect_eq Bex_def targetBackends_mem [OF assms]
  by (metis same_backend)

lemma frontend_missing_iff:
  assumes "ranges_ok r rng"
  shows "x \<in> frontend_step.missing L rng r \<longleftrightarrow>
    (\<exists>name\<in>dom (ports r). \<exists>b. portBackends r name = Some b \<and> x = targetFrontend L r name b \<and>
       \<not> (\<exists>f\<in>set (frontends r). frontend_for L r name b f))"
  unfolding frontend_step.missing_def mem_Collect_eq targetFrontends_mem [OF assms]
  by (metis same_frontend)

lemma frontend_surplus_iff:
  assumes "ranges_ok r rng"
  shows "x \<in> frontend_step.surplus L rng r \<longleftrightarrow>
    x \<in> set (frontends r) \<and>
    \<not> (\<exists>name\<in>dom (ports r). \<exists>b. portBackends r name = Some b \<and> frontend_for L r name b x)"
  unfolding frontend_step.surplus_def mem_Collect_eq Bex_def targetFrontends_mem [OF assms]
  by (metis same_frontend)

lemma targetBinds_mem:
  assumes "ranges_ok r rng"
  shows "x \<in> set (targetBinds L rng r) \<longleftrightarrow>
    (\<exists>a\<in>set (externalAddresses r). \<exists>name p f. ports r name = Some p \<and> portFrontends r name = Some f \<and>
       x = targetBind r a name p f)"
  using targetBinds_loop_mem [OF assms] by (simp add: targetBinds_def)

lemma targetServersOf_mem:
  assumes "ranges_ok r rng"
  shows "x \<in> set (targetServersOf L rng r) \<longleftrightarrow>
    (\<exists>sv\<in>set (targetServers r). \<exists>name p b. ports r name = Some p \<and> portBackends r name = Some b \<and>
       x = targetServer r sv name p b)"
  using targetServers_loop_mem [OF assms] by (simp add: targetServersOf_def)

lemma bind_missing_iff:
  assumes "ranges_ok r rng"
  shows "x \<in> bind_step.missing L rng r \<longleftrightarrow>
    (\<exists>a\<in>set (externalAddresses r). \<exists>name p f. ports r name = Some p \<and> portFrontends r name = Some f \<and>
       x = targetBind r a name p f \<and> \<not> (\<exists>bi\<in>set (binds r). bind_for r a name p f bi))"
  unfolding bind_step.missing_def mem_Collect_eq targetBinds_mem [OF assms]
  by (metis same_bind)

lemma bind_surplus_iff:
  assumes "ranges_ok r rng"
  shows "x \<in> bind_step.surplus L rng r \<longleftrightarrow>
    x \<in> set (binds r) \<and>
    \<not> (\<exists>a\<in>set (externalAddresses r). \<exists>name p f. ports r name = Some p \<and> portFrontends r name = Some f \<and>
         bind_for r a name p f x)"
  unfolding bind_step.surplus_def mem_Collect_eq Bex_def targetBinds_mem [OF assms]
  by (metis same_bind)

lemma server_missing_iff:
  assumes "ranges_ok r rng"
  shows "x \<in> server_step.missing L rng r \<longleftrightarrow>
    (\<exists>sv\<in>set (targetServers r). \<exists>name p b. ports r name = Some p \<and> portBackends r name = Some b \<and>
       x = targetServer r sv name p b \<and> \<not> (\<exists>s\<in>set (servers r). server_for r sv name p b s))"
  unfolding server_step.missing_def mem_Collect_eq targetServersOf_mem [OF assms]
  by (metis same_server)

lemma server_surplus_iff:
  assumes "ranges_ok r rng"
  shows "x \<in> server_step.surplus L rng r \<longleftrightarrow>
    x \<in> set (servers r) \<and>
    \<not> (\<exists>sv\<in>set (targetServers r). \<exists>name p b. ports r name = Some p \<and> portBackends r name = Some b \<and>
         server_for r sv name p b x)"
  unfolding server_step.surplus_def mem_Collect_eq Bex_def targetServersOf_mem [OF assms]
  by (metis same_server)

lemmas missing_iffs = backend_missing_iff frontend_missing_iff bind_missing_iff server_missing_iff
lemmas surplus_iffs = backend_surplus_iff frontend_surplus_iff bind_surplus_iff server_surplus_iff

text \<open>When nothing is to be done, both port maps are total on the ports and hold existing objects.\<close>

lemma quiet_run:
  assumes L: "lib_contract L" and rngs: "\<forall>k. ranges_ok r (rngs k)" and fc: "frontends_complete r"
    and b: "reconcileBackends L (rngs 0) r = (Inr ([], []), r1)"
    and f: "reconcileFrontends L (rngs 1) r1 = (Inr ([], []), r2)"
  shows "\<exists>pb pf. r1 = r\<lparr>portBackends := pb\<rparr> \<and> r2 = r1\<lparr>portFrontends := pf\<rparr> \<and>
    (\<forall>name\<in>dom (ports r). \<exists>b\<in>set (backends r). \<exists>f\<in>set (frontends r).
       pb name = Some b \<and> pf name = Some f \<and> backend_for L r name b \<and> frontend_for L r name b f)"
proof -
  obtain pb where r1: "r1 = r\<lparr>portBackends := pb\<rparr>" and
    pb: "\<forall>name\<in>dom (ports r). \<exists>b\<in>set (backends r). pb name = Some b \<and> backend_for L r name b"
    using reconcileBackends_quiet [OF L _ b] rngs by blast
  have cfg: "same_config r r1" by (simp add: r1)
  have "ranges_ok r1 (rngs 1)" using rngs ranges_config [OF cfg] by simp
  moreover have "\<forall>f\<in>set (frontends r1). has_attrs frontend_attr frontendAttributes f"
    using fc by (simp add: r1 frontends_complete_def)
  ultimately obtain pf where r2: "r2 = r1\<lparr>portFrontends := pf\<rparr>" and
    pf: "\<forall>name\<in>dom (ports r1). \<forall>b. portBackends r1 name = Some b \<longrightarrow>
       (\<exists>f\<in>set (frontends r1). pf name = Some f \<and> frontend_for L r1 name b f)"
    using reconcileFrontends_quiet [OF L _ _ f] by blast
  have "\<forall>name\<in>dom (ports r). \<exists>b\<in>set (backends r). \<exists>f\<in>set (frontends r).
       pb name = Some b \<and> pf name = Some f \<and> backend_for L r name b \<and> frontend_for L r name b f"
    using pb pf unfolding for_config [OF cfg] by (fastforce simp: r1)
  then show ?thesis using r1 r2 by blast
qed

lemma steps_quiet_reconciled:
  assumes L: "lib_contract L" and rngs: "\<forall>k. ranges_ok r (rngs k)" and fc: "frontends_complete r"
    and quiet: "reconcile_steps L rngs r = (Inr ([], []), r')"
  shows "reconciled L r'"
proof -
  from reconcile_steps_split [OF quiet] obtain r1 where
    b: "reconcileBackends L (rngs 0) r = (Inr ([], []), r1)" and
    f: "reconcileFrontends L (rngs 1) r1 = (Inr ([], []), r')" and
    bi: "reconcileBinds L (rngs 2) r' = (Inr ([], []), r')" and
    se: "reconcileServers L (rngs 3) r' = (Inr ([], []), r')"
    by auto
  obtain pb pf where r1: "r1 = r\<lparr>portBackends := pb\<rparr>" and r': "r' = r1\<lparr>portFrontends := pf\<rparr>" and
    maps: "\<forall>name\<in>dom (ports r). \<exists>b\<in>set (backends r). \<exists>f\<in>set (frontends r).
       pb name = Some b \<and> pf name = Some f \<and> backend_for L r name b \<and> frontend_for L r name b f"
    using quiet_run [OF L rngs fc b f] by blast
  have cfg1: "same_config r r1" and cfg: "same_config r r'" by (simp_all add: r1 r')
  note rg = rngs [rule_format] and rg1 = ranges_config [OF cfg1] and rg' = ranges_config [OF cfg]
  have fa: "\<forall>f\<in>set (frontends r1). has_attrs frontend_attr frontendAttributes f"
    using fc by (simp add: r1 frontends_complete_def)
  have b_sur: "\<forall>x\<in>set (backends r). \<exists>name\<in>dom (ports r). backend_for L r name x"
    using backend_step.step_quiet_iff [OF L, of r "rngs 0"] b backend_surplus_iff [OF rg] by auto
  have f_sur: "\<forall>x\<in>set (frontends r). \<exists>name\<in>dom (ports r). \<exists>b. pb name = Some b \<and> frontend_for L r name b x"
    using frontend_step.step_quiet_iff [OF L fa, of "rngs 1"] f frontend_surplus_iff [of r1 "rngs 1" _ L]
      rg rg1 for_config [OF cfg1] by (auto simp: r1)
  have bi_mis: "\<exists>bi\<in>set (binds r). bind_for r a name p f bi"
    if "a \<in> set (externalAddresses r)" "ports r name = Some p" "pf name = Some f" for a name p f
    using that bind_step.step_quiet_iff [OF L, of r' "rngs 2"] bi bind_missing_iff [of r' "rngs 2" _ L]
      rg rg' for_config [OF cfg] by (fastforce simp: r1 r')
  have bi_sur: "\<exists>a\<in>set (externalAddresses r). \<exists>name p f. ports r name = Some p \<and> pf name = Some f \<and>
      bind_for r a name p f x" if "x \<in> set (binds r)" for x
    using that bind_step.step_quiet_iff [OF L, of r' "rngs 2"] bi bind_surplus_iff [of r' "rngs 2" _ L]
      rg rg' for_config [OF cfg] by (fastforce simp: r1 r')
  have se_mis: "\<exists>s\<in>set (servers r). server_for r sv name p b s"
    if "sv \<in> set (targetServers r)" "ports r name = Some p" "pb name = Some b" for sv name p b
    using that server_step.step_quiet_iff [OF L, of r' "rngs 3"] se server_missing_iff [of r' "rngs 3" _ L]
      rg rg' for_config [OF cfg] by (fastforce simp: r1 r')
  have se_sur: "\<exists>sv\<in>set (targetServers r). \<exists>name p b. ports r name = Some p \<and> pb name = Some b \<and>
      server_for r sv name p b x" if "x \<in> set (servers r)" for x
    using that server_step.step_quiet_iff [OF L, of r' "rngs 3"] se server_surplus_iff [of r' "rngs 3" _ L]
      rg rg' for_config [OF cfg] by (fastforce simp: r1 r')
  have port: "the (pb name) \<in> set (backends r)" "backend_for L r name (the (pb name))"
    "the (pf name) \<in> set (frontends r)" "frontend_for L r name (the (pb name)) (the (pf name))"
    "pb name = Some (the (pb name))" "pf name = Some (the (pf name))"
    if "ports r name = Some p" for name p
    using maps [rule_format, OF domI, OF that] by auto
  have "\<forall>name p. ports r name = Some p \<longrightarrow>
      (\<forall>a\<in>set (externalAddresses r). \<exists>bi\<in>set (binds r). bind_for r a name p (the (pf name)) bi) \<and>
      (\<forall>sv\<in>set (targetServers r). \<exists>s\<in>set (servers r). server_for r sv name p (the (pb name)) s)"
    using bi_mis se_mis port(5,6) by blast
  moreover have "\<forall>f\<in>set (frontends r). \<exists>name\<in>dom (ports r). frontend_for L r name (the (pb name)) f"
    using f_sur by force
  moreover have "\<forall>bi\<in>set (binds r). \<exists>name p a. ports r name = Some p \<and> a \<in> set (externalAddresses r) \<and>
      bind_for r a name p (the (pf name)) bi"
    using bi_sur by fastforce
  moreover have "\<forall>s\<in>set (servers r). \<exists>name p sv. ports r name = Some p \<and> sv \<in> set (targetServers r) \<and>
      server_for r sv name p (the (pb name)) s"
    using se_sur by fastforce
  moreover have "ports r' = ports r" "backends r' = backends r" "frontends r' = frontends r" "binds r' = binds r"
    "servers r' = servers r" "externalAddresses r' = externalAddresses r" "targetServers r' = targetServers r"
    by (simp_all add: r1 r')
  ultimately show ?thesis
    unfolding reconciled_def for_config [OF cfg] using b_sur port
    by (intro exI [of _ "\<lambda>n. the (pb n)"] exI [of _ "\<lambda>n. the (pf n)"]) simp
qed

end
