(* ===== verification/CheckProps.thy ===== *)
theory CheckProps
  imports ReconCheck
begin

text \<open>
  The properties of \<open>ReconcileCheck\<close>: what it returns when nothing is left to do and when
  something is, and which objects it creates and destroys.
\<close>

section \<open>From ReconcileCheck to its steps\<close>

lemma ReconcileCheck_steps:
  assumes "ReconcileCheck L A rngs s = (Inr (cr, de), s')"
  shows "\<exists>s1. retrieveState L A s = (None, s1) \<and> existingFailed (rcn s1) = [] \<and>
    existingUpdating (rcn s1) = [] \<and> existingProgressing (rcn s1) = [] \<and>
    reconcile_steps L rngs (rcn s1) = (Inr (cr, de), rcn s') \<and> s' = s1\<lparr>rcn := rcn s'\<rparr>"
  using assms
  by (auto simp: ReconcileCheck_def split: prod.splits option.splits if_splits)

lemma ReconcileCheck_clean:
  assumes "retrieveState L A s = (None, s1)" and "existingFailed (rcn s1) = []"
    and "existingUpdating (rcn s1) = []" and "existingProgressing (rcn s1) = []"
  shows "ReconcileCheck L A rngs s = (case reconcile_steps L rngs (rcn s1) of (res, r) \<Rightarrow> (res, s1\<lparr>rcn := r\<rparr>))"
  using assms by (simp add: ReconcileCheck_def)

text \<open>The steps leave the retrieved lists, the state arrays and the wanted state alone.\<close>

definition same_objects :: "recon \<Rightarrow> recon \<Rightarrow> bool" where
  "same_objects r r' \<longleftrightarrow> (\<exists>pb pf. r' = r\<lparr>portBackends := pb, portFrontends := pf\<rparr>)"

lemma same_objects_fields:
  assumes "same_objects r r'"
  shows "backends r' = backends r" "frontends r' = frontends r" "binds r' = binds r" "servers r' = servers r"
    "managed r' = managed r" "owned r' = owned r" "same_config r r'" "lb_identifier r' = lb_identifier r"
    "classified L r' os = classified L r os" "frontends_complete r' = frontends_complete r"
    "existingProgressing r' = existingProgressing r" "publicAddresses r' = publicAddresses r" "tags r' = tags r"
    "ports r' = ports r" "backoffSteps r' = backoffSteps r"
  using assms
  by (auto simp: same_objects_def managed_def owned_def classified_def same_config_def frontends_complete_def)

lemma same_objects_refl: "same_objects r r"
  unfolding same_objects_def
  by (intro exI [of _ "portBackends r"] exI [of _ "portFrontends r"]) simp

lemma reconcileBackends_objects: "reconcileBackends L rng r = (res, r') \<Longrightarrow> same_objects r r'"
  using same_objects_refl [of r]
  by (auto simp: reconcileBackends_def same_objects_def split: sum.splits prod.splits if_splits)
     (metis recon.surjective recon.update_convs(14,15))

lemma reconcileFrontends_objects: "reconcileFrontends L rng r = (res, r') \<Longrightarrow> same_objects r r'"
  using same_objects_refl [of r]
  by (auto simp: reconcileFrontends_def same_objects_def split: sum.splits prod.splits if_splits)
     (metis recon.surjective recon.update_convs(14,15))

lemma reconcileBackends_portFrontends:
  "reconcileBackends L rng r = (res, r') \<Longrightarrow> portFrontends r' = portFrontends r"
  by (auto simp: reconcileBackends_def split: sum.splits prod.splits if_splits)

lemma reconcileFrontends_portBackends:
  "reconcileFrontends L rng r = (res, r') \<Longrightarrow> portBackends r' = portBackends r"
  by (auto simp: reconcileFrontends_def split: sum.splits prod.splits if_splits)

lemma same_objects_trans: "same_objects a b \<Longrightarrow> same_objects b c \<Longrightarrow> same_objects a c"
  unfolding same_objects_def by (elim exE) (intro exI, simp)

lemma reconcile_steps_objects:
  assumes "reconcile_steps L rngs r = (res, r')"
  shows "same_objects r r'"
proof -
  obtain x1 r1 where b: "reconcileBackends L (rngs 0) r = (x1, r1)" by fastforce
  obtain x2 r2 where f: "reconcileFrontends L (rngs 1) r1 = (x2, r2)" by fastforce
  have "r' = r1 \<or> r' = r2"
    using assms b f
    by (auto simp: reconcile_steps_def split: sum.splits prod.splits
        dest: reconcileBinds_state reconcileServers_state)
  then show ?thesis
    using reconcileBackends_objects [OF b] reconcileFrontends_objects [OF f] same_objects_trans by blast
qed

lemma check_retrieved:
  assumes "lib_contract L" and "ReconcileCheck L A rngs s = (Inr (cr, de), s')"
  shows "owned (rcn s') \<and> same_config (rcn s) (rcn s') \<and> (\<forall>x\<in>managed (rcn s'). obj_class L x = Ready)"
proof -
  obtain s1 where s1: "retrieveState L A s = (None, s1)" "existingFailed (rcn s1) = []"
      "existingUpdating (rcn s1) = []" "existingProgressing (rcn s1) = []"
    and st: "reconcile_steps L rngs (rcn s1) = (Inr (cr, de), rcn s')"
    using ReconcileCheck_steps [OF assms(2)] by blast
  have ret: "retrieved L (rcn s1)" "same_config (rcn s) (rcn s1)"
    using retrieveState_retrieved [OF assms(1) s1(1)] by blast+
  note same = same_objects_fields [OF reconcile_steps_objects [OF st]]
  have "obj_class L x = Ready" if "x \<in> managed (rcn s')" for x
    using ret(1) s1(2-4) that
    by (cases "obj_class L x") (auto simp: retrieved_def classified_def in_class_def same)
  then show ?thesis
    using ret same_config_trans [OF ret(2) same(7)] by (simp add: retrieved_def same)
qed

section \<open>Data for the witnesses\<close>

definition http_ports :: "(string \<times> port) list" where
  "http_ports = [(''http'', \<lparr>external = 80, internal = 42037\<rparr>)]"

definition https_ports :: "(string \<times> port) list" where
  "https_ports = (''https'', \<lparr>external = 443, internal = 42038\<rparr>) # http_ports"

text \<open>The documented result for the port \<open>http\<close> of \<open>sample_recon\<close>.\<close>

definition wanted_backend :: lb_backend where
  "wanted_backend = sample_backend\<lparr>be_health := tcpHealthCheck\<rparr>"

definition wanted_frontend :: lb_frontend where
  "wanted_frontend = \<lparr>fe_id = ''f1'', fe_name = ''http.svc.ns.cluster'', fe_mode = ''tcp'',
     fe_lb = Some ''lb-1'', fe_backend = Some ''b1'', fe_state = ready_state\<rparr>"

definition wanted_bind :: lb_bind where
  "wanted_bind = \<lparr>bi_id = ''i1'', bi_name = ''v4.http.svc.ns.cluster'', bi_address = ''8.8.8.8'',
     bi_port = 80, bi_frontend = ''f1'', bi_state = ready_state\<rparr>"

definition wanted_server :: lb_server where
  "wanted_server = sample_server"

definition wanted_world :: ref_world where
  "wanted_world =
     \<lparr>re_objects = [(''b1'', OBackend wanted_backend), (''f1'', OFrontend wanted_frontend),
        (''i1'', OBind wanted_bind), (''s1'', OServer wanted_server)],
      re_tags = map (\<lambda>i. (i, ''anxccm-svc-uid=uid'')) [''b1'', ''f1'', ''i1'', ''s1''], re_next = 5\<rparr>"

definition check_st :: "(string \<times> port) list \<Rightarrow> ref_world \<Rightarrow> ref_world st" where
  "check_st ps w = \<lparr>world = w, rcn = sample_recon\<lparr>ports := map_of ps\<rparr>, met = zero_metrics\<rparr>"

definition run_check :: "(string \<times> port) list \<Rightarrow> ref_world \<Rightarrow> step_result \<times> ref_world st" where
  "run_check ps w = ReconcileCheck ref_lib ref_api (\<lambda>k i. ps) (check_st ps w)"

lemma ranges_const: "distinct (map fst ps) \<Longrightarrow> \<forall>k. ranges_ok (rcn (check_st ps w)) ((\<lambda>k i. ps) k)"
  by (simp add: ranges_ok_def check_st_def range_of_def)

lemma run_check_pair:
  "fst (run_check ps w) = x \<Longrightarrow>
   ReconcileCheck ref_lib ref_api (\<lambda>k i. ps) (check_st ps w) = (x, snd (run_check ps w))"
  by (auto simp: run_check_def)

lemma http_distinct: "distinct (map fst http_ports)" "distinct (map fst https_ports)"
  by (simp_all add: http_ports_def https_ports_def)

section \<open>Nothing left to do\<close>

lemma quiet_check_reconciled:
  assumes "lib_contract L" and "\<forall>k. ranges_ok (rcn s) (rngs k)"
    and "ReconcileCheck L A rngs s = (Inr ([], []), s')" and "frontends_complete (rcn s')"
  shows "reconciled L (rcn s') \<and> owned (rcn s') \<and> (\<forall>x\<in>managed (rcn s'). obj_class L x = Ready)"
proof -
  obtain s1 where s1: "retrieveState L A s = (None, s1)"
    and st: "reconcile_steps L rngs (rcn s1) = (Inr ([], []), rcn s')"
    using ReconcileCheck_steps [OF assms(3)] by blast
  note same = same_objects_fields [OF reconcile_steps_objects [OF st]]
  have "same_config (rcn s) (rcn s1)" using retrieveState_retrieved [OF assms(1) s1] by blast
  then have "\<forall>k. ranges_ok (rcn s1) (rngs k)" using assms(2) ranges_config by blast
  moreover have "frontends_complete (rcn s1)" using assms(4) same by simp
  ultimately have "reconciled L (rcn s')" using steps_quiet_reconciled [OF assms(1) _ _ st] by blast
  then show ?thesis using check_retrieved [OF assms(1,3)] by blast
qed

text \<open>
  C5. When \<open>ReconcileCheck\<close> returns nothing to create and nothing to destroy, the documented
  final result is reached: a backend and a frontend per port, for each frontend one bind per
  external address, for each backend one server per node, no other object of the service at this
  LoadBalancer; every object is ready and reaches the LoadBalancer.
\<close>

theorem ReconcileCheck_done_is_reconciled:
  assumes "lib_contract L" and "\<forall>k. ranges_ok (rcn s) (rngs k)"
    and "ReconcileCheck L A rngs s = (Inr ([], []), s')" and "frontends_complete (rcn s')"
  shows "reconciled L (rcn s') \<and> owned (rcn s') \<and> (\<forall>x\<in>managed (rcn s'). obj_class L x = Ready)"
  by (rule quiet_check_reconciled [OF assms])

theorem ReconcileCheck_done_is_reconciled_witness:
  "fst (run_check http_ports wanted_world) = Inr ([], []) \<and>
   reconciled ref_lib (rcn (snd (run_check http_ports wanted_world)))"
proof -
  have quiet: "fst (run_check http_ports wanted_world) = Inr ([], [])" by code_simp
  moreover have "frontends_complete (rcn (snd (run_check http_ports wanted_world)))" by code_simp
  ultimately show ?thesis
    using ReconcileCheck_done_is_reconciled [OF ref_lib_contract ranges_const run_check_pair [OF quiet]]
      http_distinct by blast
qed

section \<open>The final state is stable\<close>

lemma backend_names: "backend_for L r n x \<Longrightarrow> backend_for L r n y \<Longrightarrow> be_name x = be_name y"
  by (simp add: backend_for_def)

lemma frontend_names: "frontend_for L r n b x \<Longrightarrow> frontend_for L r n b y \<Longrightarrow> fe_name x = fe_name y"
  by (simp add: frontend_for_def)

lemma reconciled_backends_step:
  assumes L: "lib_contract L" and rng: "ranges_ok r rng"
    and pb: "\<forall>name\<in>dom (ports r). pb name \<in> set (backends r) \<and> backend_for L r name (pb name)"
    and sur: "\<forall>b\<in>set (backends r). \<exists>name\<in>dom (ports r). backend_for L r name b"
    and uniq: "inj_on be_name (set (backends r))"
  shows "\<exists>m. reconcileBackends L rng r = (Inr ([], []), r\<lparr>portBackends := m\<rparr>) \<and>
    (\<forall>name\<in>dom (ports r). m name = Some (pb name))"
proof -
  have "backend_step.missing L rng r = {}" using pb backend_missing_iff [OF rng, of _ L] by blast
  moreover have "backend_step.surplus L rng r = {}" using sur backend_surplus_iff [OF rng, of _ L] by blast
  ultimately have "fst (reconcileBackends L rng r) = Inr ([], [])"
    using backend_step.step_quiet_iff [OF L, of r rng] by simp
  then obtain r1 where r1: "reconcileBackends L rng r = (Inr ([], []), r1)" by (metis prod.collapse)
  from reconcileBackends_quiet [OF L rng r1] obtain m where m: "r1 = r\<lparr>portBackends := m\<rparr>" and
    mb: "\<forall>name\<in>dom (ports r). \<exists>b\<in>set (backends r). m name = Some b \<and> backend_for L r name b" by blast
  have "m name = Some (pb name)" if "name \<in> dom (ports r)" for name
    using mb pb that uniq backend_names by (metis inj_onD)
  with r1 m show ?thesis by blast
qed

lemma reconciled_frontends_step:
  assumes L: "lib_contract L" and rng: "ranges_ok r rng" and fc: "frontends_complete r"
    and m: "\<forall>name\<in>dom (ports r). portBackends r name = Some (pb name)"
    and pf: "\<forall>name\<in>dom (ports r). pf name \<in> set (frontends r) \<and> frontend_for L r name (pb name) (pf name)"
    and sur: "\<forall>f\<in>set (frontends r). \<exists>name\<in>dom (ports r). frontend_for L r name (pb name) f"
    and uniq: "inj_on fe_name (set (frontends r))"
  shows "\<exists>m. reconcileFrontends L rng r = (Inr ([], []), r\<lparr>portFrontends := m\<rparr>) \<and>
    (\<forall>name\<in>dom (ports r). m name = Some (pf name))"
proof -
  have fa: "\<forall>f\<in>set (frontends r). has_attrs frontend_attr frontendAttributes f"
    using fc by (simp add: frontends_complete_def)
  have "frontend_step.missing L rng r = {}" using m pf frontend_missing_iff [OF rng, of _ L] by fastforce
  moreover have "frontend_step.surplus L rng r = {}"
    using m sur frontend_surplus_iff [OF rng, of _ L] by fastforce
  ultimately have "fst (reconcileFrontends L rng r) = Inr ([], [])"
    using frontend_step.step_quiet_iff [OF L fa, of rng] by simp
  then obtain r1 where r1: "reconcileFrontends L rng r = (Inr ([], []), r1)" by (metis prod.collapse)
  from reconcileFrontends_quiet [OF L rng fa r1] obtain m' where m': "r1 = r\<lparr>portFrontends := m'\<rparr>" and
    mf: "\<forall>name\<in>dom (ports r). \<exists>f\<in>set (frontends r). m' name = Some f \<and> frontend_for L r name (pb name) f"
    using m by blast
  have "m' name = Some (pf name)" if "name \<in> dom (ports r)" for name
    using mf pf that uniq frontend_names by (metis inj_onD)
  with r1 m' show ?thesis by blast
qed

lemma reconciled_steps_quiet:
  assumes L: "lib_contract L" and rngs: "\<forall>k. ranges_ok r (rngs k)" and fc: "frontends_complete r"
    and ub: "inj_on be_name (set (backends r))" and uf: "inj_on fe_name (set (frontends r))"
    and rec: "reconciled L r"
  shows "fst (reconcile_steps L rngs r) = Inr ([], [])"
proof -
  obtain pb pf where
    ports: "\<forall>name p. ports r name = Some p \<longrightarrow>
       pb name \<in> set (backends r) \<and> backend_for L r name (pb name) \<and>
       pf name \<in> set (frontends r) \<and> frontend_for L r name (pb name) (pf name) \<and>
       (\<forall>a\<in>set (externalAddresses r). \<exists>bi\<in>set (binds r). bind_for r a name p (pf name) bi) \<and>
       (\<forall>sv\<in>set (targetServers r). \<exists>s\<in>set (servers r). server_for r sv name p (pb name) s)"
    and bs: "\<forall>b\<in>set (backends r). \<exists>name\<in>dom (ports r). backend_for L r name b"
    and fs: "\<forall>f\<in>set (frontends r). \<exists>name\<in>dom (ports r). frontend_for L r name (pb name) f"
    and bis: "\<forall>bi\<in>set (binds r). \<exists>name p a. ports r name = Some p \<and> a \<in> set (externalAddresses r) \<and>
       bind_for r a name p (pf name) bi"
    and ss: "\<forall>s\<in>set (servers r). \<exists>name p sv. ports r name = Some p \<and> sv \<in> set (targetServers r) \<and>
       server_for r sv name p (pb name) s"
    using rec unfolding reconciled_def by blast
  have pbs: "\<forall>name\<in>dom (ports r). pb name \<in> set (backends r) \<and> backend_for L r name (pb name)"
    and pfs: "\<forall>name\<in>dom (ports r). pf name \<in> set (frontends r) \<and> frontend_for L r name (pb name) (pf name)"
    using ports by auto
  obtain m where b: "reconcileBackends L (rngs 0) r = (Inr ([], []), r\<lparr>portBackends := m\<rparr>)"
    and m: "\<forall>name\<in>dom (ports r). m name = Some (pb name)"
    using reconciled_backends_step [OF L _ pbs bs ub] rngs by blast
  let ?r1 = "r\<lparr>portBackends := m\<rparr>"
  have cfg1: "same_config r ?r1" by simp
  note for1 = for_config [OF cfg1]
  have "\<exists>m'. reconcileFrontends L (rngs 1) ?r1 = (Inr ([], []), ?r1\<lparr>portFrontends := m'\<rparr>) \<and>
    (\<forall>name\<in>dom (ports ?r1). m' name = Some (pf name))"
  proof (rule reconciled_frontends_step [OF L, where pb = pb])
    show "ranges_ok ?r1 (rngs 1)" using rngs ranges_config [OF cfg1] by simp
    show "frontends_complete ?r1" using fc by (simp add: frontends_complete_def)
  qed (use m pfs fs uf in \<open>simp_all add: for1\<close>)
  then obtain m' where f: "reconcileFrontends L (rngs 1) ?r1 = (Inr ([], []), ?r1\<lparr>portFrontends := m'\<rparr>)"
    and m': "\<forall>name\<in>dom (ports r). m' name = Some (pf name)" by auto
  let ?r2 = "?r1\<lparr>portFrontends := m'\<rparr>"
  have cfg2: "same_config r ?r2" by simp
  note for2 = for_config [OF cfg2]
  have rg2: "ranges_ok ?r2 (rngs k)" for k using rngs ranges_config [OF cfg2] by simp
  have fields: "ports ?r2 = ports r" "externalAddresses ?r2 = externalAddresses r" "binds ?r2 = binds r"
      "targetServers ?r2 = targetServers r" "servers ?r2 = servers r" "portFrontends ?r2 = m'" "portBackends ?r2 = m"
    by simp_all
  have pm: "m name = Some b \<longleftrightarrow> b = pb name" "m' name = Some f \<longleftrightarrow> f = pf name"
    if "ports r name = Some p" for name p b f
    using m [rule_format, OF domI, OF that] m' [rule_format, OF domI, OF that] by auto
  have "bind_step.missing L (rngs 2) ?r2 = {}"
    unfolding set_eq_iff bind_missing_iff [OF rg2] fields for2 empty_iff using pm(2) ports by metis
  moreover have "bind_step.surplus L (rngs 2) ?r2 = {}"
    unfolding set_eq_iff bind_surplus_iff [OF rg2] fields for2 empty_iff using pm(2) bis by metis
  ultimately have bi: "fst (reconcileBinds L (rngs 2) ?r2) = Inr ([], [])"
    using bind_step.step_quiet_iff [OF L, of ?r2 "rngs 2"] by simp
  have "server_step.missing L (rngs 3) ?r2 = {}"
    unfolding set_eq_iff server_missing_iff [OF rg2] fields for2 empty_iff using pm(1) ports by metis
  moreover have "server_step.surplus L (rngs 3) ?r2 = {}"
    unfolding set_eq_iff server_surplus_iff [OF rg2] fields for2 empty_iff using pm(1) ss by metis
  ultimately have se: "fst (reconcileServers L (rngs 3) ?r2) = Inr ([], [])"
    using server_step.step_quiet_iff [OF L, of ?r2 "rngs 3"] by simp
  obtain r3 where "reconcileBinds L (rngs 2) ?r2 = (Inr ([], []), r3)" using bi by (metis prod.collapse)
  moreover from this have "r3 = ?r2" by (rule reconcileBinds_state)
  moreover obtain r4 where "reconcileServers L (rngs 3) ?r2 = (Inr ([], []), r4)" using se by (metis prod.collapse)
  ultimately show ?thesis
    using b f by (simp add: reconcile_steps_def numeral_2_eq_2 numeral_3_eq_3)
qed

text \<open>
  C12. The final state is a fixed point: when the retrieved objects are the documented final result,
  all of them ready, with unique names among backends and among frontends, \<open>ReconcileCheck\<close>
  finds nothing to create and nothing to destroy, whatever the order of the ports.
\<close>

theorem ReconcileCheck_stable:
  assumes "lib_contract L" and "\<forall>k. ranges_ok (rcn s) (rngs k)"
    and "retrieveState L A s = (None, s1)" and "reconciled L (rcn s1)" and "frontends_complete (rcn s1)"
    and "inj_on be_name (set (backends (rcn s1)))" and "inj_on fe_name (set (frontends (rcn s1)))"
    and "\<forall>x\<in>managed (rcn s1). obj_class L x = Ready"
  shows "fst (ReconcileCheck L A rngs s) = Inr ([], [])"
proof -
  have ret: "retrieved L (rcn s1)" "same_config (rcn s) (rcn s1)"
    using retrieveState_retrieved [OF assms(1,3)] by blast+
  then have "\<forall>k. ranges_ok (rcn s1) (rngs k)" using assms(2) ranges_config by blast
  then have "fst (reconcile_steps L rngs (rcn s1)) = Inr ([], [])"
    by (rule reconciled_steps_quiet [OF assms(1) _ assms(5-7,4)])
  moreover have "existingFailed (rcn s1) = []" "existingUpdating (rcn s1) = []" "existingProgressing (rcn s1) = []"
    using ret(1) assms(8) unfolding retrieved_def classified_def in_class_def
    by (metis (mono_tags, lifting) Collect_empty_eq obj_class.distinct set_empty)+
  ultimately show ?thesis by (simp add: ReconcileCheck_clean [OF assms(3)] case_prod_beta)
qed

theorem ReconcileCheck_stable_witness:
  "reconciled ref_lib (rcn (snd (retrieveState ref_lib ref_api (check_st http_ports wanted_world)))) \<and>
   fst (ReconcileCheck ref_lib ref_api (\<lambda>k i. http_ports) (check_st http_ports wanted_world)) = Inr ([], [])"
proof -
  let ?s = "check_st http_ports wanted_world"
  let ?s1 = "snd (retrieveState ref_lib ref_api ?s)"
  have ret: "retrieveState ref_lib ref_api ?s = (None, ?s1)"
  proof -
    have "fst (retrieveState ref_lib ref_api ?s) = None" by code_simp
    then show ?thesis by (metis prod.collapse)
  qed
  have lists: "backends (rcn ?s1) = [wanted_backend]" "frontends (rcn ?s1) = [wanted_frontend]"
    "binds (rcn ?s1) = [wanted_bind]" "servers (rcn ?s1) = [wanted_server]" by code_simp+
  have cfg: "same_config (rcn ?s) (rcn ?s1)" using retrieveState_retrieved [OF ref_lib_contract ret] by blast
  have "backend_for ref_lib (rcn ?s) ''http'' wanted_backend"
    "frontend_for ref_lib (rcn ?s) ''http'' wanted_backend wanted_frontend"
    "bind_for (rcn ?s) (v4InV6Prefix @ [8, 8, 8, 8]) ''http'' \<lparr>external = 80, internal = 42037\<rparr> wanted_frontend wanted_bind"
    "server_for (rcn ?s) \<lparr>sv_name = ''node-1'', sv_address = v4InV6Prefix @ [10, 244, 0, 4]\<rparr> ''http''
       \<lparr>external = 80, internal = 42037\<rparr> wanted_backend wanted_server"
    by code_simp+
  moreover have "ports (rcn ?s1) = [''http'' \<mapsto> \<lparr>external = 80, internal = 42037\<rparr>]"
    "externalAddresses (rcn ?s1) = [v4InV6Prefix @ [8, 8, 8, 8]]"
    "targetServers (rcn ?s1) = [\<lparr>sv_name = ''node-1'', sv_address = v4InV6Prefix @ [10, 244, 0, 4]\<rparr>]"
    using cfg by (simp_all add: same_config_def check_st_def http_ports_def sample_recon_def)
  ultimately have rec: "reconciled ref_lib (rcn ?s1)"
    unfolding reconciled_def for_config [OF cfg] lists
    by (intro exI [of _ "\<lambda>n. wanted_backend"] exI [of _ "\<lambda>n. wanted_frontend"]) simp
  have "fst (ReconcileCheck ref_lib ref_api (\<lambda>k i. http_ports) ?s) = Inr ([], [])"
  proof (rule ReconcileCheck_stable [OF ref_lib_contract ranges_const ret rec])
    show "\<forall>x\<in>managed (rcn ?s1). obj_class ref_lib x = Ready"
      unfolding managed_def lists by code_simp
  qed (simp_all add: http_distinct lists frontends_complete_def wanted_frontend_def)
  with rec show ?thesis by blast
qed

section \<open>Something left to do\<close>

lemma steps_no_backends_map:
  assumes L: "lib_contract L" and fc: "frontends_complete r"
    and maps: "portBackends r = Map.empty" "portFrontends r = Map.empty"
    and f: "reconcileFrontends L rf r = (Inr (c2, d2), r2)"
    and bi: "reconcileBinds L rb r2 = (Inr (c3, d3), r2)"
    and se: "reconcileServers L rs r2 = (Inr (c4, d4), r2)"
  shows "c2 = [] \<and> c3 = [] \<and> c4 = [] \<and> set d2 = OFrontend ` set (frontends r) \<and>
    set d3 = OBind ` set (binds r) \<and> set d4 = OServer ` set (servers r)"
proof -
  have fa: "\<forall>f\<in>set (frontends r). has_attrs frontend_attr frontendAttributes f"
    using fc by (simp add: frontends_complete_def)
  have t2: "targetFrontends_loop L r ps = []" for ps
    by (induction ps) (auto simp: maps)
  then have tf: "targetFrontends L rf r = []" by (simp add: targetFrontends_def)
  note fr = frontend_step.step_no_target [OF L fa tf f]
  have r2: "portBackends r2 = Map.empty" "portFrontends r2 = Map.empty" "binds r2 = binds r" "servers r2 = servers r"
  proof -
    have "same_objects r r2" by (rule reconcileFrontends_objects [OF f])
    then show "binds r2 = binds r" "servers r2 = servers r" by (auto simp: same_objects_def)
    have sb: "store_by_name r fe_name [] ps m = m" for ps m
      by (induction ps arbitrary: m) auto
    obtain c d where cmp: "cmpFrontends L frontendAttributes [] (frontends r) = Inr ([], c, d)"
      using frontend_step.compare_ok [OF L fa, of rf] tf by auto
    show "portBackends r2 = Map.empty" using f maps
      by (auto simp: reconcileFrontends_def split: sum.splits prod.splits if_splits)
    show "portFrontends r2 = Map.empty" using f maps cmp tf
      by (auto simp: reconcileFrontends_def sb split: if_splits)
  qed
  have i3: "targetBinds_inner r2 a ps = []" for a ps by (induction ps) (auto simp: r2)
  have t3: "targetBinds_loop rng r2 i as = []" for rng i as by (induction as arbitrary: i) (auto simp: i3)
  have i4: "targetServers_inner r2 a ps = []" for a ps by (induction ps) (auto simp: r2)
  have t4: "targetServers_loop rng r2 i svs = []" for rng i svs by (induction svs arbitrary: i) (auto simp: i4)
  show ?thesis
    using fr bind_step.step_no_target [OF L _ _ bi] server_step.step_no_target [OF L _ _ se] r2
    by (simp add: targetBinds_def targetServersOf_def t3 t4)
qed

lemma store_by_name_value: "store_by_name r nm ts ps m name = Some b \<Longrightarrow> b \<in> set ts \<or> m name = Some b"
  by (auto simp: store_by_name_lookup find_Some_iff split: if_splits option.splits)

lemma portBackends_exist:
  assumes L: "lib_contract L" and maps: "portBackends r = Map.empty"
    and b: "reconcileBackends L rng r = (Inr (cr, de), r1)" and name: "portBackends r1 name = Some x"
  shows "x \<in> set (backends r) \<and> cr = [] \<and> de = []"
proof (cases "cr = [] \<and> de = []")
  case True
  with b have quiet: "fst (reconcileBackends L rng r) = Inr ([], [])" by simp
  obtain t where cmp: "cmpBackends L backendAttributes (targetBackends L rng r) (backends r) = Inr (t, [], [])"
    and rel: "list_all2 (\<lambda>x x'. x' \<in> set (backends r) \<and> same_attrs backend_attr backendAttributes x x')
      (targetBackends L rng r) t"
    using backend_step.quiet_partners [OF L _ quiet] by auto
  have "x \<in> set t" using b name maps cmp store_by_name_value [of r be_name t "rng 1" "portBackends r" name x]
    by (auto simp: reconcileBackends_def)
  with list_all2_rightD [OF rel] True show ?thesis by blast
next
  case False
  then have "r1 = r" using reconcileBackends_busy [OF b] by simp
  with name maps show ?thesis by simp
qed

lemma portFrontends_exist:
  assumes L: "lib_contract L" and fc: "frontends_complete r" and maps: "portFrontends r = Map.empty"
    and f: "reconcileFrontends L rng r = (Inr (cr, de), r1)" and name: "portFrontends r1 name = Some x"
  shows "x \<in> set (frontends r) \<and> cr = [] \<and> de = []"
proof (cases "cr = [] \<and> de = []")
  case True
  with f have quiet: "fst (reconcileFrontends L rng r) = Inr ([], [])" by simp
  have fa: "\<forall>f\<in>set (frontends r). has_attrs frontend_attr frontendAttributes f"
    using fc by (simp add: frontends_complete_def)
  obtain t where cmp: "cmpFrontends L frontendAttributes (targetFrontends L rng r) (frontends r) = Inr (t, [], [])"
    and rel: "list_all2 (\<lambda>x x'. x' \<in> set (frontends r) \<and> same_attrs frontend_attr frontendAttributes x x')
      (targetFrontends L rng r) t"
    using frontend_step.quiet_partners [OF L fa quiet] by blast
  have "x \<in> set t" using f name maps cmp store_by_name_value [of r fe_name t "rng 1" "portFrontends r" name x]
    by (auto simp: reconcileFrontends_def)
  with list_all2_rightD [OF rel] True show ?thesis by blast
next
  case False
  then have "r1 = r" using reconcileFrontends_busy [OF f] by simp
  with name maps show ?thesis by simp
qed

text \<open>The four steps of a \<open>ReconcileCheck\<close> that returns lists, with what each of them finds.\<close>

lemma check_parts:
  assumes L: "lib_contract L" and rngs: "\<forall>k. ranges_ok (rcn s) (rngs k)"
    and run: "ReconcileCheck L A rngs s = (Inr (cr, de), s')" and fc: "frontends_complete (rcn s')"
  obtains r0 r1 c1 d1 c2 d2 c3 d3 c4 d4 where
    "same_objects r0 r1" and "same_objects r0 (rcn s')" and "same_config (rcn s) (rcn s')"
    and "portBackends r0 = Map.empty" and "portFrontends r0 = Map.empty"
    and "reconcileBackends L (rngs 0) r0 = (Inr (c1, d1), r1)"
    and "reconcileFrontends L (rngs 1) r1 = (Inr (c2, d2), rcn s')"
    and "reconcileBinds L (rngs 2) (rcn s') = (Inr (c3, d3), rcn s')"
    and "reconcileServers L (rngs 3) (rcn s') = (Inr (c4, d4), rcn s')"
    and "cr = c1 @ c2 @ c3 @ c4" and "de = d1 @ d2 @ d3 @ d4"
    and "\<forall>k. ranges_ok r0 (rngs k)"
proof -
  obtain s1 where s1: "retrieveState L A s = (None, s1)"
    and st: "reconcile_steps L rngs (rcn s1) = (Inr (cr, de), rcn s')"
    using ReconcileCheck_steps [OF run] by blast
  have ret: "same_config (rcn s) (rcn s1)" "portBackends (rcn s1) = Map.empty" "portFrontends (rcn s1) = Map.empty"
    using retrieveState_retrieved [OF L s1] by blast+
  obtain c1 d1 r1 c2 d2 c3 d3 c4 d4 where
    b: "reconcileBackends L (rngs 0) (rcn s1) = (Inr (c1, d1), r1)" and
    rest: "reconcileFrontends L (rngs 1) r1 = (Inr (c2, d2), rcn s')"
    "reconcileBinds L (rngs 2) (rcn s') = (Inr (c3, d3), rcn s')"
    "reconcileServers L (rngs 3) (rcn s') = (Inr (c4, d4), rcn s')"
    "cr = c1 @ c2 @ c3 @ c4" "de = d1 @ d2 @ d3 @ d4"
    using reconcile_steps_split [OF st] by blast
  have same: "same_objects (rcn s1) (rcn s')" by (rule reconcile_steps_objects [OF st])
  have "same_config (rcn s) (rcn s')" by (rule same_config_trans [OF ret(1) same_objects_fields(7) [OF same]])
  moreover have "\<forall>k. ranges_ok (rcn s1) (rngs k)" using rngs ranges_config [OF ret(1)] by simp
  ultimately show ?thesis
    using that reconcileBackends_objects [OF b] same ret(2,3) b rest by blast
qed

text \<open>The sets each of the four steps creates and destroys.\<close>

lemma step_results:
  assumes L: "lib_contract L" and fc: "frontends_complete r"
  shows "reconcileBackends L rng r = (Inr (c, d), r') \<Longrightarrow>
      set c = OBackend ` backend_step.missing L rng r \<and> set d = OBackend ` backend_step.surplus L rng r"
    and "reconcileFrontends L rng r = (Inr (c, d), r') \<Longrightarrow>
      set c = OFrontend ` frontend_step.missing L rng r \<and> set d = OFrontend ` frontend_step.surplus L rng r"
    and "reconcileBinds L rng r = (Inr (c, d), r') \<Longrightarrow>
      set c = OBind ` bind_step.missing L rng r \<and> set d = OBind ` bind_step.surplus L rng r"
    and "reconcileServers L rng r = (Inr (c, d), r') \<Longrightarrow>
      set c = OServer ` server_step.missing L rng r \<and> set d = OServer ` server_step.surplus L rng r"
proof -
  have fa: "\<forall>f\<in>set (frontends r). has_attrs frontend_attr frontendAttributes f"
    using fc by (simp add: frontends_complete_def)
  show "reconcileFrontends L rng r = (Inr (c, d), r') \<Longrightarrow>
      set c = OFrontend ` frontend_step.missing L rng r \<and> set d = OFrontend ` frontend_step.surplus L rng r"
    using frontend_step.step_sets [OF L fa] by blast
qed (use backend_step.step_sets [OF L] bind_step.step_sets [OF L] server_step.step_sets [OF L] in simp_all)

lemma surplus_exist:
  "backend_step.surplus L rng r \<subseteq> set (backends r)" "frontend_step.surplus L rng r \<subseteq> set (frontends r)"
  "bind_step.surplus L rng r \<subseteq> set (binds r)" "server_step.surplus L rng r \<subseteq> set (servers r)"
  by (auto simp: backend_step.surplus_def frontend_step.surplus_def bind_step.surplus_def server_step.surplus_def)



text \<open>
  C19. The objects \<open>ReconcileCheck\<close> wants created refer only to objects that exist: a frontend to a
  retrieved backend, a bind to a retrieved frontend, a server to a retrieved backend, backends and
  frontends to our LoadBalancer. So the creation order among them does not matter.
\<close>

theorem ReconcileCheck_creates_under_existing_parents:
  assumes "lib_contract L" and "\<forall>k. ranges_ok (rcn s) (rngs k)"
    and "ReconcileCheck L A rngs s = (Inr (cr, de), s')" and "frontends_complete (rcn s')"
    and "obj \<in> set cr"
  shows "case obj of
      OBackend b \<Rightarrow> be_lb b = lb_identifier (rcn s)
    | OFrontend f \<Rightarrow> fe_lb f = Some (lb_identifier (rcn s)) \<and>
        (\<exists>b\<in>set (backends (rcn s')). fe_backend f = Some (be_id b))
    | OBind bi \<Rightarrow> (\<exists>f\<in>set (frontends (rcn s')). bi_frontend bi = fe_id f)
    | OServer sv \<Rightarrow> (\<exists>b\<in>set (backends (rcn s')). se_backend sv = be_id b)
    | _ \<Rightarrow> False"
proof -
  obtain r0 r1 c1 d1 c2 d2 c3 d3 c4 d4 where
    same: "same_objects r0 r1" "same_objects r0 (rcn s')" "same_config (rcn s) (rcn s')"
    and maps: "portBackends r0 = Map.empty" "portFrontends r0 = Map.empty"
    and steps: "reconcileBackends L (rngs 0) r0 = (Inr (c1, d1), r1)"
      "reconcileFrontends L (rngs 1) r1 = (Inr (c2, d2), rcn s')"
      "reconcileBinds L (rngs 2) (rcn s') = (Inr (c3, d3), rcn s')"
      "reconcileServers L (rngs 3) (rcn s') = (Inr (c4, d4), rcn s')"
    and cr: "cr = c1 @ c2 @ c3 @ c4" and rg: "\<forall>k. ranges_ok r0 (rngs k)"
    using check_parts [OF assms(1-4)] by metis
  note f1 = same_objects_fields [OF same(1)] and f2 = same_objects_fields [OF same(2)]
  have lb: "lb_identifier r0 = lb_identifier (rcn s)" "lb_identifier r1 = lb_identifier (rcn s)"
    using same(3) f1(8) f2(8) by (simp_all add: same_config_def)
  have fc: "frontends_complete r0" "frontends_complete r1" using assms(4) f1 f2 by simp_all
  have rg1: "ranges_ok r1 (rngs 1)" and rg': "ranges_ok (rcn s') (rngs k)" for k
    using rg ranges_config [OF f1(7)] ranges_config [OF f2(7)] by simp_all
  note c = step_results(1) [OF assms(1) fc(1) steps(1)] step_results(2) [OF assms(1) fc(2) steps(2)]
    step_results(3) [OF assms(1,4) steps(3)] step_results(4) [OF assms(1,4) steps(4)]
  have pb1: "b \<in> set (backends (rcn s'))" if "portBackends r1 name = Some b" for name b
    using portBackends_exist [OF assms(1) maps(1) steps(1) that] f2(1) by simp
  have pb: "portBackends (rcn s') = portBackends r1"
    by (rule reconcileFrontends_portBackends [OF steps(2)])
  have "portFrontends r1 = Map.empty"
    using reconcileBackends_portFrontends [OF steps(1)] maps(2) by simp
  then have pf: "f \<in> set (frontends (rcn s'))" if "portFrontends (rcn s') name = Some f" for name f
    using portFrontends_exist [OF assms(1) fc(2) _ steps(2) that] f1(2) f2(2) by simp
  from assms(5) consider "obj \<in> set c1" | "obj \<in> set c2" | "obj \<in> set c3" | "obj \<in> set c4"
    by (auto simp: cr)
  then show ?thesis
  proof cases
    case 1
    then show ?thesis
      using c(1) backend_missing_iff [OF rg [rule_format], of _ L 0] lb(1) by (auto simp: targetBackend_def)
  next
    case 2
    then show ?thesis
      using c(2) frontend_missing_iff [OF rg1, of _ L] lb(2) pb1 by (fastforce simp: targetFrontend_def)
  next
    case 3
    then show ?thesis
      using c(3) bind_missing_iff [OF rg', of _ L 2] pf by (fastforce simp: targetBind_def)
  next
    case 4
    then show ?thesis
      using c(4) server_missing_iff [OF rg', of _ L 3] pb pb1 by (fastforce simp: targetServer_def)
  qed
qed

definition backend_world :: ref_world where
  "backend_world =
     \<lparr>re_objects = [(''b1'', OBackend wanted_backend)], re_tags = [(''b1'', ''anxccm-svc-uid=uid'')], re_next = 2\<rparr>"

theorem ReconcileCheck_creates_under_existing_parents_witness:
  "\<exists>f sv. fst (run_check http_ports backend_world) = Inr ([OFrontend f, OServer sv], []) \<and>
     fe_backend f = Some ''b1'' \<and>
     (\<exists>b\<in>set (backends (rcn (snd (run_check http_ports backend_world)))). fe_backend f = Some (be_id b))"
proof -
  let ?f = "targetFrontend ref_lib sample_recon ''http'' wanted_backend"
  let ?sv = "targetServer sample_recon \<lparr>sv_name = ''node-1'', sv_address = v4InV6Prefix @ [10, 244, 0, 4]\<rparr>
    ''http'' \<lparr>external = 80, internal = 42037\<rparr> wanted_backend"
  have run: "fst (run_check http_ports backend_world) = Inr ([OFrontend ?f, OServer ?sv], [])" by code_simp
  have fc: "frontends_complete (rcn (snd (run_check http_ports backend_world)))" by code_simp
  have "OFrontend ?f \<in> set [OFrontend ?f, OServer ?sv]" by simp
  from ReconcileCheck_creates_under_existing_parents
    [OF ref_lib_contract ranges_const run_check_pair [OF run] fc this]
  have "\<exists>b\<in>set (backends (rcn (snd (run_check http_ports backend_world)))). fe_backend ?f = Some (be_id b)"
    using http_distinct by simp
  moreover have "fe_backend ?f = Some ''b1''" by code_simp
  ultimately show ?thesis using run by blast
qed

text \<open>
  A port without its backend takes the whole service down for a while: as long as one backend
  is missing, the port maps stay empty, so every existing frontend, bind and server is listed for
  destruction, those of the other ports too, and only backends are listed for creation. (The
  documentation of the interface says that a step needing creation stops the later steps.)
\<close>

theorem ReconcileCheck_missing_backend_tears_down:
  assumes "lib_contract L" and "\<forall>k. ranges_ok (rcn s) (rngs k)"
    and "ReconcileCheck L A rngs s = (Inr (cr, de), s')" and "frontends_complete (rcn s')"
    and "name \<in> dom (ports (rcn s))" and "\<not> (\<exists>b\<in>set (backends (rcn s')). backend_for L (rcn s') name b)"
  shows "OFrontend ` set (frontends (rcn s')) \<union> OBind ` set (binds (rcn s')) \<union> OServer ` set (servers (rcn s'))
           \<subseteq> set de \<and>
         OBackend (targetBackend L (rcn s') name) \<in> set cr \<and> set cr \<subseteq> range OBackend"
proof -
  obtain r0 r1 c1 d1 c2 d2 c3 d3 c4 d4 where
    same: "same_objects r0 r1" "same_objects r0 (rcn s')" "same_config (rcn s) (rcn s')"
    and maps: "portBackends r0 = Map.empty" "portFrontends r0 = Map.empty"
    and steps: "reconcileBackends L (rngs 0) r0 = (Inr (c1, d1), r1)"
      "reconcileFrontends L (rngs 1) r1 = (Inr (c2, d2), rcn s')"
      "reconcileBinds L (rngs 2) (rcn s') = (Inr (c3, d3), rcn s')"
      "reconcileServers L (rngs 3) (rcn s') = (Inr (c4, d4), rcn s')"
    and lists: "cr = c1 @ c2 @ c3 @ c4" "de = d1 @ d2 @ d3 @ d4" and rg: "\<forall>k. ranges_ok r0 (rngs k)"
    using check_parts [OF assms(1-4)] by metis
  note f2 = same_objects_fields [OF same(2)]
  have fc: "frontends_complete r0" using assms(4) f2 by simp
  have "name \<in> dom (ports r0)" using assms(5) same(3) f2(14) by (simp add: same_config_def)
  moreover have nb: "\<not> (\<exists>b\<in>set (backends r0). backend_for L r0 name b)"
    using assms(6) f2(1) for_config(1) [OF f2(7)] by simp
  ultimately have "targetBackend L r0 name \<in> backend_step.missing L (rngs 0) r0"
    using backend_missing_iff [OF rg [rule_format], of _ L 0] by blast
  then have c1: "OBackend (targetBackend L r0 name) \<in> set c1" "set c1 \<subseteq> range OBackend"
    using step_results(1) [OF assms(1) fc steps(1)] by auto
  then have "(c1, d1) \<noteq> ([], [])" by auto
  with reconcileBackends_busy [OF steps(1)] have "r1 = r0" by blast
  with steps_no_backends_map [OF assms(1) fc maps _ steps(3,4)] steps(2)
  have "c2 = [] \<and> c3 = [] \<and> c4 = [] \<and> set d2 = OFrontend ` set (frontends r0) \<and>
    set d3 = OBind ` set (binds r0) \<and> set d4 = OServer ` set (servers r0)" by blast
  moreover have "targetBackend L (rcn s') name = targetBackend L r0 name"
    using makeResourceName_config [OF f2(7)] f2(8) by (simp add: targetBackend_def)
  ultimately show ?thesis using c1 unfolding lists f2(2-4) by auto
qed

theorem ReconcileCheck_missing_backend_tears_down_witness:
  "fst (run_check https_ports wanted_world) =
     Inr ([OBackend (targetBackend ref_lib sample_recon ''https'')],
          [OFrontend wanted_frontend, OBind wanted_bind, OServer wanted_server]) \<and>
   OServer wanted_server \<in> OServer ` set (servers (rcn (snd (run_check https_ports wanted_world))))"
proof -
  let ?r = "rcn (snd (run_check https_ports wanted_world))"
  have run: "fst (run_check https_ports wanted_world) =
      Inr ([OBackend (targetBackend ref_lib sample_recon ''https'')],
           [OFrontend wanted_frontend, OBind wanted_bind, OServer wanted_server])" by code_simp
  have fc: "frontends_complete ?r" by code_simp
  have dom: "''https'' \<in> dom (ports (rcn (check_st https_ports wanted_world)))"
    by (simp add: check_st_def https_ports_def)
  have nb: "\<not> (\<exists>b\<in>set (backends ?r). backend_for ref_lib ?r ''https'' b)" by code_simp
  have "servers ?r = [wanted_server]" by code_simp
  with ReconcileCheck_missing_backend_tears_down
    [OF ref_lib_contract ranges_const run_check_pair [OF run] fc dom nb] run http_distinct
  show ?thesis by simp
qed

text \<open>
  Without ports (the state \<open>EnsureLoadBalancerDeleted\<close> asks for) nothing is created and
  every retrieved object of the service at this LoadBalancer is destroyed.
\<close>

theorem ReconcileCheck_no_ports_destroys_all:
  assumes "lib_contract L" and "ports (rcn s) = Map.empty" and "\<forall>k. ranges_ok (rcn s) (rngs k)"
    and "ReconcileCheck L A rngs s = (Inr (cr, de), s')" and "frontends_complete (rcn s')"
  shows "cr = [] \<and> set de = managed (rcn s')"
proof -
  obtain r0 r1 c1 d1 c2 d2 c3 d3 c4 d4 where
    same: "same_objects r0 r1" "same_objects r0 (rcn s')" "same_config (rcn s) (rcn s')"
    and maps: "portBackends r0 = Map.empty" "portFrontends r0 = Map.empty"
    and steps: "reconcileBackends L (rngs 0) r0 = (Inr (c1, d1), r1)"
      "reconcileFrontends L (rngs 1) r1 = (Inr (c2, d2), rcn s')"
      "reconcileBinds L (rngs 2) (rcn s') = (Inr (c3, d3), rcn s')"
      "reconcileServers L (rngs 3) (rcn s') = (Inr (c4, d4), rcn s')"
    and lists: "cr = c1 @ c2 @ c3 @ c4" "de = d1 @ d2 @ d3 @ d4" and rg: "\<forall>k. ranges_ok r0 (rngs k)"
    using check_parts [OF assms(1,3-5)] by metis
  note f1 = same_objects_fields [OF same(1)] and f2 = same_objects_fields [OF same(2)]
  have fc: "frontends_complete r0" "frontends_complete r1" using assms(5) f1 f2 by simp_all
  have "ports r0 = Map.empty" using assms(2) same(3) f2(14) by (simp add: same_config_def)
  then have "rngs 0 0 = []" using rg by (auto simp: ranges_ok_def)
  then have "targetBackends L (rngs 0) r0 = []" by (simp add: targetBackends_def)
  then have b: "c1 = []" "set d1 = OBackend ` set (backends r0)"
    using backend_step.step_no_target [OF assms(1) _ _ steps(1)] by simp_all
  have "portBackends r1 = Map.empty"
  proof (rule ext)
    fix name
    show "portBackends r1 name = None"
      using \<open>ports r0 = Map.empty\<close> steps(1) maps(1) rg
      by (cases "d1 = []")
         (auto simp: reconcileBackends_def store_by_name_lookup ranges_ok_def range_of_def
           split: sum.splits prod.splits if_splits)
  qed
  moreover have "portFrontends r1 = Map.empty"
    using reconcileBackends_portFrontends [OF steps(1)] maps(2) by simp
  ultimately have "c2 = [] \<and> c3 = [] \<and> c4 = [] \<and> set d2 = OFrontend ` set (frontends r1) \<and>
    set d3 = OBind ` set (binds r1) \<and> set d4 = OServer ` set (servers r1)"
    by (rule steps_no_backends_map [OF assms(1) fc(2) _ _ steps(2-4)])
  with b show ?thesis unfolding lists managed_def f1(2-4) f2(1-4) by auto
qed

theorem ReconcileCheck_no_ports_destroys_all_witness:
  "fst (run_check [] wanted_world) =
     Inr ([], [OBackend wanted_backend, OFrontend wanted_frontend, OBind wanted_bind, OServer wanted_server]) \<and>
   set [OBackend wanted_backend, OFrontend wanted_frontend, OBind wanted_bind, OServer wanted_server] =
     managed (rcn (snd (run_check [] wanted_world)))"
proof -
  let ?de = "[OBackend wanted_backend, OFrontend wanted_frontend, OBind wanted_bind, OServer wanted_server]"
  have run: "fst (run_check [] wanted_world) = Inr ([], ?de)" by code_simp
  have fc: "frontends_complete (rcn (snd (run_check [] wanted_world)))" by code_simp
  have "ports (rcn (check_st [] wanted_world)) = Map.empty" by (simp add: check_st_def)
  from ReconcileCheck_no_ports_destroys_all
    [OF ref_lib_contract this ranges_const run_check_pair [OF run] fc] run
  show ?thesis by simp
qed

section \<open>Names\<close>

text \<open>
  Generated names do not clash: as Kubernetes port names hold no dot, two servers get the same
  name only for the same node name and the same port, even if node names hold dots.
\<close>

theorem makeResourceName_injective:
  assumes "CHR ''.'' \<notin> set n" and "CHR ''.'' \<notin> set m" and "a \<noteq> []" "b \<noteq> []" "n \<noteq> []" "m \<noteq> []"
  shows "makeResourceName r [a, n] = makeResourceName r [b, m] \<longleftrightarrow> a = b \<and> n = m"
  using last_dot_inj [OF assms(1,2), of a b] assms(3-6)
  by (auto simp: makeResourceName_two split: if_splits)

theorem makeResourceName_injective_witness:
  "makeResourceName sample_recon [''node.a'', ''http''] \<noteq> makeResourceName sample_recon [''node'', ''http'']"
  using makeResourceName_injective [of "''http''" "''http''" "''node.a''" "''node''" sample_recon] by simp

end
