(* ===== verification/ReconLoop.thy ===== *)
theory ReconLoop
  imports CheckProps
begin

text \<open>
  \<open>Reconcile\<close> (\<open>reconciliation.go\<close>): the loop that destroys, creates and waits until
  \<open>ReconcileCheck\<close> has nothing left to do. Its two loops may run forever, so they are
  partial functions into \<open>option\<close>: not returning is \<open>None\<close>.
\<close>

section \<open>Waiting for resources\<close>

text \<open>
  The state \<open>wait.ExponentialBackoff\<close> threads through the condition: the Engine, the objects
  (refreshed through their pointers) and \<open>firstPass\<close>.
\<close>

record 'w wait =
  w_world :: 'w
  w_objects :: "object list"
  firstPass :: bool

type_synonym 'w condition = "'w wait \<Rightarrow> (go_error + bool) \<times> 'w wait"
type_synonym 'w backoff = "int \<Rightarrow> 'w condition \<Rightarrow> 'w wait \<Rightarrow> go_error option \<times> 'w wait"

text \<open>An object after the client has written to it: its type stays.\<close>

fun refreshed :: "object \<Rightarrow> object \<Rightarrow> object" where
  "refreshed (OBackend b) obj = OBackend (backend_of b obj)"
| "refreshed (OFrontend f) obj = OFrontend (frontend_of f obj)"
| "refreshed (OBind b) obj = OBind (bind_of b obj)"
| "refreshed (OServer s) obj = OServer (server_of s obj)"
| "refreshed (OLoadBalancer i) obj = OLoadBalancer (loadbalancer_of i obj)"
| "refreshed (OResourceWithTag i t) obj = OResourceWithTag i t"

text \<open>One pass of the condition: the objects seen so far, those not ready and those failed.\<close>

fun wait_pass ::
  "lib \<Rightarrow> 'w api \<Rightarrow> bool \<Rightarrow> object list \<Rightarrow> object list \<Rightarrow> object list \<Rightarrow> object list \<Rightarrow> 'w \<Rightarrow>
   (go_error + object list \<times> object list) \<times> object list \<times> 'w" where
  "wait_pass L A first [] seen notReady failed w = (Inr (notReady, failed), seen, w)"
| "wait_pass L A first (obj # os) seen notReady failed w =
     (case object_state obj of
        None \<Rightarrow>
          (case mustStringifyObject L obj of
             Inl p \<Rightarrow> (Inl p, seen @ obj # os, w)
           | Inr _ \<Rightarrow> (Inl (OtherError ''coding error: waitForResources called for Object not implementing lbaasv1.StateRetriever''),
                       seen @ obj # os, w))
      | Some state \<Rightarrow>
          if stateOK L state \<and> \<not> isResourceUpdating L obj \<and> \<not> first
          then wait_pass L A first os (seen @ [obj]) notReady failed w
          else
            (case api_get A obj w of
               (Some e, obj', w') \<Rightarrow>
                 (case mustStringifyObject L (refreshed obj obj') of
                    Inl p \<Rightarrow> (Inl p, seen @ refreshed obj obj' # os, w')
                  | Inr _ \<Rightarrow> wait_pass L A first os (seen @ [refreshed obj obj']) notReady
                               (failed @ [refreshed obj obj']) w')
             | (None, obj', w') \<Rightarrow>
                 let cur = refreshed obj obj'; s = the (object_state cur) in
                 if isResourceUpdating L cur \<or> statePending L s
                 then wait_pass L A first os (seen @ [cur]) (notReady @ [cur]) failed w'
                 else if stateError L s then wait_pass L A first os (seen @ [cur]) notReady (failed @ [cur]) w'
                 else wait_pass L A first os (seen @ [cur]) notReady failed w'))"

definition wait_condition :: "lib \<Rightarrow> 'w api \<Rightarrow> 'w condition" where
  "wait_condition L A s =
     (case wait_pass L A (firstPass s) (w_objects s) [] [] [] (w_world s) of
        (Inl e, seen, w) \<Rightarrow> (Inl e, s\<lparr>w_world := w, w_objects := seen\<rparr>)
      | (Inr (notReady, failed), seen, w) \<Rightarrow>
          let s' = s\<lparr>w_world := w, w_objects := seen, firstPass := False\<rparr> in
          if failed \<noteq> [] then
            (case mustStringifyObjects L failed of
               Inl p \<Rightarrow> (Inl p, s') | Inr _ \<Rightarrow> (Inl ErrLBaaSResourceFailed, s'))
          else if notReady \<noteq> [] then
            (case mustStringifyObjects L notReady of
               Inl p \<Rightarrow> (Inl p, s') | Inr _ \<Rightarrow> (Inr False, s'))
          else (Inr True, s'))"

definition waitForResources :: "lib \<Rightarrow> 'w api \<Rightarrow> 'w backoff \<Rightarrow> object list \<Rightarrow> 'w st \<Rightarrow> go_error option \<times> 'w st" where
  "waitForResources L A B objs s =
     (case B (backoffSteps (rcn s)) (wait_condition L A) \<lparr>w_world = world s, w_objects = objs, firstPass = True\<rparr> of
        (err, ws) \<Rightarrow> (err, s\<lparr>world := w_world ws\<rparr>))"

text \<open>
  What is relied on of \<open>wait.ExponentialBackoff\<close>: it calls the condition until it is done or fails,
  and may give up with its timeout error after any call (or at once, with no steps).
\<close>

inductive polled :: "go_error \<Rightarrow> 'w condition \<Rightarrow> 'w wait \<Rightarrow> go_error option \<Rightarrow> 'w wait \<Rightarrow> bool"
  for timeout :: go_error and f :: "'w condition" where
  polled_done: "f s = (Inr True, s') \<Longrightarrow> polled timeout f s None s'"
| polled_error: "f s = (Inl e, s') \<Longrightarrow> polled timeout f s (Some e) s'"
| polled_again: "f s = (Inr False, s1) \<Longrightarrow> polled timeout f s1 err s' \<Longrightarrow> polled timeout f s err s'"
| polled_timeout: "polled timeout f s (Some timeout) s"

definition backoff_contract :: "go_error \<Rightarrow> 'w backoff \<Rightarrow> bool" where
  "backoff_contract timeout B \<longleftrightarrow>
     (\<forall>steps f s. polled timeout f s (fst (B steps f s)) (snd (B steps f s)))"

text \<open>A concrete one: up to \<open>steps\<close> calls.\<close>

definition ErrWaitTimeout :: go_error where
  "ErrWaitTimeout = Sentinel ''timed out waiting for the condition''"

fun ref_poll :: "nat \<Rightarrow> 'w condition \<Rightarrow> 'w wait \<Rightarrow> go_error option \<times> 'w wait" where
  "ref_poll 0 f s = (Some ErrWaitTimeout, s)"
| "ref_poll (Suc n) f s =
     (case f s of
        (Inl e, s') \<Rightarrow> (Some e, s')
      | (Inr ready, s') \<Rightarrow> if ready then (None, s') else ref_poll n f s')"

definition ref_backoff :: "'w backoff" where
  "ref_backoff steps f s = ref_poll (nat steps) f s"

lemma ref_poll_polled: "polled ErrWaitTimeout f s (fst (ref_poll n f s)) (snd (ref_poll n f s))"
proof (induction n f s rule: ref_poll.induct)
  case (2 n f s)
  obtain x s' where fs: "f s = (x, s')" by fastforce
  show ?case
  proof (cases x)
    case (Inl e)
    then show ?thesis using fs by (simp add: polled_error)
  next
    case (Inr ready)
    then show ?thesis using fs 2 by (cases ready) (auto intro: polled_done polled_again)
  qed
qed (simp add: polled_timeout)

lemma ref_backoff_contract: "backoff_contract ErrWaitTimeout ref_backoff"
  by (simp add: backoff_contract_def ref_backoff_def ref_poll_polled)

section \<open>Destroying\<close>

text \<open>
  \<open>handleDestroyError\<close>; \<open>Inl\<close> is a panic of the log, otherwise the new list and the error that
  ends the loops.
\<close>

definition handleDestroyError ::
  "lib \<Rightarrow> go_error option \<Rightarrow> object list \<Rightarrow> object \<Rightarrow> 'w st \<Rightarrow> (go_error + object list \<times> go_error option) \<times> 'w st" where
  "handleDestroyError L err newToDestroy obj s =
     (case err of
        None \<Rightarrow> (Inr (newToDestroy, None), s)
      | Some e \<Rightarrow>
          let s' = s\<lparr>met := (met s)\<lparr>deleteRetries := deleteRetries (met s) + 1\<rparr>\<rparr> in
          if isRateLimitError L e then (Inr (newToDestroy @ [obj], Some e), s')
          else (case mustStringifyObject L obj of
                  Inl p \<Rightarrow> (Inl p, s') | Inr _ \<Rightarrow> (Inr (newToDestroy @ [obj], None), s')))"

definition count_deleted :: "'w st \<Rightarrow> 'w st" where
  "count_deleted s =
     s\<lparr>met := (met s)\<lparr>deletedTotal := deletedTotal (met s) + 1, pendingDestroy := pendingDestroy (met s) - 1\<rparr>\<rparr>"

text \<open>The inner loop: how it ends, and \<open>allowRetry\<close>.\<close>

datatype pass_end = PassDone "object list" | PassAborted | PassPanic go_error

fun destroy_pass ::
  "lib \<Rightarrow> 'w api \<Rightarrow> object list \<Rightarrow> object list \<Rightarrow> bool \<Rightarrow> 'w st \<Rightarrow> pass_end \<times> bool \<times> 'w st" where
  "destroy_pass L A [] newToDestroy allowRetry s = (PassDone newToDestroy, allowRetry, s)"
| "destroy_pass L A (obj # os) newToDestroy allowRetry s =
     (case api_destroy A obj (world s) of
        (err, obj', w) \<Rightarrow>
          (case handleDestroyError L (ignoreNotFound L err) newToDestroy (refreshed obj obj') (s\<lparr>world := w\<rparr>) of
             (Inl p, s') \<Rightarrow> (PassPanic p, allowRetry, s')
           | (Inr (new', Some e), s') \<Rightarrow> (PassAborted, allowRetry, s')
           | (Inr (new', None), s') \<Rightarrow> destroy_pass L A os new' True (count_deleted s')))"

partial_function (option) destroy_loop ::
  "lib \<Rightarrow> 'w api \<Rightarrow> object list \<Rightarrow> bool \<Rightarrow> 'w st \<Rightarrow> ((go_error + object list \<times> bool) \<times> 'w st) option" where
  "destroy_loop L A toDestroy allowRetry s =
     (if toDestroy \<noteq> [] \<and> allowRetry then
        (case destroy_pass L A toDestroy [] False s of (pe, allow', s') \<Rightarrow>
          (case pe of
             PassDone new' \<Rightarrow> destroy_loop L A new' allow' s'
           | PassAborted \<Rightarrow> Some (Inr (toDestroy, allow'), s')
           | PassPanic p \<Rightarrow> Some (Inl p, s')))
      else Some (Inr (toDestroy, allowRetry), s))"

section \<open>Creating\<close>

text \<open>
  \<open>tagResource\<close>: on an error \<open>GetObjectIdentifier\<close> returns the empty string, and the error is
  dropped. The mutex only keeps two of these loops apart.
\<close>

fun tag_loop :: "'w api \<Rightarrow> string \<Rightarrow> string list \<Rightarrow> 'w \<Rightarrow> go_error option \<times> 'w" where
  "tag_loop A identifier [] w = (None, w)"
| "tag_loop A identifier (t # ts) w =
     (case api_create A (OResourceWithTag identifier t) w of
        (Some e, _, w') \<Rightarrow> (Some e, w')
      | (None, _, w') \<Rightarrow> tag_loop A identifier ts w')"

definition tagResource :: "lib \<Rightarrow> 'w api \<Rightarrow> object \<Rightarrow> 'w st \<Rightarrow> go_error option \<times> 'w st" where
  "tagResource L A obj s =
     (let identifier = (case getObjectIdentifier L obj of Inl e \<Rightarrow> [] | Inr i \<Rightarrow> i)
      in case tag_loop A identifier (tags (rcn s)) (world s) of (err, w) \<Rightarrow> (err, s\<lparr>world := w\<rparr>))"

definition count_create_error :: "'w st \<Rightarrow> 'w st" where
  "count_create_error s =
     s\<lparr>met := (met s)\<lparr>pendingCreate := pendingCreate (met s) - 1, createErrors := createErrors (met s) + 1\<rparr>\<rparr>"

definition count_created :: "'w st \<Rightarrow> 'w st" where
  "count_created s =
     s\<lparr>met := (met s)\<lparr>pendingCreate := pendingCreate (met s) - 1, createdTotal := createdTotal (met s) + 1\<rparr>\<rparr>"

fun create_loop ::
  "lib \<Rightarrow> 'w api \<Rightarrow> object list \<Rightarrow> object list \<Rightarrow> 'w st \<Rightarrow> go_error option \<times> object list \<times> 'w st" where
  "create_loop L A [] created s = (None, created, s)"
| "create_loop L A (obj # os) created s =
     (case api_create A obj (world s) of
        (Some e, obj', w) \<Rightarrow>
          (Some (wrap_error ''error creating LBaaS resource'' e), created @ refreshed obj obj' # os,
           count_create_error (s\<lparr>world := w\<rparr>))
      | (None, obj', w) \<Rightarrow>
          (case tagResource L A (refreshed obj obj') (s\<lparr>world := w\<rparr>) of
             (Some e, s') \<Rightarrow>
               (Some (wrap_error ''error tagging LBaaS resource'' e), created @ refreshed obj obj' # os,
                count_create_error s')
           | (None, s') \<Rightarrow> create_loop L A os (created @ [refreshed obj obj']) (count_created s')))"

section \<open>Reconcile\<close>

datatype control = Again | Return "go_error option"

definition count_total :: "'w st \<Rightarrow> 'w st" where
  "count_total s = s\<lparr>met := (met s)\<lparr>totalDurations := totalDurations (met s) + 1\<rparr>\<rparr>"

text \<open>The branch with something to destroy.\<close>

definition destroy_branch :: "lib \<Rightarrow> 'w api \<Rightarrow> object list \<Rightarrow> 'w st \<Rightarrow> (control \<times> 'w st) option" where
  "destroy_branch L A toDestroy s =
     (let s1 = s\<lparr>met := (met s)\<lparr>pendingDestroy := pendingDestroy (met s) + int (length toDestroy)\<rparr>\<rparr> in
      case mustStringifyObjects L toDestroy of
        Inl p \<Rightarrow> Some (Return (Some p), s1)
      | Inr _ \<Rightarrow>
          (case destroy_loop L A toDestroy True s1 of
             None \<Rightarrow> None
           | Some (Inl p, s2) \<Rightarrow> Some (Return (Some p), s2)
           | Some (Inr (rest, allowRetry), s2) \<Rightarrow>
               if rest \<noteq> [] \<and> \<not> allowRetry then
                 (case mustStringifyObjects L rest of
                    Inl p \<Rightarrow> Some (Return (Some p), s2)
                  | Inr _ \<Rightarrow> Some (Return (Some ErrResourcesNotDestroyable),
                               s2\<lparr>met := (met s2)\<lparr>deleteErrors := deleteErrors (met s2) + 1\<rparr>\<rparr>))
               else Some (Again, count_total s2)))"

text \<open>The branch with something to create.\<close>

definition create_branch :: "lib \<Rightarrow> 'w api \<Rightarrow> 'w backoff \<Rightarrow> object list \<Rightarrow> 'w st \<Rightarrow> control \<times> 'w st" where
  "create_branch L A B toCreate s =
     (case create_loop L A toCreate []
             (s\<lparr>met := (met s)\<lparr>pendingCreate := pendingCreate (met s) + int (length toCreate)\<rparr>\<rparr>) of
        (Some e, _, s1) \<Rightarrow> (Return (Some e), s1)
      | (None, created, s1) \<Rightarrow>
          (case mustStringifyObjects L created of
             Inl p \<Rightarrow> (Return (Some p), s1)
           | Inr _ \<Rightarrow>
               (case waitForResources L A B created s1 of (err, s2) \<Rightarrow>
                  if err \<noteq> None \<and> \<not> errors_is (the err) ErrLBaaSResourceFailed
                  then (Return err, s2\<lparr>met := (met s2)\<lparr>createErrors := createErrors (met s2) + 1\<rparr>\<rparr>)
                  else (Again, count_total (s2\<lparr>met := (met s2)\<lparr>createDurations := createDurations (met s2) + 1\<rparr>\<rparr>)))))"

text \<open>One round of the loop. After a wait for progressing objects both lists are still nil.\<close>

definition reconcile_round ::
  "lib \<Rightarrow> 'w api \<Rightarrow> 'w backoff \<Rightarrow> (nat \<Rightarrow> port_range) \<Rightarrow> 'w st \<Rightarrow> (control \<times> 'w st) option" where
  "reconcile_round L A B rngs s =
     (case ReconcileCheck L A rngs s of
        (Inl err, s1) \<Rightarrow>
          if \<not> errors_is err ErrLBaaSResourceProgressing then Some (Return (Some err), s1)
          else
            (case mustStringifyObjects L (existingProgressing (rcn s1)) of
               Inl p \<Rightarrow> Some (Return (Some p), s1)
             | Inr _ \<Rightarrow>
                 (case waitForResources L A B (existingProgressing (rcn s1)) s1 of
                    (Some e, s2) \<Rightarrow> Some (Return (Some e), s2)
                  | (None, s2) \<Rightarrow> Some (Return None, count_total s2)))
      | (Inr (toCreate, toDestroy), s1) \<Rightarrow>
          if toDestroy \<noteq> [] then destroy_branch L A toDestroy s1
          else if toCreate \<noteq> [] then Some (create_branch L A B toCreate s1)
          else Some (Return None, count_total s1))"

text \<open>The loop; \<open>orders n\<close> are the orders of the port ranges in round \<open>n\<close>.\<close>

partial_function (option) Reconcile_from ::
  "lib \<Rightarrow> 'w api \<Rightarrow> 'w backoff \<Rightarrow> (nat \<Rightarrow> nat \<Rightarrow> port_range) \<Rightarrow> nat \<Rightarrow> 'w st \<Rightarrow> (go_error option \<times> 'w st) option" where
  "Reconcile_from L A B orders n s =
     (case reconcile_round L A B (orders n) s of
        None \<Rightarrow> None
      | Some (Return err, s') \<Rightarrow> Some (err, s')
      | Some (Again, s') \<Rightarrow> Reconcile_from L A B orders (Suc n) s')"

definition Reconcile ::
  "lib \<Rightarrow> 'w api \<Rightarrow> 'w backoff \<Rightarrow> (nat \<Rightarrow> nat \<Rightarrow> port_range) \<Rightarrow> 'w st \<Rightarrow> (go_error option \<times> 'w st) option" where
  "Reconcile L A B orders s = Reconcile_from L A B orders 0 s"

declare destroy_loop.simps [code]
declare Reconcile_from.simps [code]

end
