(* ===== verification/LoopProps.thy ===== *)
theory LoopProps
  imports ReconLoop
begin

text \<open>
  The properties of \<open>Reconcile\<close>: what its success means, when it does not return, what the waits
  and the recovery of failed objects do, and how the metrics are kept.
\<close>

section \<open>The state a round keeps\<close>

lemma refreshed_kind [simp]: "object_state (refreshed obj obj') = None \<longleftrightarrow> object_state obj = None"
  by (cases obj) simp_all

lemma handleDestroyError_rcn: "rcn (snd (handleDestroyError L err new obj s)) = rcn s"
  by (simp add: handleDestroyError_def Let_def split: option.split sum.split)

lemma count_rcn [simp]:
  "rcn (count_deleted s) = rcn s" "rcn (count_total s) = rcn s" "rcn (count_created s) = rcn s"
  "rcn (count_create_error s) = rcn s" "world (count_deleted s) = world s"
  "world (count_created s) = world s" "world (count_create_error s) = world s"
  by (simp_all add: count_deleted_def count_total_def count_created_def count_create_error_def)

lemma destroy_pass_rcn: "rcn (snd (snd (destroy_pass L A os new allow s))) = rcn s"
proof (induction os arbitrary: new allow s)
  case (Cons obj os)
  obtain err obj' w where d: "api_destroy A obj (world s) = (err, obj', w)" by (cases "api_destroy A obj (world s)")
  obtain x s1 where h: "handleDestroyError L (ignoreNotFound L err) new (refreshed obj obj') (s\<lparr>world := w\<rparr>) = (x, s1)"
    by fastforce
  have "rcn s1 = rcn s"
    using handleDestroyError_rcn [of L "ignoreNotFound L err" new "refreshed obj obj'" "s\<lparr>world := w\<rparr>"] h by simp
  then show ?case using d h Cons.IH by (auto split: sum.split prod.split option.split)
qed simp

lemma destroy_loop_rcn:
  assumes "destroy_loop L A os allow s = Some y"
  shows "rcn (snd y) = rcn s"
proof (rule destroy_loop.raw_induct [where P = "\<lambda>L A os allow s y. rcn (snd y) = rcn s", OF _ assms], goal_cases)
  case (1 f L A os allow s y)
  obtain pe allow' s' where p: "destroy_pass L A os [] False s = (pe, allow', s')"
    by (cases "destroy_pass L A os [] False s")
  have "rcn s' = rcn s" using destroy_pass_rcn [of L A os "[]" False s] p by simp
  with 1(1) [of L A _ allow' s' y] 1(2) p show ?case by (cases pe) (auto split: if_splits)
qed

lemma tagResource_rcn: "tagResource L A obj s = (err, s') \<Longrightarrow> rcn s' = rcn s"
  by (auto simp: tagResource_def Let_def split: prod.splits)

lemma create_loop_rcn: "create_loop L A os created s = (err, created', s') \<Longrightarrow> rcn s' = rcn s"
proof (induction os arbitrary: created s)
  case (Cons obj os)
  obtain e obj' w where c: "api_create A obj (world s) = (e, obj', w)" by (cases "api_create A obj (world s)")
  obtain te s1 where t: "tagResource L A (refreshed obj obj') (s\<lparr>world := w\<rparr>) = (te, s1)" by fastforce
  show ?case
    using Cons.prems c t tagResource_rcn [OF t] Cons.IH by (auto split: option.splits)
qed simp

lemma waitForResources_rcn: "waitForResources L A B objs s = (err, s') \<Longrightarrow> rcn s' = rcn s \<and> met s' = met s"
  by (auto simp: waitForResources_def split: prod.splits)

lemma destroy_branch_rcn: "destroy_branch L A de s = Some (c, s') \<Longrightarrow> rcn s' = rcn s"
  by (auto simp: destroy_branch_def Let_def split: sum.splits option.splits if_splits prod.splits
      dest!: destroy_loop_rcn)

lemma create_branch_rcn: "create_branch L A B cr s = (c, s') \<Longrightarrow> rcn s' = rcn s"
  by (auto simp: create_branch_def split: sum.splits option.splits if_splits prod.splits
      dest!: create_loop_rcn waitForResources_rcn)

lemma reconcile_round_Again:
  assumes "lib_contract L" and "reconcile_round L A B rngs s = Some (Again, s')"
  shows "same_config (rcn s) (rcn s')"
proof -
  obtain cr de s1 where chk: "ReconcileCheck L A rngs s = (Inr (cr, de), s1)"
    using assms(2) by (auto simp: reconcile_round_def split: sum.splits prod.splits if_splits option.splits)
  then have "rcn s' = rcn s1"
    using assms(2)
    by (auto simp: reconcile_round_def split: if_splits dest: destroy_branch_rcn create_branch_rcn)
  with check_retrieved [OF assms(1) chk] show ?thesis by simp
qed

section \<open>What success means\<close>

text \<open>
  How a run that returns nil ends: some round either finds nothing to do, or it finds progressing
  objects and its wait succeeds.
\<close>

lemma Reconcile_from_success:
  assumes L: "lib_contract L" and run: "Reconcile_from L A B orders n s = Some y" and nil: "fst y = None"
  shows "\<exists>m s0. same_config (rcn s) (rcn s0) \<and> reconcile_round L A B (orders m) s0 = Some (Return None, snd y)"
proof -
  let ?P = "\<lambda>L A B orders n s y. lib_contract L \<longrightarrow> fst y = None \<longrightarrow>
    (\<exists>m s0. same_config (rcn s) (rcn s0) \<and> reconcile_round L A B (orders m) s0 = Some (Return None, snd y))"
  have "?P L A B orders n s y"
  proof (rule Reconcile_from.raw_induct [where P = ?P, OF _ run], goal_cases)
    case (1 f L A B orders n s y)
    then obtain c s1 where r: "reconcile_round L A B (orders n) s = Some (c, s1)"
      by (auto split: option.splits)
    show ?case
    proof (intro impI)
      assume L: "lib_contract L" and nil: "fst y = None"
      show "\<exists>m s0. same_config (rcn s) (rcn s0) \<and> reconcile_round L A B (orders m) s0 = Some (Return None, snd y)"
      proof (cases c)
        case (Return err)
        with r 1(2) nil have "reconcile_round L A B (orders n) s = Some (Return None, snd y)" by auto
        then show ?thesis by (intro exI [of _ n] exI [of _ s]) simp
      next
        case Again
        with r 1(2) have "f L A B orders (Suc n) s1 = Some y" by simp
        from 1(1) [OF this] nil L obtain m s0 where "same_config (rcn s1) (rcn s0)"
          "reconcile_round L A B (orders m) s0 = Some (Return None, snd y)" by blast
        with reconcile_round_Again [OF L r [unfolded Again]] same_config_trans show ?thesis by blast
      qed
    qed
  qed
  with L nil show ?thesis by blast
qed

definition ended_waiting ::
  "lib \<Rightarrow> 'w api \<Rightarrow> 'w backoff \<Rightarrow> (nat \<Rightarrow> nat \<Rightarrow> port_range) \<Rightarrow> 'w st \<Rightarrow> bool" where
  "ended_waiting L A B orders s' \<longleftrightarrow>
     (\<exists>m s0 e s1 s2. ReconcileCheck L A (orders m) s0 = (Inl e, s1) \<and>
        errors_is e ErrLBaaSResourceProgressing \<and>
        waitForResources L A B (existingProgressing (rcn s1)) s1 = (None, s2) \<and> s' = count_total s2)"

text \<open>How a run ends without an error: a quiet check of the same wanted state, or a successful wait.\<close>

lemma Reconcile_ends:
  assumes "lib_contract L" and "Reconcile L A B orders s = Some (None, s')"
  shows "ended_waiting L A B orders s' \<or>
    (\<exists>m s0 s1. same_config (rcn s) (rcn s0) \<and> ReconcileCheck L A (orders m) s0 = (Inr ([], []), s1) \<and> rcn s' = rcn s1)"
proof -
  obtain m s0 where cfg: "same_config (rcn s) (rcn s0)"
    and last: "reconcile_round L A B (orders m) s0 = Some (Return None, s')"
    using Reconcile_from_success [OF assms(1), of A B orders 0 s "(None, s')"] assms(2)
    by (auto simp: Reconcile_def)
  obtain res s1 where chk: "ReconcileCheck L A (orders m) s0 = (res, s1)" by fastforce
  show ?thesis
  proof (cases res)
    case (Inl e)
    then have "\<exists>s2. errors_is e ErrLBaaSResourceProgressing \<and>
        waitForResources L A B (existingProgressing (rcn s1)) s1 = (None, s2) \<and> s' = count_total s2"
      using last chk by (auto simp: reconcile_round_def split: if_splits sum.splits prod.splits option.splits)
    then show ?thesis using chk Inl unfolding ended_waiting_def by blast
  next
    case (Inr lists)
    obtain cr de where lists: "lists = (cr, de)" by fastforce
    have "cr = [] \<and> de = [] \<and> rcn s' = rcn s1"
      using last chk Inr lists
      by (auto simp: reconcile_round_def destroy_branch_def create_branch_def Let_def
          split: if_splits sum.splits prod.splits option.splits)
    with cfg chk Inr lists show ?thesis by blast
  qed
qed

text \<open>
  C13. When \<open>Reconcile\<close> returns nil, the last \<open>ReconcileCheck\<close> either showed the documented
  final result, or it reported objects still progressing and the wait for them succeeded: then the
  loop ends without another check, because both lists are nil.
\<close>

theorem Reconcile_success:
  assumes "lib_contract L" and "\<forall>n k. ranges_ok (rcn s) (orders n k)"
    and "Reconcile L A B orders s = Some (None, s')" and "frontends_complete (rcn s')"
  shows "ended_waiting L A B orders s' \<or>
    reconciled L (rcn s') \<and> owned (rcn s') \<and> (\<forall>x\<in>managed (rcn s'). obj_class L x = Ready)"
  using Reconcile_ends [OF assms(1,3)]
proof
  assume "\<exists>m s0 s1. same_config (rcn s) (rcn s0) \<and> ReconcileCheck L A (orders m) s0 = (Inr ([], []), s1) \<and> rcn s' = rcn s1"
  then obtain m s0 s1 where cfg: "same_config (rcn s) (rcn s0)" and eq: "rcn s' = rcn s1"
    and chk: "ReconcileCheck L A (orders m) s0 = (Inr ([], []), s1)" by blast
  have "\<forall>k. ranges_ok (rcn s0) (orders m k)" using assms(2) ranges_config [OF cfg] by simp
  from quiet_check_reconciled [OF assms(1) this chk] assms(4) eq show ?thesis by simp
qed simp

definition run_reconcile ::
  "ref_world api \<Rightarrow> (string \<times> port) list \<Rightarrow> ref_world \<Rightarrow> (go_error option \<times> ref_world st) option" where
  "run_reconcile A ps w = Reconcile ref_lib A ref_backoff (\<lambda>n k i. ps) (check_st ps w)"

definition empty_world :: ref_world where
  "empty_world = \<lparr>re_objects = [], re_tags = [], re_next = 1\<rparr>"

text \<open>From an empty Engine: a backend, then its frontend and server, then the bind, then nothing.\<close>

theorem Reconcile_success_witness:
  "\<exists>s'. run_reconcile ref_api http_ports empty_world = Some (None, s') \<and>
     (ended_waiting ref_lib ref_api ref_backoff (\<lambda>n k i. http_ports) s' \<or> reconciled ref_lib (rcn s')) \<and>
     map fst (re_objects (world s')) = [''id-1'', ''id-2'', ''id-3'', ''id-4'']"
proof -
  let ?run = "run_reconcile ref_api http_ports empty_world"
  have ev: "map_option (\<lambda>(e, s). (e, frontends_complete (rcn s), map fst (re_objects (world s)))) ?run =
      Some (None, True, [''id-1'', ''id-2'', ''id-3'', ''id-4''])"
    by code_simp
  then obtain s' where run: "?run = Some (None, s')" and fc: "frontends_complete (rcn s')"
    and objs: "map fst (re_objects (world s')) = [''id-1'', ''id-2'', ''id-3'', ''id-4'']"
    by auto
  have "\<forall>n k. ranges_ok (rcn (check_st http_ports empty_world)) ((\<lambda>n k i. http_ports) n k)"
    by (intro allI ranges_const [OF http_distinct(1), rule_format])
  from Reconcile_success [OF ref_lib_contract this run [unfolded run_reconcile_def] fc]
  have "ended_waiting ref_lib ref_api ref_backoff (\<lambda>n k i. http_ports) s' \<or> reconciled ref_lib (rcn s')"
    by (elim disj_forward) simp_all
  with run objs show ?thesis by (intro exI conjI)
qed

section \<open>Returning without reconciling\<close>

text \<open>Replacing operations a computation does not call does not change it.\<close>

lemma get_only:
  assumes "api_get A' = api_get A"
  shows "typed_retrieve L A' = typed_retrieve L A" and "retrieve_loop L A' = retrieve_loop L A"
    and "wait_pass L A' = wait_pass L A" and "wait_condition L A' = wait_condition L A"
    and "waitForResources L A' = waitForResources L A"
proof -
  show t: "typed_retrieve L A' = typed_retrieve L A"
    using assms
    by (simp add: fun_eq_iff typed_retrieve_def get_frontend_def get_backend_def get_bind_def get_server_def)
  show "retrieve_loop L A' = retrieve_loop L A"
  proof (intro ext)
    fix rts g show "retrieve_loop L A' rts g = retrieve_loop L A rts g"
      by (induction rts arbitrary: g) (simp_all add: t split: prod.split sum.split option.split)
  qed
  show w: "wait_pass L A' = wait_pass L A"
  proof (intro ext)
    fix first os seen nr fl w show "wait_pass L A' first os seen nr fl w = wait_pass L A first os seen nr fl w"
    proof (induction os arbitrary: seen nr fl w)
      case (Cons obj os)
      show ?case unfolding wait_pass.simps assms Cons.IH ..
    qed simp
  qed
  show c: "wait_condition L A' = wait_condition L A" unfolding fun_eq_iff wait_condition_def w by simp
  show "waitForResources L A' = waitForResources L A" unfolding fun_eq_iff waitForResources_def c by simp
qed

lemma retrieveState_get_list:
  assumes "api_get A' = api_get A" and "api_list A' = api_list A"
  shows "retrieveState L A' s = retrieveState L A s"
  unfolding retrieveState_def retrieveResources_def assms(2) get_only(2) [OF assms(1)] ..

lemma update_loop_update: "api_update A' = api_update A \<Longrightarrow> update_loop A' os w = update_loop A os w"
  by (induction os arbitrary: w) (simp_all split: prod.split option.split)

text \<open>
  C16. When the retrieval shows no failed and no updating but some progressing objects, and the wait
  for them succeeds, \<open>Reconcile\<close> returns nil at once: nothing has been created, destroyed or
  updated (whatever these operations would do), although the objects of the service may be wrong or
  missing. Its documentation says that reconciliation is complete once it returns without error.
\<close>

theorem Reconcile_skips_after_wait:
  assumes "identifier_contract L" and "retrieveState L A s = (None, s1)"
    and "existingFailed (rcn s1) = []" and "existingUpdating (rcn s1) = []" and "existingProgressing (rcn s1) \<noteq> []"
    and "waitForResources L A B (existingProgressing (rcn s1)) s1 = (None, s2)"
  shows "Reconcile L (A\<lparr>api_create := c, api_destroy := d, api_update := u\<rparr>) B orders s = Some (None, count_total s2)"
proof -
  let ?A = "A\<lparr>api_create := c, api_destroy := d, api_update := u\<rparr>"
  have same: "retrieveState L ?A s = retrieveState L A s" "waitForResources L ?A = waitForResources L A"
    by (rule retrieveState_get_list get_only(5); simp)+
  have "ReconcileCheck L ?A (orders 0) s = (Inl ErrLBaaSResourceProgressing, s1)"
    using assms(2-5) same(1) by (simp add: ReconcileCheck_def)
  moreover obtain ss where "mustStringifyObjects L (existingProgressing (rcn s1)) = Inr ss"
    using mustStringify_total [OF assms(1)] by metis
  ultimately have "reconcile_round L ?A B (orders 0) s = Some (Return None, count_total s2)"
    unfolding reconcile_round_def same(2) by (simp add: assms(6))
  then show ?thesis unfolding Reconcile_def by (subst Reconcile_from.simps) simp
qed

text \<open>An Engine whose objects are ready the next time they are read.\<close>

definition aging_api :: "ref_world api" where
  "aging_api = ref_api\<lparr>api_get := (\<lambda>obj w. case ref_get obj w of
     (e, x, w') \<Rightarrow> (e, x, w'\<lparr>re_objects := map (\<lambda>(i, y). (i, with_id i y)) (re_objects w')\<rparr>))\<rparr>"

definition progressing_world :: ref_world where
  "progressing_world =
     \<lparr>re_objects = [(''b1'', OBackend (wanted_backend\<lparr>be_state := \<lparr>state_id = ''2'', state_type = 2\<rparr>\<rparr>))],
      re_tags = [(''b1'', ''anxccm-svc-uid=uid'')], re_next = 2\<rparr>"

text \<open>The service of the witness has no frontend, no bind and no server when nil is returned.\<close>

theorem Reconcile_skips_after_wait_witness:
  "\<forall>c d u. \<exists>s'. run_reconcile (aging_api\<lparr>api_create := c, api_destroy := d, api_update := u\<rparr>) http_ports progressing_world =
     Some (None, s') \<and> map fst (re_objects (world s')) = [''b1'']"
proof (intro allI)
  fix c d u
  let ?s = "check_st http_ports progressing_world"
  let ?s1 = "snd (retrieveState ref_lib aging_api ?s)"
  let ?w = "waitForResources ref_lib aging_api ref_backoff (existingProgressing (rcn ?s1)) ?s1"
  have "fst (retrieveState ref_lib aging_api ?s) = None" by code_simp
  then have ret: "retrieveState ref_lib aging_api ?s = (None, ?s1)" by (metis prod.collapse)
  have st: "existingFailed (rcn ?s1) = []" "existingUpdating (rcn ?s1) = []" "existingProgressing (rcn ?s1) \<noteq> []"
    by code_simp+
  have "fst ?w = None" by code_simp
  then have wait: "?w = (None, snd ?w)" by (metis prod.collapse)
  have "map fst (re_objects (world (count_total (snd ?w)))) = [''b1'']" by code_simp
  moreover have "run_reconcile (aging_api\<lparr>api_create := c, api_destroy := d, api_update := u\<rparr>) http_ports
      progressing_world = Some (None, count_total (snd ?w))"
    unfolding run_reconcile_def by (rule Reconcile_skips_after_wait [OF ref_lib_identifier ret st wait])
  ultimately show "\<exists>s'. run_reconcile (aging_api\<lparr>api_create := c, api_destroy := d, api_update := u\<rparr>) http_ports
      progressing_world = Some (None, s') \<and> map fst (re_objects (world s')) = [''b1'']"
    by (intro exI conjI)
qed

end
