(* ===== verification/DestroyProps.thy ===== *)
theory DestroyProps
  imports LoopProps
begin

text \<open>
  The properties of the destroy and create branches of \<open>Reconcile\<close>: the retry loop, the rate
  limit, the metrics, the recovery of failed objects and the waits.
\<close>

section \<open>The destroy loop\<close>

text \<open>
  A pass that meets neither the rate limit nor a panic visits every object, keeps those whose
  \<open>Destroy\<close> failed, and always allows a retry; it counts every visited object as deleted.
\<close>

definition limited :: "lib \<Rightarrow> go_error option \<Rightarrow> bool" where
  "limited L err \<longleftrightarrow> (case ignoreNotFound L err of None \<Rightarrow> False | Some e \<Rightarrow> isRateLimitError L e)"

lemma destroy_pass_unlimited:
  assumes "identifier_contract L" and "\<forall>obj w. \<not> limited L (fst (api_destroy A obj w))"
  shows "\<exists>kept s'. destroy_pass L A os new allow s = (PassDone (new @ kept), allow \<or> os \<noteq> [], s') \<and>
    length kept \<le> length os \<and>
    deletedTotal (met s') = deletedTotal (met s) + length os \<and>
    pendingDestroy (met s') = pendingDestroy (met s) - int (length os) \<and>
    deleteRetries (met s') = deleteRetries (met s) + length kept"
proof (induction os arbitrary: new allow s)
  case (Cons obj os)
  obtain err obj' w where d: "api_destroy A obj (world s) = (err, obj', w)" by (cases "api_destroy A obj (world s)")
  have lim: "\<not> limited L err" using assms(2) d by (metis fst_conv)
  let ?o = "refreshed obj obj'"
  obtain str where str: "mustStringifyObject L ?o = Inr str" using mustStringify_total [OF assms(1)] by metis
  show ?case
  proof (cases "ignoreNotFound L err")
    case None
    obtain kept s' where "destroy_pass L A os new True (count_deleted (s\<lparr>world := w\<rparr>)) = (PassDone (new @ kept), True \<or> os \<noteq> [], s')"
      "length kept \<le> length os" "deletedTotal (met s') = deletedTotal (met s) + 1 + length os"
      "pendingDestroy (met s') = pendingDestroy (met s) - 1 - int (length os)"
      "deleteRetries (met s') = deleteRetries (met s) + length kept"
      using Cons.IH [of new True "count_deleted (s\<lparr>world := w\<rparr>)"] by (auto simp: count_deleted_def)
    then show ?thesis using d None by (intro exI [of _ kept] exI [of _ s']) (simp add: handleDestroyError_def)
  next
    case (Some e)
    let ?s = "count_deleted (s\<lparr>world := w, met := (met s)\<lparr>deleteRetries := deleteRetries (met s) + 1\<rparr>\<rparr>)"
    obtain kept s' where "destroy_pass L A os (new @ [?o]) True ?s = (PassDone ((new @ [?o]) @ kept), True \<or> os \<noteq> [], s')"
      "length kept \<le> length os" "deletedTotal (met s') = deletedTotal (met s) + 1 + length os"
      "pendingDestroy (met s') = pendingDestroy (met s) - 1 - int (length os)"
      "deleteRetries (met s') = deleteRetries (met s) + 1 + length kept"
      using Cons.IH [of "new @ [?o]" True ?s] by (auto simp: count_deleted_def)
    then show ?thesis
      using d Some lim str by (intro exI [of _ "?o # kept"] exI [of _ s']) (simp add: handleDestroyError_def limited_def)
  qed
qed simp

text \<open>Every object is kept when every \<open>Destroy\<close> fails.\<close>

definition destroy_fails :: "lib \<Rightarrow> 'w api \<Rightarrow> bool" where
  "destroy_fails L A \<longleftrightarrow> (\<forall>obj w. \<exists>e. ignoreNotFound L (fst (api_destroy A obj w)) = Some e \<and> \<not> isRateLimitError L e)"

lemma destroy_pass_fails:
  assumes "identifier_contract L" and "destroy_fails L A"
  shows "\<exists>kept s'. destroy_pass L A os new allow s = (PassDone (new @ kept), allow \<or> os \<noteq> [], s') \<and>
    length kept = length os"
proof (induction os arbitrary: new allow s)
  case (Cons obj os)
  obtain err obj' w where d: "api_destroy A obj (world s) = (err, obj', w)" by (cases "api_destroy A obj (world s)")
  obtain e where e: "ignoreNotFound L err = Some e" "\<not> isRateLimitError L e"
    using assms(2) d unfolding destroy_fails_def by (metis fst_conv)
  let ?o = "refreshed obj obj'"
  obtain str where str: "mustStringifyObject L ?o = Inr str" using mustStringify_total [OF assms(1)] by metis
  let ?s = "count_deleted (s\<lparr>world := w, met := (met s)\<lparr>deleteRetries := deleteRetries (met s) + 1\<rparr>\<rparr>)"
  obtain kept s' where "destroy_pass L A os (new @ [?o]) True ?s = (PassDone ((new @ [?o]) @ kept), True \<or> os \<noteq> [], s')"
    "length kept = length os"
    using Cons.IH [of "new @ [?o]" True ?s] by blast
  then show ?case
    using d e str by (intro exI [of _ "?o # kept"] exI [of _ s']) (simp add: handleDestroyError_def)
qed simp

lemma destroy_loop_diverges:
  assumes "identifier_contract L" and "destroy_fails L A" and "os \<noteq> []"
  shows "destroy_loop L A os True s = None"
proof (rule ccontr)
  assume "destroy_loop L A os True s \<noteq> None"
  then obtain y where run: "destroy_loop L A os True s = Some y" by blast
  let ?P = "\<lambda>L A os allow s y. \<not> (identifier_contract L \<and> destroy_fails L A \<and> os \<noteq> [] \<and> allow)"
  have "?P L A os True s y"
  proof (rule destroy_loop.raw_induct [where P = ?P, OF _ run], goal_cases)
    case (1 f L A os allow s y)
    show ?case
    proof
      assume asm: "identifier_contract L \<and> destroy_fails L A \<and> os \<noteq> [] \<and> allow"
      then obtain kept s' where p: "destroy_pass L A os [] False s = (PassDone kept, True, s')" and "kept \<noteq> []"
        using destroy_pass_fails [of L A os "[]" False s] by fastforce
      from 1(2) p asm have "f L A kept True s' = Some y" by simp
      from 1(1) [OF this] asm \<open>kept \<noteq> []\<close> show False by simp
    qed
  qed
  with assms show False by blast
qed

text \<open>
  C17. Destroy failures other than the rate limit are retried forever: \<open>handleDestroyError\<close> swallows
  them, so \<open>allowRetry\<close> is set although nothing was destroyed, and when they persist
  \<open>Reconcile\<close> does not return. (\<open>ErrResourcesNotDestroyable\<close> is documented for this case.)
\<close>

theorem Reconcile_destroy_failure_diverges:
  assumes "identifier_contract L" and "destroy_fails L A"
    and "ReconcileCheck L A (orders 0) s = (Inr (toCreate, toDestroy), s1)" and "toDestroy \<noteq> []"
  shows "Reconcile L A B orders s = None"
proof -
  obtain ss where "mustStringifyObjects L toDestroy = Inr ss" using mustStringify_total [OF assms(1)] by metis
  then have "destroy_branch L A toDestroy s1 = None"
    by (simp add: destroy_branch_def Let_def destroy_loop_diverges [OF assms(1,2,4)])
  then have "reconcile_round L A B (orders 0) s = None"
    using assms(3,4) by (simp add: reconcile_round_def)
  then show ?thesis unfolding Reconcile_def by (subst Reconcile_from.simps) simp
qed

definition stuck_api :: "ref_world api" where
  "stuck_api = ref_api\<lparr>api_destroy := (\<lambda>obj w. (Some (HTTPError 409), obj, w))\<rparr>"

theorem Reconcile_destroy_failure_diverges_witness: "run_reconcile stuck_api [] wanted_world = None"
proof -
  let ?chk = "ReconcileCheck ref_lib stuck_api (\<lambda>k i. []) (check_st [] wanted_world)"
  let ?de = "[OBackend wanted_backend, OFrontend wanted_frontend, OBind wanted_bind, OServer wanted_server]"
  have "destroy_fails ref_lib stuck_api" by (simp add: destroy_fails_def stuck_api_def ref_lib_def)
  moreover have "?chk = (Inr ([], ?de), snd ?chk)"
  proof -
    have "fst ?chk = Inr ([], ?de)" by code_simp
    then show ?thesis by (metis prod.collapse)
  qed
  moreover have "?de \<noteq> []" by (rule list.distinct(2))
  ultimately show ?thesis
    unfolding run_reconcile_def by (rule Reconcile_destroy_failure_diverges [OF ref_lib_identifier])
qed

text \<open>
  The metrics of a pass over \<open>os\<close>, without rate limit: every object counts as deleted and
  leaves the pending gauge, also those whose \<open>Destroy\<close> failed and which are visited again. So
  after a second pass over \<open>n > 0\<close> objects that were added once, the gauge is too low by \<open>n\<close>.
\<close>

theorem destroy_pass_counts_failures:
  assumes "identifier_contract L" and "\<forall>obj w. \<not> limited L (fst (api_destroy A obj w))"
  shows "\<exists>kept s'. destroy_pass L A os [] False s = (PassDone kept, os \<noteq> [], s') \<and>
    deletedTotal (met s') = deletedTotal (met s) + length os \<and>
    pendingDestroy (met s') = pendingDestroy (met s) - int (length os) \<and>
    deleteRetries (met s') = deleteRetries (met s) + length kept"
  using destroy_pass_unlimited [OF assms, of os "[]" False s] by auto

theorem destroy_pass_counts_failures_witness:
  "\<exists>kept s'. destroy_pass ref_lib stuck_api [OBackend wanted_backend] [] False sample_st =
      (PassDone kept, True, s') \<and>
    kept = [OBackend wanted_backend] \<and> deletedTotal (met s') = 1 \<and> pendingDestroy (met s') = -1"
proof -
  have "\<forall>obj w. \<not> limited ref_lib (fst (api_destroy stuck_api obj w))"
    by (simp add: limited_def stuck_api_def ref_lib_def)
  from destroy_pass_counts_failures [OF ref_lib_identifier this, of "[OBackend wanted_backend]" sample_st]
  obtain kept s' where p: "destroy_pass ref_lib stuck_api [OBackend wanted_backend] [] False sample_st = (PassDone kept, True, s')"
    and m: "deletedTotal (met s') = 1" "pendingDestroy (met s') = -1"
    by (auto simp: sample_st_def zero_metrics_def)
  moreover have "fst (destroy_pass ref_lib stuck_api [OBackend wanted_backend] [] False sample_st) =
      PassDone [OBackend wanted_backend]" by code_simp
  ultimately show ?thesis by (intro exI [of _ kept] exI [of _ s']) simp
qed

text \<open>
  C25. A rate limit that hits the first object of the destroy list ends \<open>Reconcile\<close> with
  \<open>ErrResourcesNotDestroyable\<close>, which hides the rate-limit error and its \<open>RetryAfter\<close> from the
  caller: \<open>errors.As\<close> finds no rate limit in what is returned.
\<close>

theorem Reconcile_rate_limit_hidden:
  assumes "identifier_contract L" and "not_found_contract L"
    and "ReconcileCheck L A (orders 0) s = (Inr (toCreate, obj # os), s1)"
    and "fst (api_destroy A obj (world s1)) = Some e" and "as_http e \<noteq> Some 404" and "isRateLimitError L e"
  shows "\<exists>s'. Reconcile L A B orders s = Some (Some ErrResourcesNotDestroyable, s') \<and>
    deleteErrors (met s') = deleteErrors (met s1) + 1 \<and> as_rate_limit ErrResourcesNotDestroyable = None"
proof -
  let ?s = "s1\<lparr>met := (met s1)\<lparr>pendingDestroy := pendingDestroy (met s1) + int (length (obj # os))\<rparr>\<rparr>"
  obtain obj' w where d: "api_destroy A obj (world s1) = (Some e, obj', w)" using assms(4) by (metis prod.collapse)
  have e: "ignoreNotFound L (Some e) = Some e" using assms(2,5) by (simp add: not_found_contract_def)
  let ?s2 = "?s\<lparr>world := w, met := (met ?s)\<lparr>deleteRetries := deleteRetries (met s1) + 1\<rparr>\<rparr>"
  have "destroy_pass L A (obj # os) [] False ?s = (PassAborted, False, ?s2)"
    using d e assms(6) by (simp add: handleDestroyError_def)
  then have loop: "destroy_loop L A (obj # os) True ?s = Some (Inr (obj # os, False), ?s2)"
    by (subst destroy_loop.simps) simp
  obtain ss where "mustStringifyObjects L (obj # os) = Inr ss" using mustStringify_total [OF assms(1)] by metis
  then have "\<exists>s'. destroy_branch L A (obj # os) s1 = Some (Return (Some ErrResourcesNotDestroyable), s') \<and>
      deleteErrors (met s') = deleteErrors (met s1) + 1"
    using loop by (simp add: destroy_branch_def Let_def)
  then obtain s' where "reconcile_round L A B (orders 0) s = Some (Return (Some ErrResourcesNotDestroyable), s')"
      "deleteErrors (met s') = deleteErrors (met s1) + 1"
    using assms(3) by (auto simp: reconcile_round_def)
  then show ?thesis
    unfolding Reconcile_def by (subst Reconcile_from.simps) (simp add: ErrResourcesNotDestroyable_def)
qed

definition limited_api :: "ref_world api" where
  "limited_api = ref_api\<lparr>api_destroy := (\<lambda>obj w. (Some (RateLimitError 60), obj, w))\<rparr>"

theorem Reconcile_rate_limit_hidden_witness:
  "\<exists>s'. run_reconcile limited_api [] wanted_world = Some (Some ErrResourcesNotDestroyable, s') \<and>
     deleteErrors (met s') = 1"
proof -
  let ?chk = "ReconcileCheck ref_lib limited_api (\<lambda>k i. []) (check_st [] wanted_world)"
  let ?de = "[OBackend wanted_backend, OFrontend wanted_frontend, OBind wanted_bind, OServer wanted_server]"
  have "fst ?chk = Inr ([], ?de)" by code_simp
  then have chk: "?chk = (Inr ([], ?de), snd ?chk)" by (metis prod.collapse)
  have met: "deleteErrors (met (snd ?chk)) = 0" by code_simp
  have "fst (api_destroy limited_api (OBackend wanted_backend) (world (snd ?chk))) = Some (RateLimitError 60)"
    by (simp add: limited_api_def)
  moreover have "isRateLimitError ref_lib (RateLimitError 60)" by (simp add: ref_lib_def)
  ultimately show ?thesis
    using Reconcile_rate_limit_hidden [OF ref_lib_identifier ref_lib_not_found,
        where orders = "\<lambda>n k i. []", OF chk, where e = "RateLimitError 60" and B = ref_backoff] met
    unfolding run_reconcile_def by auto
qed

text \<open>A destroy list whose objects can all be destroyed is gone after one pass.\<close>

lemma destroy_pass_succeeds:
  assumes "\<forall>obj w. ignoreNotFound L (fst (api_destroy A obj w)) = None"
  shows "\<exists>s'. destroy_pass L A os new allow s = (PassDone new, allow \<or> os \<noteq> [], s') \<and>
    met s' = (met s)\<lparr>deletedTotal := deletedTotal (met s) + length os,
                     pendingDestroy := pendingDestroy (met s) - int (length os)\<rparr>"
proof (induction os arbitrary: new allow s)
  case (Cons obj os)
  obtain err obj' w where d: "api_destroy A obj (world s) = (err, obj', w)" by (cases "api_destroy A obj (world s)")
  have "ignoreNotFound L err = None" using assms d by (metis fst_conv)
  then show ?case
    using d Cons.IH [of new True "count_deleted (s\<lparr>world := w\<rparr>)"]
    by (auto simp: handleDestroyError_def count_deleted_def)
qed simp

text \<open>
  When every \<open>Destroy\<close> succeeds (or reports that the object is gone), the destroy branch ends
  after one pass and starts another round, with the pending gauge where it was and every object
  counted once as deleted.
\<close>

theorem destroy_branch_success:
  assumes "identifier_contract L" and "\<forall>obj w. ignoreNotFound L (fst (api_destroy A obj w)) = None"
  shows "\<exists>s'. destroy_branch L A os s = Some (Again, s') \<and> rcn s' = rcn s \<and>
    pendingDestroy (met s') = pendingDestroy (met s) \<and>
    deletedTotal (met s') = deletedTotal (met s) + length os \<and>
    deleteErrors (met s') = deleteErrors (met s)"
proof -
  let ?s = "s\<lparr>met := (met s)\<lparr>pendingDestroy := pendingDestroy (met s) + int (length os)\<rparr>\<rparr>"
  obtain ss where ss: "mustStringifyObjects L os = Inr ss" using mustStringify_total [OF assms(1)] by metis
  obtain s1 where p: "destroy_pass L A os [] False ?s = (PassDone [], os \<noteq> [], s1)"
    and m: "met s1 = (met s)\<lparr>deletedTotal := deletedTotal (met s) + length os\<rparr>"
    using destroy_pass_succeeds [OF assms(2), of os "[]" False ?s] by auto
  have nil: "destroy_loop L A [] allow s2 = Some (Inr ([], allow), s2)" for allow s2
    by (subst destroy_loop.simps) simp
  show ?thesis
  proof (cases "os = []")
    case True
    then show ?thesis using ss nil by (simp add: destroy_branch_def Let_def count_total_def)
  next
    case False
    then have "destroy_loop L A os True ?s = Some (Inr ([], True), s1)"
      using p nil by (subst destroy_loop.simps) simp
    moreover from this have "rcn s1 = rcn s" using destroy_loop_rcn [of L A os True ?s] by fastforce
    ultimately show ?thesis using ss m by (simp add: destroy_branch_def Let_def count_total_def)
  qed
qed

definition gone_api :: "ref_world api" where
  "gone_api = ref_api\<lparr>api_destroy := (\<lambda>obj w. (Some (HTTPError 404), obj, w))\<rparr>"

theorem destroy_branch_success_witness:
  "\<exists>s'. destroy_branch ref_lib gone_api [OBackend wanted_backend, OServer wanted_server] sample_st = Some (Again, s') \<and>
     deletedTotal (met s') = 2 \<and> pendingDestroy (met s') = 0"
proof -
  have "\<forall>obj w. ignoreNotFound ref_lib (fst (api_destroy gone_api obj w)) = None"
    by (simp add: gone_api_def ref_lib_def)
  from destroy_branch_success [OF ref_lib_identifier this, of "[OBackend wanted_backend, OServer wanted_server]" sample_st]
  show ?thesis by (auto simp: sample_st_def zero_metrics_def)
qed

section \<open>The create branch\<close>

text \<open>
  The pending gauge of the create loop. Without an error each of the \<open>n\<close> objects leaves it.
  On an error only the objects handled so far and the failing one leave it: \<open>n - created - 1\<close>
  stay pending for good, although the comment there says it is decremented "to prevent leakage".
\<close>

theorem create_loop_gauge:
  shows "case create_loop L A os created s of (err, created', s') \<Rightarrow>
     pendingCreate (met s') = pendingCreate (met s) - int (createdTotal (met s') - createdTotal (met s))
       - (if err = None then 0 else 1) \<and>
     createErrors (met s') = createErrors (met s) + (if err = None then 0 else 1) \<and>
     createdTotal (met s) \<le> createdTotal (met s') \<and>
     (if err = None then createdTotal (met s') = createdTotal (met s) + length os
      else createdTotal (met s') < createdTotal (met s) + length os)"
proof (induction os arbitrary: created s)
  case (Cons obj os)
  obtain e obj' w where c: "api_create A obj (world s) = (e, obj', w)" by (cases "api_create A obj (world s)")
  show ?case
  proof (cases e)
    case (Some err)
    then show ?thesis using c by (simp add: count_create_error_def)
  next
    case None
    obtain te s1 where t: "tagResource L A (refreshed obj obj') (s\<lparr>world := w\<rparr>) = (te, s1)" by fastforce
    then have m: "met s1 = met s" by (auto simp: tagResource_def Let_def split: prod.splits)
    show ?thesis
    proof (cases te)
      case (Some err)
      then show ?thesis using c None t m by (simp add: count_create_error_def)
    next
      case tn: None
      let ?s = "count_created s1"
      obtain err created' s' where r: "create_loop L A os (created @ [refreshed obj obj']) ?s = (err, created', s')"
        by (cases "create_loop L A os (created @ [refreshed obj obj']) ?s")
      have step: "create_loop L A (obj # os) created s = (err, created', s')" using c None t tn r by simp
      show ?thesis
        using Cons.IH [of ?s "created @ [refreshed obj obj']"] m unfolding r step
        by (auto simp: count_created_def split: if_splits)
    qed
  qed
qed simp

section \<open>Recovery of failed objects\<close>

lemma ReconcileCheck_gate:
  assumes "api_get A' = api_get A" and "api_list A' = api_list A" and "api_update A' = api_update A"
  shows "ReconcileCheck L A' rngs s = ReconcileCheck L A rngs s"
  unfolding ReconcileCheck_def updateFailedResources_def retrieveState_get_list [OF assms(1,2)]
    update_loop_update [OF assms(3)] ..


definition failed_world :: ref_world where
  "failed_world =
     \<lparr>re_objects = [(''b1'', OBackend (wanted_backend\<lparr>be_state := \<lparr>state_id = ''3'', state_type = 1\<rparr>\<rparr>)),
        (''s1'', OServer wanted_server)],
      re_tags = [(''b1'', ''anxccm-svc-uid=uid''), (''s1'', ''anxccm-svc-uid=uid'')], re_next = 2\<rparr>"


section \<open>Waiting\<close>

text \<open>The state predicates of the library exclude each other, as its documentation says.\<close>

definition state_contract :: "lib \<Rightarrow> bool" where
  "state_contract L \<longleftrightarrow> (\<forall>s. stateOK L s \<longrightarrow> \<not> stateError L s \<and> \<not> statePending L s)"

lemma wait_pass_ready:
  assumes "state_contract L"
    and "wait_pass L A first os seen [] [] w = (Inr ([], []), seen', w')" and "\<forall>x\<in>set seen. obj_class L x = Ready"
  shows "(\<forall>x\<in>set seen'. obj_class L x = Ready) \<and> length seen' = length seen + length os"
proof -
  have nr: "wait_pass L A first os seen nr fl w = (Inr (nr', fl'), seen', w') \<Longrightarrow>
      length nr \<le> length nr' \<and> length fl \<le> length fl'" for os seen nr fl nr' fl' w
  proof (induction os arbitrary: seen nr fl w)
    case (Cons obj os)
    then show ?case
      by (fastforce simp: Let_def split: option.splits sum.splits prod.splits if_splits)
  qed simp
  show ?thesis
    using assms(2,3)
  proof (induction os arbitrary: seen w)
    case (Cons obj os)
    note run = Cons.prems(1)
    obtain st where st: "object_state obj = Some st" using run by (cases "object_state obj") (auto split: sum.splits)
    have go: ?case if "wait_pass L A first os (seen @ [x]) [] [] v = (Inr ([], []), seen', w')" "obj_class L x = Ready" for x v
      using Cons.IH [OF that(1)] that(2) Cons.prems(2) by auto
    show ?case
    proof (cases "stateOK L st \<and> \<not> isResourceUpdating L obj \<and> \<not> first")
      case True
      then have "obj_class L obj = Ready" using st assms(1) by (simp add: obj_class_def state_contract_def)
      with True run st go show ?thesis by simp
    next
      case False
      obtain e obj' v where g: "api_get A obj w = (e, obj', v)" by (cases "api_get A obj w")
      let ?cur = "refreshed obj obj'"
      obtain cs where cs: "object_state ?cur = Some cs"
        using refreshed_kind [of obj obj'] st by (cases "object_state ?cur") auto
      have ne: "e = None"
      proof (rule ccontr)
        assume "e \<noteq> None"
        with run st False g obtain str where "wait_pass L A first os (seen @ [?cur]) [] [?cur] v = (Inr ([], []), seen', w')"
          by (auto split: sum.splits)
        from nr [OF this] show False by simp
      qed
      have pend: "\<not> (isResourceUpdating L ?cur \<or> statePending L cs)"
      proof
        assume "isResourceUpdating L ?cur \<or> statePending L cs"
        with run st False g ne cs have "wait_pass L A first os (seen @ [?cur]) [?cur] [] v = (Inr ([], []), seen', w')"
          by (simp add: Let_def)
        from nr [OF this] show False by simp
      qed
      have err: "\<not> stateError L cs"
      proof
        assume "stateError L cs"
        with run st False g ne cs pend have "wait_pass L A first os (seen @ [?cur]) [] [?cur] v = (Inr ([], []), seen', w')"
          by (simp add: Let_def)
        from nr [OF this] show False by simp
      qed
      have "obj_class L ?cur = Ready" using cs pend err by (simp add: obj_class_def)
      moreover have "wait_pass L A first os (seen @ [?cur]) [] [] v = (Inr ([], []), seen', w')"
        using run st False g ne cs pend err by (simp add: Let_def)
      ultimately show ?thesis using go by blast
    qed
  qed simp
qed

lemma wait_condition_done:
  assumes "state_contract L" and "wait_condition L A s = (Inr True, s')"
  shows "(\<forall>x\<in>set (w_objects s'). obj_class L x = Ready) \<and> length (w_objects s') = length (w_objects s)"
proof -
  obtain r seen w where p: "wait_pass L A (firstPass s) (w_objects s) [] [] [] (w_world s) = (r, seen, w)"
    by (cases "wait_pass L A (firstPass s) (w_objects s) [] [] [] (w_world s)")
  have "r = Inr ([], [])" and "w_objects s' = seen"
    using assms(2) p by (auto simp: wait_condition_def Let_def split: sum.splits prod.splits if_splits)
  with wait_pass_ready [OF assms(1), of A "firstPass s" "w_objects s" "[]" "w_world s" seen w] p show ?thesis
    by simp
qed

lemma wait_pass_length:
  "wait_pass L A first os seen nr fl w = (res, seen', w') \<Longrightarrow> length seen' = length seen + length os"
proof (induction os arbitrary: seen nr fl w)
  case (Cons obj os)
  then show ?case by (fastforce simp: Let_def split: option.splits sum.splits prod.splits if_splits)
qed simp

lemma wait_condition_length: "wait_condition L A s = (res, s') \<Longrightarrow> length (w_objects s') = length (w_objects s)"
  by (auto simp: wait_condition_def Let_def split: sum.splits prod.splits if_splits dest: wait_pass_length)

inductive_cases polled_cases: "polled timeout f s err s'"



end
