(* ===== verification/Engine.thy ===== *)
theory Engine
  imports DestroyProps
begin

text \<open>
  A contract for the Engine: what \<open>api.API\<close> does to the stored objects and their tags when every
  call is served and objects are ready at once. An Engine of this kind may refuse to destroy an
  object others refer to. The concrete Engine of \<open>Objects\<close> meets the contract. From it follows what a
  retrieval returns: exactly our objects.
\<close>

section \<open>What the Engine stores\<close>

record engine_view =
  ev_store :: "string \<rightharpoonup> object"
  ev_tags :: "(string \<times> string) set"

text \<open>A stored object has its identifier, is ready, and as a frontend complete.\<close>

definition stored :: "lib \<Rightarrow> string \<Rightarrow> object \<Rightarrow> bool" where
  "stored L i x \<longleftrightarrow> i \<noteq> [] \<and> ref_identifier x = i \<and> getObjectIdentifier L x = Inr i \<and> obj_class L x = Ready \<and>
     (\<forall>f. x = OFrontend f \<longrightarrow> fe_lb f \<noteq> None \<and> fe_backend f \<noteq> None)"

text \<open>References between objects.\<close>

fun child_of :: "object \<Rightarrow> object \<Rightarrow> bool" where
  "child_of (OFrontend f) (OBackend b) = (fe_backend f = Some (be_id b))"
| "child_of (OBind bi) (OFrontend f) = (bi_frontend bi = fe_id f)"
| "child_of (OServer s) (OBackend b) = (se_backend s = be_id b)"
| "child_of _ _ = False"

fun parent_ok :: "(string \<rightharpoonup> object) \<Rightarrow> object \<Rightarrow> bool" where
  "parent_ok st (OBackend b) = True"
| "parent_ok st (OFrontend f) = (fe_lb f \<noteq> None \<and> (\<exists>i b. fe_backend f = Some i \<and> st i = Some (OBackend b)))"
| "parent_ok st (OBind bi) = (\<exists>f. st (bi_frontend bi) = Some (OFrontend f))"
| "parent_ok st (OServer s) = (\<exists>b. st (se_backend s) = Some (OBackend b))"
| "parent_ok st _ = False"

text \<open>The object the Engine makes of a wanted one: its own identifier and state.\<close>

fun created_as :: "object \<Rightarrow> string \<Rightarrow> object \<Rightarrow> bool" where
  "created_as (OBackend b) i x = (\<exists>st. x = OBackend (b\<lparr>be_id := i, be_state := st\<rparr>))"
| "created_as (OFrontend f) i x = (\<exists>st. x = OFrontend (f\<lparr>fe_id := i, fe_state := st\<rparr>))"
| "created_as (OBind bi) i x = (\<exists>st. x = OBind (bi\<lparr>bi_id := i, bi_state := st\<rparr>))"
| "created_as (OServer s) i x = (\<exists>st. x = OServer (s\<lparr>se_id := i, se_state := st\<rparr>))"
| "created_as _ i x = False"

section \<open>The contract\<close>

text \<open>
  \<open>V\<close> reads the stored objects from a world, \<open>ok\<close> is what holds of all its worlds.
\<close>

definition has_tags :: "engine_view \<Rightarrow> string list \<Rightarrow> string \<Rightarrow> bool" where
  "has_tags v ts i \<longleftrightarrow> (\<forall>t\<in>set ts. (i, t) \<in> ev_tags v)"

definition stores_objects :: "lib \<Rightarrow> ('w \<Rightarrow> bool) \<Rightarrow> ('w \<Rightarrow> engine_view) \<Rightarrow> bool" where
  "stores_objects L ok V \<longleftrightarrow> (\<forall>w i x. ok w \<longrightarrow> ev_store (V w) i = Some x \<longrightarrow> stored L i x)"

definition serves_get :: "'w api \<Rightarrow> ('w \<Rightarrow> bool) \<Rightarrow> ('w \<Rightarrow> engine_view) \<Rightarrow> bool" where
  "serves_get A ok V \<longleftrightarrow>
     (\<forall>w obj x. ok w \<longrightarrow> ev_store (V w) (ref_identifier obj) = Some x \<longrightarrow> same_type obj x \<longrightarrow>
        (\<exists>w'. api_get A obj w = (None, x, w') \<and> ok w' \<and> V w' = V w))"

definition lists_object :: "('w \<Rightarrow> bool) \<Rightarrow> ('w \<Rightarrow> engine_view) \<Rightarrow> engine_view \<Rightarrow> string \<Rightarrow> 'w retriever \<Rightarrow> bool" where
  "lists_object ok V v i rt \<longleftrightarrow>
     (\<forall>w. ok w \<longrightarrow> V w = v \<longrightarrow>
        (\<exists>w'. rt w = (Inr \<lparr>res_id = i, res_type = type_identifier (the (ev_store v i))\<rparr>, w') \<and> ok w' \<and> V w' = v))"

definition serves_list :: "'w api \<Rightarrow> ('w \<Rightarrow> bool) \<Rightarrow> ('w \<Rightarrow> engine_view) \<Rightarrow> bool" where
  "serves_list A ok V \<longleftrightarrow>
     (\<forall>w ts. ok w \<longrightarrow>
        (\<exists>e rts w' ids. api_list A True ts w = (e, rts, w') \<and> ok w' \<and> V w' = V w \<and>
           set ids = {i \<in> dom (ev_store (V w)). has_tags (V w) ts i} \<and>
           (e = None \<and> list_all2 (lists_object ok V (V w)) ids rts \<or>
            (\<exists>err. e = Some err \<and> as_http err = Some 422 \<and> ids = []))))"

text \<open>A new object has an identifier that nothing uses or refers to.\<close>

definition childless :: "engine_view \<Rightarrow> object \<Rightarrow> bool" where
  "childless v x \<longleftrightarrow> \<not> (\<exists>j y. ev_store v j = Some y \<and> child_of y x)"

definition serves_create :: "'w api \<Rightarrow> ('w \<Rightarrow> bool) \<Rightarrow> ('w \<Rightarrow> engine_view) \<Rightarrow> bool" where
  "serves_create A ok V \<longleftrightarrow>
     (\<forall>w obj. ok w \<longrightarrow> parent_ok (ev_store (V w)) obj \<longrightarrow>
        (\<exists>i x w'. api_create A obj w = (None, x, w') \<and> ok w' \<and> created_as obj i x \<and>
           ev_store (V w) i = None \<and> (\<forall>t. (i, t) \<notin> ev_tags (V w)) \<and> childless (V w) x \<and>
           V w' = (V w)\<lparr>ev_store := (ev_store (V w))(i \<mapsto> x)\<rparr>))"

definition serves_tag :: "'w api \<Rightarrow> ('w \<Rightarrow> bool) \<Rightarrow> ('w \<Rightarrow> engine_view) \<Rightarrow> bool" where
  "serves_tag A ok V \<longleftrightarrow>
     (\<forall>w i t. ok w \<longrightarrow> i \<in> dom (ev_store (V w)) \<longrightarrow>
        (\<exists>obj w'. api_create A (OResourceWithTag i t) w = (None, obj, w') \<and> ok w' \<and>
           V w' = (V w)\<lparr>ev_tags := insert (i, t) (ev_tags (V w))\<rparr>))"

text \<open>
  Destroying succeeds, or is refused with some other error than 404 or the rate limit while children
  exist; an object that is gone is a 404.
\<close>

definition same_other_tags :: "string \<Rightarrow> engine_view \<Rightarrow> engine_view \<Rightarrow> bool" where
  "same_other_tags i v v' \<longleftrightarrow> (\<forall>j t. j \<noteq> i \<longrightarrow> ((j, t) \<in> ev_tags v' \<longleftrightarrow> (j, t) \<in> ev_tags v))"

definition serves_destroy :: "lib \<Rightarrow> 'w api \<Rightarrow> ('w \<Rightarrow> bool) \<Rightarrow> ('w \<Rightarrow> engine_view) \<Rightarrow> bool" where
  "serves_destroy L A ok V \<longleftrightarrow>
     (\<forall>w i x. ok w \<longrightarrow> ev_store (V w) i = Some x \<longrightarrow>
        (\<exists>w'. api_destroy A x w = (None, x, w') \<and> ok w' \<and> ev_store (V w') = (ev_store (V w))(i := None) \<and>
           same_other_tags i (V w) (V w')) \<or>
        (\<exists>e w' j y. api_destroy A x w = (Some e, x, w') \<and> ok w' \<and> V w' = V w \<and>
           ev_store (V w) j = Some y \<and> child_of y x \<and> as_http e \<noteq> Some 404 \<and> \<not> isRateLimitError L e))"

definition gone_is_404 :: "'w api \<Rightarrow> ('w \<Rightarrow> bool) \<Rightarrow> ('w \<Rightarrow> engine_view) \<Rightarrow> bool" where
  "gone_is_404 A ok V \<longleftrightarrow>
     (\<forall>w x. ok w \<longrightarrow> ev_store (V w) (ref_identifier x) = None \<longrightarrow>
        (\<exists>e w'. api_destroy A x w = (Some e, x, w') \<and> ok w' \<and> V w' = V w \<and> as_http e = Some 404))"

definition engine_contract :: "lib \<Rightarrow> 'w api \<Rightarrow> ('w \<Rightarrow> bool) \<Rightarrow> ('w \<Rightarrow> engine_view) \<Rightarrow> bool" where
  "engine_contract L A ok V \<longleftrightarrow>
     stores_objects L ok V \<and> serves_get A ok V \<and> serves_list A ok V \<and> serves_create A ok V \<and>
     serves_tag A ok V \<and> serves_destroy L A ok V \<and> gone_is_404 A ok V"

text \<open>\<open>compare.Reconcile\<close> creates no wanted object twice.\<close>

definition creates_once :: "'a reconciler \<Rightarrow> bool" where
  "creates_once cmp \<longleftrightarrow>
     (\<forall>attrs target existing target' c d. cmp attrs target existing = Inr (target', c, d) \<longrightarrow> distinct target \<longrightarrow> distinct c)"

definition lib_creates_once :: "lib \<Rightarrow> bool" where
  "lib_creates_once L \<longleftrightarrow> creates_once (cmpBackends L) \<and> creates_once (cmpFrontends L)"

section \<open>Our objects\<close>

text \<open>The stored objects with our tags, and those of them that belong to our LoadBalancer.\<close>

definition tagged_objects :: "recon \<Rightarrow> engine_view \<Rightarrow> object set" where
  "tagged_objects r v = {x. \<exists>i. ev_store v i = Some x \<and> has_tags v (tags r) i}"

definition ours :: "recon \<Rightarrow> engine_view \<Rightarrow> object set" where
  "ours r v = {x \<in> tagged_objects r v.
     case x of
       OBackend b \<Rightarrow> be_lb b = lb_identifier r
     | OFrontend f \<Rightarrow> fe_lb f = Some (lb_identifier r)
     | OBind bi \<Rightarrow> (\<exists>f. OFrontend f \<in> tagged_objects r v \<and> fe_lb f = Some (lb_identifier r) \<and> fe_id f = bi_frontend bi)
     | OServer s \<Rightarrow> (\<exists>b. OBackend b \<in> tagged_objects r v \<and> be_lb b = lb_identifier r \<and> be_id b = se_backend s)
     | _ \<Rightarrow> False}"

lemma ours_config:
  assumes "same_config r r'"
  shows "ours r' v = ours r v" and "tagged_objects r' v = tagged_objects r v"
proof -
  have f: "tags r' = tags r" "lb_identifier r' = lb_identifier r" using assms by (simp_all add: same_config_def)
  then show t: "tagged_objects r' v = tagged_objects r v" by (simp add: tagged_objects_def)
  show "ours r' v = ours r v" unfolding ours_def t f ..
qed

section \<open>Retrieval on such an Engine\<close>

lemma engine_contractD:
  assumes "engine_contract L A ok V"
  shows "ok w \<Longrightarrow> ev_store (V w) i = Some x \<Longrightarrow> stored L i x"
    and "ok w \<Longrightarrow> ev_store (V w) (ref_identifier obj) = Some x \<Longrightarrow> same_type obj x \<Longrightarrow>
      \<exists>w'. api_get A obj w = (None, x, w') \<and> ok w' \<and> V w' = V w"
  using assms unfolding engine_contract_def stores_objects_def serves_get_def by blast+

lemma engine_lists:
  assumes "engine_contract L A ok V" and "ok w"
  shows "\<exists>e rts w' ids. api_list A True ts w = (e, rts, w') \<and> ok w' \<and> V w' = V w \<and>
    set ids = {i \<in> dom (ev_store (V w)). has_tags (V w) ts i} \<and>
    (e = None \<and> list_all2 (lists_object ok V (V w)) ids rts \<or>
     (\<exists>err. e = Some err \<and> as_http err = Some 422 \<and> ids = []))"
proof -
  have "serves_list A ok V" using assms(1) by (simp add: engine_contract_def)
  then show ?thesis unfolding serves_list_def using assms(2) by simp
qed

definition loop_sets :: "recon \<Rightarrow> engine_view \<Rightarrow> string set \<Rightarrow> 'w gather \<Rightarrow> 'w gather \<Rightarrow> bool" where
  "loop_sets r v is g g' \<longleftrightarrow>
     set (backends (g_recon g')) = set (backends (g_recon g)) \<union>
       {b. \<exists>i\<in>is. ev_store v i = Some (OBackend b) \<and> be_lb b = lb_identifier r} \<and>
     set (frontends (g_recon g')) = set (frontends (g_recon g)) \<union>
       {f. \<exists>i\<in>is. ev_store v i = Some (OFrontend f) \<and> fe_lb f = Some (lb_identifier r)} \<and>
     set (allBinds g') = set (allBinds g) \<union> {b. \<exists>i\<in>is. ev_store v i = Some (OBind b)} \<and>
     set (allServers g') = set (allServers g) \<union> {s. \<exists>i\<in>is. ev_store v i = Some (OServer s)} \<and>
     lb_identifier (g_recon g') = lb_identifier (g_recon g)"

lemmas type_identifiers = frontendResourceTypeIdentifier_def backendResourceTypeIdentifier_def
  bindResourceTypeIdentifier_def serverResourceTypeIdentifier_def

lemma typed_retrieve_stored:
  assumes C: "engine_contract L A ok V" and w: "ok (g_world g)" "V (g_world g) = v"
    and x: "ev_store v i = Some x" and lb: "lb_identifier (g_recon g) = lb_identifier r"
  shows "\<exists>g'. typed_retrieve L A \<lparr>res_id = i, res_type = type_identifier x\<rparr> g = (None, g') \<and>
    ok (g_world g') \<and> V (g_world g') = v \<and> loop_sets r v {i} g g'"
proof -
  have st: "stored L i x" using engine_contractD(1) [OF C w(1)] w(2) x by simp
  have get: "\<exists>w'. api_get A obj (g_world g) = (None, x, w') \<and> ok w' \<and> V w' = v"
    if "ref_identifier obj = i" "same_type obj x" for obj
    using engine_contractD(2) [OF C w(1), of obj x] w(2) x that by simp
  show ?thesis
  proof (cases x)
    case (OBackend b)
    obtain w' where "api_get A (OBackend (blank_backend i)) (g_world g) = (None, x, w')" "ok w'" "V w' = v"
      using get [of "OBackend (blank_backend i)"] OBackend by (auto simp: blank_backend_def)
    then show ?thesis using OBackend lb x
      by (auto simp: typed_retrieve_def type_identifiers get_backend_def Let_def loop_sets_def)
  next
    case (OFrontend f)
    obtain w' where "api_get A (OFrontend (blank_frontend i)) (g_world g) = (None, x, w')" "ok w'" "V w' = v"
      using get [of "OFrontend (blank_frontend i)"] OFrontend by (auto simp: blank_frontend_def)
    moreover obtain l where "fe_lb f = Some l" using st OFrontend by (auto simp: stored_def)
    ultimately show ?thesis using OFrontend lb x
      by (auto simp: typed_retrieve_def type_identifiers get_frontend_def Let_def loop_sets_def)
  next
    case (OBind b)
    obtain w' where "api_get A (OBind (blank_bind i)) (g_world g) = (None, x, w')" "ok w'" "V w' = v"
      using get [of "OBind (blank_bind i)"] OBind by (auto simp: blank_bind_def)
    then show ?thesis using OBind lb x
      by (auto simp: typed_retrieve_def type_identifiers get_bind_def Let_def loop_sets_def)
  next
    case (OServer s)
    obtain w' where "api_get A (OServer (blank_server i)) (g_world g) = (None, x, w')" "ok w'" "V w' = v"
      using get [of "OServer (blank_server i)"] OServer by (auto simp: blank_server_def)
    then show ?thesis using OServer lb x
      by (auto simp: typed_retrieve_def type_identifiers get_server_def Let_def loop_sets_def)
  qed (use x w in \<open>auto simp: typed_retrieve_def type_identifiers loop_sets_def\<close>)
qed

lemma loop_sets_trans:
  "loop_sets r v {i} g g1 \<Longrightarrow> loop_sets r v is g1 g2 \<Longrightarrow> loop_sets r v (insert i is) g g2"
  by (auto simp: loop_sets_def)

lemma retrieve_loop_stored:
  assumes C: "engine_contract L A ok V"
  shows "list_all2 (lists_object ok V v) ids rts \<Longrightarrow> set ids \<subseteq> dom (ev_store v) \<Longrightarrow> ok (g_world g) \<Longrightarrow>
    V (g_world g) = v \<Longrightarrow> lb_identifier (g_recon g) = lb_identifier r \<Longrightarrow>
    \<exists>g'. retrieve_loop L A rts g = (None, g') \<and> ok (g_world g') \<and> V (g_world g') = v \<and> loop_sets r v (set ids) g g'"
proof (induction ids rts arbitrary: g rule: list_all2_induct)
  case Nil
  then show ?case by (simp add: loop_sets_def)
next
  case (Cons i ids rt rts)
  obtain x where x: "ev_store v i = Some x" using Cons.prems(1) by auto
  obtain w' where rt: "rt (g_world g) = (Inr \<lparr>res_id = i, res_type = type_identifier x\<rparr>, w')" "ok w'" "V w' = v"
    using Cons.hyps(1) Cons.prems(2,3) x by (auto simp: lists_object_def)
  obtain g1 where t: "typed_retrieve L A \<lparr>res_id = i, res_type = type_identifier x\<rparr> (g\<lparr>g_world := w'\<rparr>) = (None, g1)"
    "ok (g_world g1)" "V (g_world g1) = v" "loop_sets r v {i} (g\<lparr>g_world := w'\<rparr>) g1"
    using typed_retrieve_stored [OF C _ _ x, of "g\<lparr>g_world := w'\<rparr>" r] rt Cons.prems(4) by auto
  have lb: "lb_identifier (g_recon g1) = lb_identifier r" using t(4) Cons.prems(4) by (simp add: loop_sets_def)
  obtain g' where g': "retrieve_loop L A rts g1 = (None, g')" "ok (g_world g')" "V (g_world g') = v" "loop_sets r v (set ids) g1 g'"
    using Cons.IH [OF _ t(2,3) lb] Cons.prems(1) by auto
  have "loop_sets r v {i} g g1" using t(4) by (simp add: loop_sets_def)
  from loop_sets_trans [OF this g'(4)] g' rt t show ?case by auto
qed

lemma search_contract_total:
  "search_contract attr srch \<Longrightarrow> \<forall>y \<in> insert x (set xs). has_attrs attr attrs y \<Longrightarrow> \<exists>i. srch attrs x xs = Inr i"
  unfolding search_contract_def by blast

lemma search_total:
  assumes "lib_contract L"
  shows "\<exists>i. searchFrontends L [''Identifier''] (blank_frontend x) fs = Inr i"
    and "\<exists>i. searchBackends L [''Identifier''] (blank_backend y) bs = Inr i"
proof -
  show "\<exists>i. searchFrontends L [''Identifier''] (blank_frontend x) fs = Inr i"
    by (rule search_contract_total [where srch = "searchFrontends L" and attr = frontend_attr])
       (use assms in \<open>simp_all add: lib_contract_def has_attrs_def frontend_attr_def\<close>)
  show "\<exists>i. searchBackends L [''Identifier''] (blank_backend y) bs = Inr i"
    by (rule search_contract_total [where srch = "searchBackends L" and attr = backend_attr])
       (use assms in \<open>simp_all add: lib_contract_def has_attrs_def backend_attr_def\<close>)
qed

lemma filters_total:
  assumes "lib_contract L"
  shows "\<exists>kept r'. filterBinds L bs ret r = (Inr kept, r')" and "\<exists>kept r'. filterServers L ss rets r = (Inr kept, r')"
proof -
  show "\<exists>kept r'. filterBinds L bs ret r = (Inr kept, r')"
  proof (induction bs arbitrary: ret r)
    case (Cons b bs)
    then show ?case using search_total(1) [OF assms, of "bi_frontend b" "frontends r"] by (auto simp: Let_def)
  qed simp
  show "\<exists>kept r'. filterServers L ss rets r = (Inr kept, r')"
  proof (induction ss arbitrary: rets r)
    case (Cons s ss)
    then show ?case using search_total(2) [OF assms, of "se_backend s" "backends r"] by auto
  qed simp
qed

text \<open>The objects of the record after a retrieval are exactly ours.\<close>

lemma managed_ours:
  assumes b: "set (backends r') = {b. OBackend b \<in> tagged_objects r v \<and> be_lb b = lb_identifier r}"
    and f: "set (frontends r') = {f. OFrontend f \<in> tagged_objects r v \<and> fe_lb f = Some (lb_identifier r)}"
    and bi: "set (binds r') = {b. OBind b \<in> tagged_objects r v \<and> our_bind r' b}"
    and se: "set (servers r') = {s. OServer s \<in> tagged_objects r v \<and> our_server r' s}"
  shows "managed r' = ours r v"
proof (rule set_eqI)
  fix x show "x \<in> managed r' \<longleftrightarrow> x \<in> ours r v"
    by (cases x) (auto simp: managed_def ours_def b f bi se our_bind_def our_server_def image_iff)
qed

lemma retrieveState_ours:
  assumes L: "lib_contract L" and C: "engine_contract L A ok V" and w: "ok (world s)"
  shows "\<exists>s'. retrieveState L A s = (None, s') \<and> ok (world s') \<and> V (world s') = V (world s) \<and>
    managed (rcn s') = ours (rcn s) (V (world s))"
proof -
  let ?r0 = "reset_recon (rcn s)" and ?v = "V (world s)"
  have r0: "tags ?r0 = tags (rcn s)" "lb_identifier ?r0 = lb_identifier (rcn s)" "backends ?r0 = []" "frontends ?r0 = []"
    "binds ?r0 = []" "servers ?r0 = []" by (simp_all add: reset_recon_def)
  obtain e rts w1 ids where list: "api_list A True (tags (rcn s)) (world s) = (e, rts, w1)"
    and w1: "ok w1" "V w1 = ?v" and ids: "set ids = {i \<in> dom (ev_store ?v). has_tags ?v (tags (rcn s)) i}"
    and kind: "e = None \<and> list_all2 (lists_object ok V ?v) ids rts \<or> (\<exists>err. e = Some err \<and> as_http err = Some 422 \<and> ids = [])"
    using engine_lists [OF C w, of "tags (rcn s)"] by (elim exE conjE) (rule that)
  have tagged: "x \<in> tagged_objects (rcn s) ?v \<longleftrightarrow> (\<exists>i\<in>set ids. ev_store ?v i = Some x)" for x
    by (auto simp: tagged_objects_def ids)
  from kind show ?thesis
  proof
    assume "\<exists>err. e = Some err \<and> as_http err = Some 422 \<and> ids = []"
    then obtain err where err: "e = Some err" "as_http err = Some 422" "ids = []" by blast
    then have "tagged_objects (rcn s) ?v = {}" using tagged by auto
    then have "managed ?r0 = ours (rcn s) ?v" by (simp add: ours_def managed_def r0)
    then show ?thesis using list err w1 r0 by (simp add: retrieveState_def retrieveResources_def)
  next
    assume ok: "e = None \<and> list_all2 (lists_object ok V ?v) ids rts"
    let ?g0 = "\<lparr>g_world = w1, g_recon = ?r0, allBinds = [], allServers = []\<rparr>"
    have "set ids \<subseteq> dom (ev_store ?v)" using ids by blast
    with retrieve_loop_stored [OF C, of ?v ids rts ?g0 "rcn s"] ok w1 r0
    obtain g where loop: "retrieve_loop L A rts ?g0 = (None, g)" "ok (g_world g)" "V (g_world g) = ?v"
      and sets: "loop_sets (rcn s) ?v (set ids) ?g0 g" by auto
    obtain bs r1 where fb: "filterBinds L (allBinds g) [] (g_recon g) = (Inr bs, r1)"
      using filters_total(1) [OF L] by blast
    obtain ss r2 where fs: "filterServers L (allServers g) [] (r1\<lparr>binds := bs\<rparr>) = (Inr ss, r2)"
      using filters_total(2) [OF L] by blast
    let ?r = "r2\<lparr>servers := ss\<rparr>"
    have ret: "retrieveState L A s = (None, s\<lparr>world := g_world g, rcn := ?r, met := count_retrieved ?r (met s)\<rparr>)"
      using list ok loop fb fs r0 by (simp add: retrieveState_def retrieveResources_def Let_def)
    have bs: "bs = filter (our_bind (g_recon g)) (allBinds g)" and r1: "frontends r1 = frontends (g_recon g)" "backends r1 = backends (g_recon g)"
      using filterBinds_eq [OF L fb] by auto
    have ss: "ss = filter (our_server (r1\<lparr>binds := bs\<rparr>)) (allServers g)"
      and r2: "frontends r2 = frontends r1" "backends r2 = backends r1" "binds r2 = bs"
      using filterServers_eq [OF L fs] by auto
    have lists: "set (backends (g_recon g)) = {b. (\<exists>i\<in>set ids. ev_store ?v i = Some (OBackend b)) \<and> be_lb b = lb_identifier (rcn s)}"
      "set (frontends (g_recon g)) = {f. (\<exists>i\<in>set ids. ev_store ?v i = Some (OFrontend f)) \<and> fe_lb f = Some (lb_identifier (rcn s))}"
      "set (allBinds g) = {b. \<exists>i\<in>set ids. ev_store ?v i = Some (OBind b)}"
      "set (allServers g) = {x. \<exists>i\<in>set ids. ev_store ?v i = Some (OServer x)}"
      using sets by (auto simp: loop_sets_def r0)
    have "managed ?r = ours (rcn s) ?v"
    proof (rule managed_ours)
      show "set (backends ?r) = {b. OBackend b \<in> tagged_objects (rcn s) ?v \<and> be_lb b = lb_identifier (rcn s)}"
        unfolding tagged by (simp add: r1 r2 lists(1))
      show "set (frontends ?r) = {f. OFrontend f \<in> tagged_objects (rcn s) ?v \<and> fe_lb f = Some (lb_identifier (rcn s))}"
        unfolding tagged by (simp add: r1 r2 lists(2))
      have "our_bind ?r = our_bind (g_recon g)" by (simp add: our_bind_def fun_eq_iff r1 r2)
      then show "set (binds ?r) = {b. OBind b \<in> tagged_objects (rcn s) ?v \<and> our_bind ?r b}"
        unfolding tagged by (simp add: r2 bs lists(3))
      have "our_server ?r = our_server (r1\<lparr>binds := bs\<rparr>)" by (simp add: our_server_def fun_eq_iff r1 r2)
      then show "set (servers ?r) = {x. OServer x \<in> tagged_objects (rcn s) ?v \<and> our_server ?r x}"
        unfolding tagged by (simp add: ss lists(4))
    qed
    with ret loop show ?thesis by simp
  qed
qed

section \<open>Destroying\<close>

lemma engine_destroys:
  assumes C: "engine_contract L A ok V" and w: "ok w" and st: "ev_store (V w) (ref_identifier x) \<in> {Some x, None}"
  obtains (gone) e w' where "ev_store (V w) (ref_identifier x) = None" "api_destroy A x w = (Some e, x, w')" "ok w'"
      "V w' = V w" "as_http e = Some 404"
    | (destroyed) w' where "api_destroy A x w = (None, x, w')" "ok w'"
      "ev_store (V w') = (ev_store (V w))(ref_identifier x := None)" "same_other_tags (ref_identifier x) (V w) (V w')"
    | (refused) e w' j y where "api_destroy A x w = (Some e, x, w')" "ok w'" "V w' = V w" "ev_store (V w) j = Some y"
      "child_of y x" "as_http e \<noteq> Some 404" "\<not> isRateLimitError L e"
proof (cases "ev_store (V w) (ref_identifier x)")
  case None
  moreover have "gone_is_404 A ok V" using C by (simp add: engine_contract_def)
  ultimately show thesis using w gone unfolding gone_is_404_def by blast
next
  case (Some y)
  with st have "ev_store (V w) (ref_identifier x) = Some x" by simp
  moreover have "serves_destroy L A ok V" using C by (simp add: engine_contract_def)
  ultimately show thesis
    using w unfolding serves_destroy_def
    by (elim allE [where x = w] allE [where x = "ref_identifier x"] allE [where x = x] impE disjE exE conjE)
       (assumption | rule destroyed refused)+
qed

text \<open>A view in which only some of the objects \<open>X\<close> are gone.\<close>

definition removed :: "object set \<Rightarrow> engine_view \<Rightarrow> engine_view \<Rightarrow> bool" where
  "removed X v v' \<longleftrightarrow>
     (\<forall>i. ev_store v' i = ev_store v i \<or> ev_store v' i = None \<and> (\<exists>x\<in>X. ev_store v i = Some x)) \<and>
     (\<forall>i t. ev_store v' i \<noteq> None \<longrightarrow> ((i, t) \<in> ev_tags v' \<longleftrightarrow> (i, t) \<in> ev_tags v))"

lemma removed_refl [simp]: "removed X v v"
  by (simp add: removed_def)

lemma removed_trans: "removed X v v1 \<Longrightarrow> removed X v1 v2 \<Longrightarrow> removed X v v2"
  unfolding removed_def by metis

lemma removed_mono: "removed X v v' \<Longrightarrow> X \<subseteq> Y \<Longrightarrow> removed Y v v'"
  unfolding removed_def by blast

lemma removed_stored: "removed X v v' \<Longrightarrow> ev_store v' i = Some x \<Longrightarrow> ev_store v i = Some x"
  unfolding removed_def by (metis option.distinct(1))

lemma removed_one:
  assumes "ev_store v (ref_identifier x) \<in> {Some x, None}" and "ev_store v' = (ev_store v)(ref_identifier x := None)"
    and "same_other_tags (ref_identifier x) v v'"
  shows "removed {x} v v'"
  using assms by (auto simp: removed_def same_other_tags_def)

definition in_store :: "engine_view \<Rightarrow> object list \<Rightarrow> bool" where
  "in_store v os \<longleftrightarrow> (\<forall>x\<in>set os. ev_store v (ref_identifier x) \<in> {Some x, None})"

lemma in_store_removed: "in_store v os \<Longrightarrow> removed X v v' \<Longrightarrow> in_store v' os"
  unfolding in_store_def removed_def by (metis insert_iff)

lemma childless_removed: "childless v x \<Longrightarrow> removed X v v' \<Longrightarrow> childless v' x"
  unfolding childless_def using removed_stored by blast

text \<open>One pass: what is left in the list had children when the pass began, the rest is gone.\<close>

lemma refreshed_same [simp]: "refreshed x x = x"
  by (cases x) simp_all

lemma destroy_pass_serves:
  assumes C: "engine_contract L A ok V" and I: "identifier_contract L" and N: "not_found_contract L"
  shows "ok (world s) \<Longrightarrow> in_store (V (world s)) os \<Longrightarrow>
    \<exists>left s'. destroy_pass L A os new allow s = (PassDone (new @ left), allow \<or> os \<noteq> [], s') \<and> ok (world s') \<and>
      rcn s' = rcn s \<and> removed (set os) (V (world s)) (V (world s')) \<and> length left \<le> length os \<and> set left \<subseteq> set os \<and>
      (\<forall>x\<in>set os - set left. ev_store (V (world s')) (ref_identifier x) = None) \<and>
      (\<forall>x\<in>set left. \<not> childless (V (world s)) x) \<and> (length left = length os \<longrightarrow> left = os)"
proof (induction os arbitrary: new allow s)
  case (Cons x os)
  have st: "ev_store (V (world s)) (ref_identifier x) \<in> {Some x, None}" using Cons.prems(2) by (simp add: in_store_def)
  have nf: "ignoreNotFound L None = None" "as_http e = Some 404 \<Longrightarrow> ignoreNotFound L (Some e) = None"
    "as_http e \<noteq> Some 404 \<Longrightarrow> ignoreNotFound L (Some e) = Some e" for e
    using N by (simp_all add: not_found_contract_def)
  have gone: ?case
    if d: "api_destroy A x (world s) = (err, x, w')" and ok: "ok w'" and err: "ignoreNotFound L err = None"
      and rm: "removed {x} (V (world s)) (V w')" and none: "ev_store (V w') (ref_identifier x) = None" for err w'
  proof -
    let ?s = "count_deleted (s\<lparr>world := w'\<rparr>)"
    have "in_store (V (world ?s)) os"
      using in_store_removed [OF Cons.prems(2) rm] by (simp add: in_store_def)
    from Cons.IH [OF _ this, of new True] ok obtain left s' where
      run: "destroy_pass L A os new True ?s = (PassDone (new @ left), True, s')" and rest: "ok (world s')" "rcn s' = rcn s"
      "removed (set os) (V w') (V (world s'))" "length left \<le> length os" "set left \<subseteq> set os"
      "\<forall>x\<in>set os - set left. ev_store (V (world s')) (ref_identifier x) = None" "\<forall>x\<in>set left. \<not> childless (V w') x"
      by auto
    have "removed (set (x # os)) (V (world s)) (V (world s'))"
      using removed_trans [OF removed_mono [OF rm] removed_mono [OF rest(3)]] by (metis list.set_intros(1) empty_subsetI insert_subset set_subset_Cons)
    moreover have "ev_store (V (world s')) (ref_identifier x) = None"
      using none removed_stored [OF rest(3)] by (metis option.exhaust)
    moreover have "\<forall>x\<in>set left. \<not> childless (V (world s)) x" using rest(7) childless_removed [OF _ rm] by blast
    ultimately show ?thesis using d err run rest
      by (intro exI [of _ left] exI [of _ s']) (auto simp: handleDestroyError_def)
  qed
  show ?case
  proof (cases rule: engine_destroys [OF C Cons.prems(1) st])
    case (1 e w')
    then show ?thesis using gone nf by simp
  next
    case (2 w')
    then show ?thesis using gone [OF 2(1,2) nf(1) removed_one [OF st 2(3,4)]] by simp
  next
    case (3 e w' j y)
    let ?s = "count_deleted (s\<lparr>world := w', met := (met s)\<lparr>deleteRetries := deleteRetries (met s) + 1\<rparr>\<rparr>)"
    obtain str where str: "mustStringifyObject L x = Inr str" using mustStringify_total [OF I] by metis
    have "in_store (V (world ?s)) os" using Cons.prems(2) 3(3) by (simp add: in_store_def)
    from Cons.IH [OF _ this, of "new @ [x]" True] 3(2,3) obtain left s' where
      run: "destroy_pass L A os (new @ [x]) True ?s = (PassDone ((new @ [x]) @ left), True, s')" and rest: "ok (world s')"
      "rcn s' = rcn s" "removed (set os) (V (world s)) (V (world s'))" "length left \<le> length os" "set left \<subseteq> set os"
      "\<forall>x\<in>set os - set left. ev_store (V (world s')) (ref_identifier x) = None" "\<forall>x\<in>set left. \<not> childless (V (world s)) x"
      "length left = length os \<longrightarrow> left = os"
      by auto
    have "removed (set (x # os)) (V (world s)) (V (world s'))" using removed_mono [OF rest(3)] by auto
    moreover have "\<not> childless (V (world s)) x" using 3(4,5) by (auto simp: childless_def)
    ultimately show ?thesis using 3 nf(3) str run rest
      by (intro exI [of _ "x # left"] exI [of _ s']) (auto simp: handleDestroyError_def Let_def)
  qed
qed simp

text \<open>A list that holds with every object all its children has a childless one.\<close>

definition closed_under_children :: "engine_view \<Rightarrow> object set \<Rightarrow> bool" where
  "closed_under_children v X \<longleftrightarrow> (\<forall>x\<in>X. \<forall>j y. ev_store v j = Some y \<longrightarrow> child_of y x \<longrightarrow> y \<in> X)"

lemma childless_exists:
  assumes "os \<noteq> []" and cl: "closed_under_children v (set os)"
  shows "\<exists>x\<in>set os. childless v x"
proof -
  have leaf: "childless v (OBind bi)" "childless v (OServer s)" "childless v (OLoadBalancer l)" "childless v (OResourceWithTag l t)"
    for bi s l t by (auto simp: childless_def elim: child_of.elims)
  consider x where "x \<in> set os" "childless v x" | f where "OFrontend f \<in> set os" "\<forall>bi. OBind bi \<notin> set os"
    | b where "OBackend b \<in> set os" "\<forall>bi. OBind bi \<notin> set os" "\<forall>f. OFrontend f \<notin> set os" "\<forall>s. OServer s \<notin> set os"
    using assms(1) leaf by (cases os) (metis object.exhaust list.set_intros(1))+
  then show ?thesis
  proof cases
    case (2 f)
    have mem: "y \<in> set os" if "ev_store v j = Some y" "child_of y (OFrontend f)" for j y
      using cl 2(1) that unfolding closed_under_children_def by blast
    have "\<not> (ev_store v j = Some y \<and> child_of y (OFrontend f))" for j y
      by (rule notI, elim conjE, frule (1) mem, cases y) (use 2 in simp_all)
    with 2 show ?thesis unfolding childless_def by blast
  next
    case (3 b)
    have mem: "y \<in> set os" if "ev_store v j = Some y" "child_of y (OBackend b)" for j y
      using cl 3(1) that unfolding closed_under_children_def by blast
    have "\<not> (ev_store v j = Some y \<and> child_of y (OBackend b))" for j y
      by (rule notI, elim conjE, frule (1) mem, cases y) (use 3 in simp_all)
    with 3 show ?thesis unfolding childless_def by blast
  qed blast
qed

lemma destroy_loop_serves:
  assumes C: "engine_contract L A ok V" and I: "identifier_contract L" and N: "not_found_contract L"
  shows "ok (world s) \<Longrightarrow> in_store (V (world s)) os \<Longrightarrow> closed_under_children (V (world s)) (set os) \<Longrightarrow>
    \<exists>allow s'. destroy_loop L A os True s = Some (Inr ([], allow), s') \<and> ok (world s') \<and> rcn s' = rcn s \<and>
      removed (set os) (V (world s)) (V (world s')) \<and> (\<forall>x\<in>set os. ev_store (V (world s')) (ref_identifier x) = None)"
proof (induction "length os" arbitrary: os s rule: less_induct)
  case less
  show ?case
  proof (cases "os = []")
    case True
    then show ?thesis using less.prems by (intro exI [of _ True] exI [of _ s]) (subst destroy_loop.simps, simp)
  next
    case False
    obtain left s1 where p: "destroy_pass L A os [] False s = (PassDone left, True, s1)" and s1: "ok (world s1)" "rcn s1 = rcn s"
      and rm: "removed (set os) (V (world s)) (V (world s1))" and len: "length left \<le> length os" and sub: "set left \<subseteq> set os"
      and gone: "\<forall>x\<in>set os - set left. ev_store (V (world s1)) (ref_identifier x) = None"
      and par: "\<forall>x\<in>set left. \<not> childless (V (world s)) x" and all: "length left = length os \<longrightarrow> left = os"
      using destroy_pass_serves [OF C I N less.prems(1,2), of "[]" False] False by auto
    have "left \<noteq> os" using childless_exists [OF False less.prems(3)] par by blast
    then have lt: "length left < length os" using len all by linarith
    have "in_store (V (world s1)) left" using in_store_removed [OF less.prems(2) rm] sub by (auto simp: in_store_def)
    moreover have "closed_under_children (V (world s1)) (set left)"
      unfolding closed_under_children_def
    proof (intro ballI allI impI)
      fix x j y assume x: "x \<in> set left" "ev_store (V (world s1)) j = Some y" "child_of y x"
      then have st: "ev_store (V (world s)) j = Some y" using removed_stored [OF rm] by blast
      then have "y \<in> set os" using less.prems(3) x sub unfolding closed_under_children_def by blast
      moreover have "ref_identifier y = j"
        using engine_contractD(1) [OF C s1(1) x(2)] by (simp add: stored_def)
      ultimately show "y \<in> set left" using gone x(2) by (metis Diff_iff option.distinct(1))
    qed
    ultimately obtain allow s' where run: "destroy_loop L A left True s1 = Some (Inr ([], allow), s')" and s': "ok (world s')"
      "rcn s' = rcn s1" and rm': "removed (set left) (V (world s1)) (V (world s'))"
      and none: "\<forall>x\<in>set left. ev_store (V (world s')) (ref_identifier x) = None"
      using less.hyps [OF lt s1(1)] by blast
    have "destroy_loop L A os True s = Some (Inr ([], allow), s')"
      using p False run by (subst destroy_loop.simps) simp
    moreover have "removed (set os) (V (world s)) (V (world s'))" using removed_trans [OF rm removed_mono [OF rm' sub]] .
    moreover have "ev_store (V (world s')) (ref_identifier x) = None" if "x \<in> set os" for x
      using that none gone removed_stored [OF rm'] by (metis DiffI option.exhaust)
    ultimately show ?thesis using s' s1 by auto
  qed
qed

end
