(* ===== verification/CheckSpec.thy ===== *)
theory CheckSpec
  imports CheckProps
begin

text \<open>
  A specification of \<open>ReconcileCheck\<close> as two sets: which objects it wants created and destroyed for a
  given set of retrieved objects, without the loops, the port maps and the comparison library.
\<close>

section \<open>The specification\<close>

definition port_backend :: "lib \<Rightarrow> recon \<Rightarrow> string \<Rightarrow> lb_backend \<Rightarrow> bool" where
  "port_backend L r name b \<longleftrightarrow> b \<in> set (backends r) \<and> backend_for L r name b"

definition port_frontend :: "lib \<Rightarrow> recon \<Rightarrow> string \<Rightarrow> lb_frontend \<Rightarrow> bool" where
  "port_frontend L r name f \<longleftrightarrow> f \<in> set (frontends r) \<and> (\<exists>b. port_backend L r name b \<and> frontend_for L r name b f)"

definition port_bind :: "lib \<Rightarrow> recon \<Rightarrow> string \<Rightarrow> lb_bind \<Rightarrow> bool" where
  "port_bind L r name bi \<longleftrightarrow> bi \<in> set (binds r) \<and>
     (\<exists>a p f. a \<in> set (externalAddresses r) \<and> ports r name = Some p \<and> port_frontend L r name f \<and> bind_for r a name p f bi)"

definition port_server :: "lib \<Rightarrow> recon \<Rightarrow> string \<Rightarrow> lb_server \<Rightarrow> bool" where
  "port_server L r name s \<longleftrightarrow> s \<in> set (servers r) \<and>
     (\<exists>sv p b. sv \<in> set (targetServers r) \<and> ports r name = Some p \<and> port_backend L r name b \<and> server_for r sv name p b s)"

text \<open>Every port has its backend (frontend) and there is no other one.\<close>

definition backends_settled :: "lib \<Rightarrow> recon \<Rightarrow> bool" where
  "backends_settled L r \<longleftrightarrow> (\<forall>name\<in>dom (ports r). \<exists>b. port_backend L r name b) \<and>
     (\<forall>b\<in>set (backends r). \<exists>name\<in>dom (ports r). port_backend L r name b)"

definition frontends_settled :: "lib \<Rightarrow> recon \<Rightarrow> bool" where
  "frontends_settled L r \<longleftrightarrow> (\<forall>name\<in>dom (ports r). \<exists>f. port_frontend L r name f) \<and>
     (\<forall>f\<in>set (frontends r). \<exists>name\<in>dom (ports r). port_frontend L r name f)"

text \<open>What each kind lacks.\<close>

definition lacking_backends :: "lib \<Rightarrow> recon \<Rightarrow> object set" where
  "lacking_backends L r =
     OBackend ` {x. \<exists>name\<in>dom (ports r). x = targetBackend L r name \<and> \<not> (\<exists>b. port_backend L r name b)}"

definition lacking_frontends :: "lib \<Rightarrow> recon \<Rightarrow> object set" where
  "lacking_frontends L r =
     OFrontend ` {x. \<exists>name\<in>dom (ports r). \<exists>b. port_backend L r name b \<and> x = targetFrontend L r name b \<and>
       \<not> (\<exists>f. port_frontend L r name f)}"

definition lacking_binds :: "lib \<Rightarrow> recon \<Rightarrow> object set" where
  "lacking_binds L r =
     OBind ` {x. \<exists>a\<in>set (externalAddresses r). \<exists>name p f. ports r name = Some p \<and> port_frontend L r name f \<and>
       x = targetBind r a name p f \<and> \<not> (\<exists>bi\<in>set (binds r). bind_for r a name p f bi)}"

definition lacking_servers :: "lib \<Rightarrow> recon \<Rightarrow> object set" where
  "lacking_servers L r =
     OServer ` {x. \<exists>sv\<in>set (targetServers r). \<exists>name p b. ports r name = Some p \<and> port_backend L r name b \<and>
       x = targetServer r sv name p b \<and> \<not> (\<exists>s\<in>set (servers r). server_for r sv name p b s)}"

text \<open>
  As long as the backends are not settled nothing else may stay or be created; then the same holds of
  the frontends and their binds. Servers only need the backends.
\<close>

definition spec_create :: "lib \<Rightarrow> recon \<Rightarrow> object set" where
  "spec_create L r =
     (if \<not> backends_settled L r then lacking_backends L r
      else if \<not> frontends_settled L r then lacking_frontends L r \<union> lacking_servers L r
      else lacking_binds L r \<union> lacking_servers L r)"

definition spec_destroy :: "lib \<Rightarrow> recon \<Rightarrow> object set" where
  "spec_destroy L r =
     (if \<not> backends_settled L r then
        managed r - {OBackend b | b. \<exists>name\<in>dom (ports r). port_backend L r name b}
      else managed r - OBackend ` set (backends r) - {OServer s | s. \<exists>name. port_server L r name s} -
        {OFrontend f | f. \<exists>name\<in>dom (ports r). port_frontend L r name f} -
        (if frontends_settled L r then {OBind bi | bi. \<exists>name. port_bind L r name bi} else {}))"

text \<open>Names are unique among the backends and among the frontends.\<close>

definition unambiguous :: "recon \<Rightarrow> bool" where
  "unambiguous r \<longleftrightarrow> inj_on be_name (set (backends r)) \<and> inj_on fe_name (set (frontends r))"

lemma port_backend_unique:
  "unambiguous r \<Longrightarrow> port_backend L r name b \<Longrightarrow> port_backend L r name b' \<Longrightarrow> b = b'"
  unfolding unambiguous_def port_backend_def backend_for_def inj_on_def by metis

lemma port_frontend_unique:
  "unambiguous r \<Longrightarrow> port_frontend L r name f \<Longrightarrow> port_frontend L r name f' \<Longrightarrow> f = f'"
  unfolding unambiguous_def port_frontend_def frontend_for_def inj_on_def by metis

section \<open>The steps meet it\<close>

lemma steps_total:
  assumes L: "lib_contract L" and fc: "frontends_complete r"
  shows "\<exists>cr de r'. reconcile_steps L rngs r = (Inr (cr, de), r')"
proof -
  obtain c1 d1 r1 where b: "reconcileBackends L (rngs 0) r = (Inr (c1, d1), r1)"
    using backend_step.step_ok [OF L, of r "rngs 0"] by (metis backend_has_attrs prod.collapse)
  have "\<forall>f\<in>set (frontends r1). has_attrs frontend_attr frontendAttributes f"
    using fc same_objects_fields(2) [OF reconcileBackends_objects [OF b]] by (simp add: frontends_complete_def)
  then obtain c2 d2 r2 where f: "reconcileFrontends L (rngs 1) r1 = (Inr (c2, d2), r2)"
    using frontend_step.step_ok [OF L, of r1 "rngs 1"] by (metis prod.collapse)
  obtain c3 d3 where bi: "reconcileBinds L (rngs 2) r2 = (Inr (c3, d3), r2)"
    using bind_step.step_ok [OF L, of r2 "rngs 2"] reconcileBinds_state by (metis bind_has_attrs prod.collapse)
  obtain c4 d4 where se: "reconcileServers L (rngs 3) r2 = (Inr (c4, d4), r2)"
    using server_step.step_ok [OF L, of r2 "rngs 3"] reconcileServers_state by (metis server_has_attrs prod.collapse)
  show ?thesis using b f bi se by (simp add: reconcile_steps_def numeral_2_eq_2 numeral_3_eq_3)
qed

lemma backends_settled_iff:
  assumes "ranges_ok r rng"
  shows "backend_step.missing L rng r = {} \<and> backend_step.surplus L rng r = {} \<longleftrightarrow> backends_settled L r"
  unfolding set_eq_iff backend_missing_iff [OF assms] backend_surplus_iff [OF assms] backends_settled_def
    port_backend_def by blast

text \<open>Backends with something to do: everything below them goes.\<close>

lemma spec_busy_backends:
  assumes L: "lib_contract L" and rg: "\<forall>k. ranges_ok r (rngs k)" and fc: "frontends_complete r"
    and maps: "portBackends r = Map.empty" "portFrontends r = Map.empty"
    and run: "reconcile_steps L rngs r = (Inr (cr, de), r')" and busy: "\<not> backends_settled L r"
  shows "set cr = spec_create L r \<and> set de = spec_destroy L r"
proof -
  obtain c1 d1 r1 c2 d2 r2 c3 d3 c4 d4 where
    b: "reconcileBackends L (rngs 0) r = (Inr (c1, d1), r1)"
    and f: "reconcileFrontends L (rngs 1) r1 = (Inr (c2, d2), r2)"
    and bi: "reconcileBinds L (rngs 2) r2 = (Inr (c3, d3), r2)"
    and se: "reconcileServers L (rngs 3) r2 = (Inr (c4, d4), r2)"
    and lists: "cr = c1 @ c2 @ c3 @ c4" "de = d1 @ d2 @ d3 @ d4"
    using reconcile_steps_split [OF run] by blast
  note sets = backend_step.step_sets [OF L _ b, simplified]
  have "\<not> (c1 = [] \<and> d1 = [])"
    using backends_settled_iff [OF rg [rule_format], of L 0] busy sets by auto
  then have "r1 = r" using reconcileBackends_busy [OF b] by blast
  with f have f': "reconcileFrontends L (rngs 1) r = (Inr (c2, d2), r2)" by simp
  note rest = steps_no_backends_map [OF L fc maps f' bi se]
  have "set c1 = lacking_backends L r"
    unfolding sets lacking_backends_def port_backend_def
    by (rule arg_cong [where f = "image OBackend"], rule set_eqI) (unfold backend_missing_iff [OF rg [rule_format]] mem_Collect_eq, blast)
  moreover have "set d1 = OBackend ` {b \<in> set (backends r). \<not> (\<exists>name\<in>dom (ports r). port_backend L r name b)}"
    unfolding sets port_backend_def by (auto simp: backend_surplus_iff [OF rg [rule_format]])
  ultimately show ?thesis using rest busy
    by (auto simp: lists spec_create_def spec_destroy_def managed_def)
qed

lemma frontend_port:
  assumes "unambiguous r" and "port_backend L r name b"
  shows "(\<exists>f\<in>set (frontends r). frontend_for L r name b f) \<longleftrightarrow> (\<exists>f. port_frontend L r name f)"
  unfolding port_frontend_def using assms port_backend_unique by blast

text \<open>What the later steps find, for port maps that agree with the specification.\<close>

lemma servers_by_ports:
  assumes rg: "ranges_ok r rng" and pb: "\<forall>name\<in>dom (ports r). \<forall>b. portBackends r name = Some b \<longleftrightarrow> port_backend L r name b"
  shows "OServer ` server_step.missing L rng r = lacking_servers L r"
    and "server_step.surplus L rng r = {s \<in> set (servers r). \<not> (\<exists>name. port_server L r name s)}"
proof -
  have p: "ports r name = Some p \<and> portBackends r name = Some b \<and> Q \<longleftrightarrow> ports r name = Some p \<and> port_backend L r name b \<and> Q" for name b p Q
    using pb by blast
  show "OServer ` server_step.missing L rng r = lacking_servers L r"
    unfolding lacking_servers_def
    by (rule arg_cong [where f = "image OServer"], rule set_eqI) (simp only: server_missing_iff [OF rg] p mem_Collect_eq)
  show "server_step.surplus L rng r = {s \<in> set (servers r). \<not> (\<exists>name. port_server L r name s)}"
    by (rule set_eqI, unfold server_surplus_iff [OF rg] p mem_Collect_eq port_server_def) blast
qed

lemma binds_by_ports:
  assumes rg: "ranges_ok r rng" and pf: "\<forall>name\<in>dom (ports r). \<forall>f. portFrontends r name = Some f \<longleftrightarrow> port_frontend L r name f"
  shows "OBind ` bind_step.missing L rng r = lacking_binds L r"
    and "bind_step.surplus L rng r = {bi \<in> set (binds r). \<not> (\<exists>name. port_bind L r name bi)}"
proof -
  have p: "ports r name = Some p \<and> portFrontends r name = Some f \<and> Q \<longleftrightarrow> ports r name = Some p \<and> port_frontend L r name f \<and> Q" for name f p Q
    using pf by blast
  show "OBind ` bind_step.missing L rng r = lacking_binds L r"
    unfolding lacking_binds_def
    by (rule arg_cong [where f = "image OBind"], rule set_eqI) (simp only: bind_missing_iff [OF rg] p mem_Collect_eq)
  show "bind_step.surplus L rng r = {bi \<in> set (binds r). \<not> (\<exists>name. port_bind L r name bi)}"
    by (rule set_eqI, unfold bind_surplus_iff [OF rg] p mem_Collect_eq port_bind_def) blast
qed

lemma frontends_by_ports:
  assumes rg: "ranges_ok r rng" and u: "unambiguous r"
    and pb: "\<forall>name\<in>dom (ports r). \<forall>b. portBackends r name = Some b \<longleftrightarrow> port_backend L r name b"
  shows "OFrontend ` frontend_step.missing L rng r = lacking_frontends L r"
    and "frontend_step.surplus L rng r = {f \<in> set (frontends r). \<not> (\<exists>name\<in>dom (ports r). port_frontend L r name f)}"
proof -
  have "x \<in> frontend_step.missing L rng r \<longleftrightarrow> (\<exists>name\<in>dom (ports r). \<exists>b. port_backend L r name b \<and>
      x = targetFrontend L r name b \<and> \<not> (\<exists>f. port_frontend L r name f))" for x
  proof
    assume "x \<in> frontend_step.missing L rng r"
    then obtain name b where n: "name \<in> dom (ports r)" and b: "portBackends r name = Some b"
      and x: "x = targetFrontend L r name b" "\<not> (\<exists>f\<in>set (frontends r). frontend_for L r name b f)"
      unfolding frontend_missing_iff [OF rg] by blast
    have "port_backend L r name b" using pb n b by blast
    with frontend_port [OF u this] n x
    show "\<exists>name\<in>dom (ports r). \<exists>b. port_backend L r name b \<and> x = targetFrontend L r name b \<and> \<not> (\<exists>f. port_frontend L r name f)"
      by blast
  next
    assume "\<exists>name\<in>dom (ports r). \<exists>b. port_backend L r name b \<and> x = targetFrontend L r name b \<and> \<not> (\<exists>f. port_frontend L r name f)"
    then obtain name b where n: "name \<in> dom (ports r)" and b: "port_backend L r name b"
      and x: "x = targetFrontend L r name b" "\<not> (\<exists>f. port_frontend L r name f)" by blast
    have "portBackends r name = Some b" using pb n b by blast
    with frontend_port [OF u b] n x show "x \<in> frontend_step.missing L rng r"
      unfolding frontend_missing_iff [OF rg] by blast
  qed
  then show "OFrontend ` frontend_step.missing L rng r = lacking_frontends L r"
    unfolding lacking_frontends_def by (intro arg_cong [where f = "image OFrontend"]) blast
  have "(\<exists>b. portBackends r name = Some b \<and> frontend_for L r name b x) \<longleftrightarrow> port_frontend L r name x"
    if "name \<in> dom (ports r)" "x \<in> set (frontends r)" for name x
    unfolding port_frontend_def using pb that by blast
  then show "frontend_step.surplus L rng r = {f \<in> set (frontends r). \<not> (\<exists>name\<in>dom (ports r). port_frontend L r name f)}"
    by (intro set_eqI) (unfold frontend_surplus_iff [OF rg] mem_Collect_eq, blast)
qed

text \<open>The specification does not look at the port maps.\<close>

lemma spec_objects:
  assumes "same_objects r r'"
  shows "port_backend L r' = port_backend L r" and "port_frontend L r' = port_frontend L r"
    and "port_bind L r' = port_bind L r" and "port_server L r' = port_server L r"
    and "backends_settled L r' = backends_settled L r" and "frontends_settled L r' = frontends_settled L r"
    and "lacking_frontends L r' = lacking_frontends L r" and "lacking_binds L r' = lacking_binds L r"
    and "lacking_servers L r' = lacking_servers L r" and "unambiguous r' = unambiguous r"
proof -
  note f = same_objects_fields [OF assms] for_config [OF same_objects_fields(7) [OF assms]]
  have c: "externalAddresses r' = externalAddresses r" "targetServers r' = targetServers r"
    using f(7) by (simp_all add: same_config_def)
  have t: "targetFrontend L r' = targetFrontend L r" "targetBind r' = targetBind r" "targetServer r' = targetServer r"
    using f(8) makeResourceName_config [OF f(7)]
    by (simp_all add: fun_eq_iff targetFrontend_def targetBind_def targetServer_def)
  show pb: "port_backend L r' = port_backend L r" by (simp add: fun_eq_iff port_backend_def f)
  show pf: "port_frontend L r' = port_frontend L r" by (simp add: fun_eq_iff port_frontend_def f pb)
  show "port_bind L r' = port_bind L r" by (simp add: fun_eq_iff port_bind_def f c pf)
  show "port_server L r' = port_server L r" by (simp add: fun_eq_iff port_server_def f c pb)
  show "backends_settled L r' = backends_settled L r" by (simp add: backends_settled_def f pb)
  show "frontends_settled L r' = frontends_settled L r" by (simp add: frontends_settled_def f pf)
  show "lacking_frontends L r' = lacking_frontends L r" by (simp add: lacking_frontends_def f pb pf t)
  show "lacking_binds L r' = lacking_binds L r" by (simp add: lacking_binds_def f c pf t)
  show "lacking_servers L r' = lacking_servers L r" by (simp add: lacking_servers_def f c pb t)
  show "unambiguous r' = unambiguous r" by (simp add: unambiguous_def f)
qed

lemma no_frontends_no_binds:
  assumes "portFrontends r = Map.empty"
  shows "targetBinds L rng r = []"
proof -
  have "targetBinds_inner r a ps = []" for a ps by (induction ps) (auto simp: assms)
  then have "targetBinds_loop rng r i as = []" for i as by (induction as arbitrary: i) auto
  then show ?thesis by (simp add: targetBinds_def)
qed

lemma frontends_settled_iff:
  assumes "ranges_ok r rng" and "unambiguous r"
    and "\<forall>name\<in>dom (ports r). \<forall>b. portBackends r name = Some b \<longleftrightarrow> port_backend L r name b"
    and "\<forall>name\<in>dom (ports r). \<exists>b. port_backend L r name b"
  shows "frontend_step.missing L rng r = {} \<and> frontend_step.surplus L rng r = {} \<longleftrightarrow> frontends_settled L r"
proof -
  have "frontend_step.missing L rng r = {} \<longleftrightarrow> lacking_frontends L r = {}"
    using frontends_by_ports(1) [OF assms(1-3)] by (metis image_is_empty)
  moreover have "lacking_frontends L r = {} \<longleftrightarrow> (\<forall>name\<in>dom (ports r). \<exists>f. port_frontend L r name f)"
    unfolding lacking_frontends_def using assms(4) by blast
  ultimately show ?thesis
    unfolding frontends_by_ports(2) [OF assms(1-3)] frontends_settled_def by blast
qed

text \<open>The object lists of the record, apart.\<close>

lemma managed_mem [simp]:
  "OBackend b \<in> managed r \<longleftrightarrow> b \<in> set (backends r)" "OFrontend f \<in> managed r \<longleftrightarrow> f \<in> set (frontends r)"
  "OBind bi \<in> managed r \<longleftrightarrow> bi \<in> set (binds r)" "OServer s \<in> managed r \<longleftrightarrow> s \<in> set (servers r)"
  "OLoadBalancer i \<notin> managed r" "OResourceWithTag i t \<notin> managed r"
  by (auto simp: managed_def)

lemma spec_settled_destroy:
  assumes "backends_settled L r"
  shows "spec_destroy L r = OFrontend ` {f \<in> set (frontends r). \<not> (\<exists>name\<in>dom (ports r). port_frontend L r name f)} \<union>
    OBind ` {bi \<in> set (binds r). \<not> (frontends_settled L r \<and> (\<exists>name. port_bind L r name bi))} \<union>
    OServer ` {s \<in> set (servers r). \<not> (\<exists>name. port_server L r name s)}"
proof (rule set_eqI)
  fix x show "x \<in> spec_destroy L r \<longleftrightarrow> x \<in> OFrontend ` {f \<in> set (frontends r). \<not> (\<exists>name\<in>dom (ports r). port_frontend L r name f)} \<union>
    OBind ` {bi \<in> set (binds r). \<not> (frontends_settled L r \<and> (\<exists>name. port_bind L r name bi))} \<union>
    OServer ` {s \<in> set (servers r). \<not> (\<exists>name. port_server L r name s)}"
    using assms by (cases x) (auto simp: spec_destroy_def image_iff)
qed

lemma spec_settled_backends:
  assumes L: "lib_contract L" and rg: "\<forall>k. ranges_ok r (rngs k)" and fc: "frontends_complete r" and u: "unambiguous r"
    and maps: "portBackends r = Map.empty" "portFrontends r = Map.empty"
    and run: "reconcile_steps L rngs r = (Inr (cr, de), r')" and settled: "backends_settled L r"
  shows "set cr = spec_create L r \<and> set de = spec_destroy L r"
proof -
  obtain c1 d1 r1 c2 d2 r2 c3 d3 c4 d4 where
    b: "reconcileBackends L (rngs 0) r = (Inr (c1, d1), r1)"
    and f: "reconcileFrontends L (rngs 1) r1 = (Inr (c2, d2), r2)"
    and bi: "reconcileBinds L (rngs 2) r2 = (Inr (c3, d3), r2)"
    and se: "reconcileServers L (rngs 3) r2 = (Inr (c4, d4), r2)"
    and lists: "cr = c1 @ c2 @ c3 @ c4" "de = d1 @ d2 @ d3 @ d4"
    using reconcile_steps_split [OF run] by blast
  have q: "c1 = []" "d1 = []"
    using backend_step.step_sets [OF L _ b, simplified] backends_settled_iff [OF rg [rule_format], of L 0] settled by auto
  obtain pb where r1: "r1 = r\<lparr>portBackends := pb\<rparr>"
    and pb: "\<forall>name\<in>dom (ports r). \<exists>b\<in>set (backends r). pb name = Some b \<and> backend_for L r name b"
    using reconcileBackends_quiet [OF L rg [rule_format] b [unfolded q]] by blast
  have s1: "same_objects r r1" and s2: "same_objects r r2"
    using reconcileBackends_objects [OF b] reconcileFrontends_objects [OF f] same_objects_trans by blast+
  note o1 = same_objects_fields [OF s1] spec_objects [OF s1] and o2 = same_objects_fields [OF s2] spec_objects [OF s2]
  have rg1: "ranges_ok r1 (rngs 1)" and rg2: "ranges_ok r2 (rngs k)" for k
    using rg ranges_config [OF o1(7)] ranges_config [OF o2(7)] by simp_all
  have pb1: "\<forall>name\<in>dom (ports r1). \<forall>b. portBackends r1 name = Some b \<longleftrightarrow> port_backend L r1 name b"
  proof (intro ballI allI)
    fix name b assume "name \<in> dom (ports r1)"
    then obtain b0 where b0: "b0 \<in> set (backends r)" "pb name = Some b0" "backend_for L r name b0" using pb by (auto simp: r1)
    then have "port_backend L r name b0" by (simp add: port_backend_def)
    then show "portBackends r1 name = Some b \<longleftrightarrow> port_backend L r1 name b"
      using b0 port_backend_unique [OF u] o1(16) by (auto simp: r1)
  qed
  have "portBackends r2 = portBackends r1" by (rule reconcileFrontends_portBackends [OF f])
  with pb1 have pb2: "\<forall>name\<in>dom (ports r2). \<forall>b. portBackends r2 name = Some b \<longleftrightarrow> port_backend L r2 name b"
    by (simp add: o1 o2)
  have "unambiguous r1" using u by (simp add: o1)
  note fr = frontends_by_ports [OF rg1 this pb1, unfolded o1] and frs = frontends_settled_iff [OF rg1 this pb1, unfolded o1]
  have fa: "\<forall>f\<in>set (frontends r1). has_attrs frontend_attr frontendAttributes f"
    using fc o1(2) by (simp add: frontends_complete_def)
  note f_sets = frontend_step.step_sets [OF L fa f]
  have fs: "c2 = [] \<and> d2 = [] \<longleftrightarrow> frontends_settled L r"
    using frs f_sets settled by (auto simp: backends_settled_def)
  note s_sets = server_step.step_sets [OF L _ se, simplified] servers_by_ports [OF rg2 pb2, of 3, unfolded o2]
  note b_sets = bind_step.step_sets [OF L _ bi, simplified]
  show ?thesis
  proof (cases "frontends_settled L r")
    case False
    then have "r2 = r1" using reconcileFrontends_busy [OF f] fs by blast
    then have "portFrontends r2 = Map.empty" by (simp add: r1 maps)
    from bind_step.step_no_target [OF L _ no_frontends_no_binds [OF this] bi]
    have "c3 = []" "set d3 = OBind ` set (binds r)" by (simp_all add: o2)
    then show ?thesis using f_sets fr s_sets False settled
      by (auto simp: lists q spec_create_def spec_settled_destroy [OF settled])
  next
    case True
    with fs have f': "reconcileFrontends L (rngs 1) r1 = (Inr ([], []), r2)" using f by simp
    obtain pf where r2: "r2 = r1\<lparr>portFrontends := pf\<rparr>" and pf: "\<forall>name\<in>dom (ports r1). \<forall>b. portBackends r1 name = Some b \<longrightarrow>
        (\<exists>f\<in>set (frontends r1). pf name = Some f \<and> frontend_for L r1 name b f)"
      using reconcileFrontends_quiet [OF L rg1 fa f'] by blast
    have "\<forall>name\<in>dom (ports r2). \<forall>f. portFrontends r2 name = Some f \<longleftrightarrow> port_frontend L r2 name f"
    proof (intro ballI allI)
      fix name f assume n: "name \<in> dom (ports r2)"
      then obtain b where b: "port_backend L r name b" using settled by (auto simp: backends_settled_def o2)
      then have "portBackends r1 name = Some b" using pb1 n by (simp add: o1 o2)
      with pf n obtain f0 where f0: "f0 \<in> set (frontends r)" "pf name = Some f0" "frontend_for L r name b f0"
        unfolding o1 o2 for_config [OF o1(7)] by blast
      then have "port_frontend L r name f0" using b unfolding port_frontend_def by blast
      then show "portFrontends r2 name = Some f \<longleftrightarrow> port_frontend L r2 name f"
        using f0 port_frontend_unique [OF u] o2(17) by (auto simp: r2)
    qed
    note bb = binds_by_ports [OF rg2 this, of 2, unfolded o2]
    have none: "{f \<in> set (frontends r). \<not> (\<exists>name\<in>dom (ports r). port_frontend L r name f)} = {}"
      using True unfolding frontends_settled_def by blast
    have nil: "c2 = []" "d2 = []" using True fs by blast+
    have c: "set c3 = lacking_binds L r" "set c4 = lacking_servers L r"
      and d: "set d3 = OBind ` {bi \<in> set (binds r). \<not> (\<exists>name. port_bind L r name bi)}"
        "set d4 = OServer ` {s \<in> set (servers r). \<not> (\<exists>name. port_server L r name s)}"
      using s_sets b_sets bb by simp_all
    show ?thesis unfolding lists q nil spec_create_def spec_settled_destroy [OF settled] none set_append c d
      using True settled by simp
  qed
qed

text \<open>Both cases.\<close>

lemma steps_meet_spec:
  assumes "lib_contract L" and "\<forall>k. ranges_ok r (rngs k)" and "frontends_complete r" and "unambiguous r"
    and "portBackends r = Map.empty" "portFrontends r = Map.empty"
    and "reconcile_steps L rngs r = (Inr (cr, de), r')"
  shows "set cr = spec_create L r \<and> set de = spec_destroy L r"
  by (cases "backends_settled L r")
     (rule spec_settled_backends [OF assms], assumption, rule spec_busy_backends [OF assms(1-3,5-7)], assumption)

text \<open>
  C2. \<open>ReconcileCheck\<close> is equivalent to its specification by sets: on retrieved objects that are all
  ready, complete and uniquely named it succeeds, and what it lists for creation and destruction are
  exactly the two sets, whatever the order of the ports and however \<open>compare.Reconcile\<close> picks partners.
\<close>

theorem ReconcileCheck_meets_spec:
  assumes "lib_contract L" and "\<forall>k. ranges_ok (rcn s) (rngs k)"
    and "retrieveState L A s = (None, s1)" and "\<forall>x\<in>managed (rcn s1). obj_class L x = Ready"
    and "frontends_complete (rcn s1)" and "unambiguous (rcn s1)"
  shows "\<exists>cr de s'. ReconcileCheck L A rngs s = (Inr (cr, de), s') \<and>
    set cr = spec_create L (rcn s1) \<and> set de = spec_destroy L (rcn s1)"
proof -
  note ret = retrieveState_retrieved [OF assms(1,3)]
  then have rg: "\<forall>k. ranges_ok (rcn s1) (rngs k)" using assms(2) ranges_config by blast
  have "existingFailed (rcn s1) = []" "existingUpdating (rcn s1) = []" "existingProgressing (rcn s1) = []"
    using ret assms(4) unfolding retrieved_def classified_def in_class_def
    by (metis (mono_tags, lifting) Collect_empty_eq obj_class.distinct set_empty)+
  note clean = ReconcileCheck_clean [OF assms(3) this, of rngs]
  obtain cr de r' where run: "reconcile_steps L rngs (rcn s1) = (Inr (cr, de), r')"
    using steps_total [OF assms(1,5)] by blast
  from steps_meet_spec [OF assms(1) rg assms(5,6) _ _ run] ret clean run show ?thesis by simp
qed

theorem ReconcileCheck_meets_spec_witness:
  "\<exists>cr de s'. ReconcileCheck ref_lib ref_api (\<lambda>k i. https_ports) (check_st https_ports wanted_world) = (Inr (cr, de), s') \<and>
     cr = [OBackend (targetBackend ref_lib sample_recon ''https'')] \<and>
     set de = spec_destroy ref_lib (rcn (snd (retrieveState ref_lib ref_api (check_st https_ports wanted_world))))"
proof -
  let ?s = "check_st https_ports wanted_world"
  let ?s1 = "snd (retrieveState ref_lib ref_api ?s)"
  have "fst (retrieveState ref_lib ref_api ?s) = None" by code_simp
  then have ret: "retrieveState ref_lib ref_api ?s = (None, ?s1)" by (metis prod.collapse)
  have lists: "backends (rcn ?s1) = [wanted_backend]" "frontends (rcn ?s1) = [wanted_frontend]"
    "binds (rcn ?s1) = [wanted_bind]" "servers (rcn ?s1) = [wanted_server]" by code_simp+
  have ready: "\<forall>x\<in>managed (rcn ?s1). obj_class ref_lib x = Ready" unfolding managed_def lists by code_simp
  have "frontends_complete (rcn ?s1)" "unambiguous (rcn ?s1)"
    by (simp_all add: lists unambiguous_def frontends_complete_def wanted_frontend_def)
  from ReconcileCheck_meets_spec [OF ref_lib_contract ranges_const ret ready this] http_distinct
  obtain cr de s' where run: "ReconcileCheck ref_lib ref_api (\<lambda>k i. https_ports) ?s = (Inr (cr, de), s')"
    and de: "set de = spec_destroy ref_lib (rcn ?s1)" by blast
  have "(case fst (ReconcileCheck ref_lib ref_api (\<lambda>k i. https_ports) ?s) of Inl e \<Rightarrow> [] | Inr (c, d) \<Rightarrow> c) =
      [OBackend (targetBackend ref_lib sample_recon ''https'')]" by code_simp
  with run de show ?thesis by simp
qed

end
