(* ===== verification/EngineRun.thy ===== *)
theory EngineRun
  imports Engine CheckSpec
begin

text \<open>
  The branches of \<open>Reconcile\<close> on an Engine that meets the contract: what creating and waiting do to the
  stored objects, and what becomes of our objects and of the rest.
\<close>

section \<open>Creating\<close>

text \<open>A view to which the objects \<open>xs\<close> have been added, with the tags \<open>ts\<close>.\<close>

definition added :: "string list \<Rightarrow> object list \<Rightarrow> engine_view \<Rightarrow> engine_view \<Rightarrow> bool" where
  "added ts xs v v' \<longleftrightarrow>
     (\<forall>x\<in>set xs. ev_store v (ref_identifier x) = None \<and> ev_store v' (ref_identifier x) = Some x \<and>
        has_tags v' ts (ref_identifier x) \<and> childless v x) \<and>
     (\<forall>i. i \<notin> ref_identifier ` set xs \<longrightarrow> ev_store v' i = ev_store v i) \<and>
     (\<forall>i t. i \<notin> ref_identifier ` set xs \<longrightarrow> ((i, t) \<in> ev_tags v' \<longleftrightarrow> (i, t) \<in> ev_tags v))"

lemma added_Nil [simp]: "added ts [] v v"
  by (simp add: added_def)

lemma added_stored: "added ts xs v v' \<Longrightarrow> ev_store v i = Some x \<Longrightarrow> ev_store v' i = Some x"
  unfolding added_def by (metis imageE option.distinct(1))

lemma added_trans:
  assumes "added ts [x] v v1" and "added ts xs v1 v2"
  shows "added ts (x # xs) v v2"
proof -
  let ?i = "ref_identifier x"
  have x: "ev_store v ?i = None" "ev_store v1 ?i = Some x" "has_tags v1 ts ?i" "childless v x"
    "j \<noteq> ?i \<Longrightarrow> ev_store v1 j = ev_store v j" "j \<noteq> ?i \<Longrightarrow> (j, t) \<in> ev_tags v1 \<longleftrightarrow> (j, t) \<in> ev_tags v" for j t
    using assms(1) by (auto simp: added_def)
  have less: "childless v1 y \<Longrightarrow> childless v y" for y unfolding childless_def using added_stored [OF assms(1)] by blast
  have new: "?i \<notin> ref_identifier ` set xs" using assms(2) x(2) by (auto simp: added_def)
  have "ev_store v2 ?i = Some x" using added_stored [OF assms(2) x(2)] .
  moreover have "has_tags v2 ts ?i" using x(3) new assms(2) by (simp add: has_tags_def added_def)
  moreover have "ev_store v (ref_identifier y) = None \<and> ev_store v2 (ref_identifier y) = Some y \<and> has_tags v2 ts (ref_identifier y) \<and> childless v y"
    if "y \<in> set xs" for y
  proof -
    have y: "ev_store v1 (ref_identifier y) = None" "ev_store v2 (ref_identifier y) = Some y" "has_tags v2 ts (ref_identifier y)"
      "childless v y" using assms(2) that less by (auto simp: added_def)
    moreover have "ref_identifier y \<noteq> ?i" using y(1) x(2) by auto
    ultimately show ?thesis using x(5) by simp
  qed
  ultimately show ?thesis using x assms(2) by (auto simp: added_def)
qed

lemma tag_loop_serves:
  assumes C: "engine_contract L A ok V"
  shows "ok w \<Longrightarrow> i \<in> dom (ev_store (V w)) \<Longrightarrow>
    \<exists>w'. tag_loop A i ts w = (None, w') \<and> ok w' \<and> ev_store (V w') = ev_store (V w) \<and>
      ev_tags (V w') = ev_tags (V w) \<union> {(i, t) | t. t \<in> set ts}"
proof (induction ts arbitrary: w)
  case (Cons t ts)
  have "serves_tag A ok V" using C by (simp add: engine_contract_def)
  then obtain obj w1 where c: "api_create A (OResourceWithTag i t) w = (None, obj, w1)" "ok w1"
    "V w1 = (V w)\<lparr>ev_tags := insert (i, t) (ev_tags (V w))\<rparr>"
    using Cons.prems unfolding serves_tag_def by blast
  from Cons.IH [OF c(2)] c(3) Cons.prems(2) obtain w' where "tag_loop A i ts w1 = (None, w')" "ok w'"
    "ev_store (V w') = ev_store (V w)" "ev_tags (V w') = insert (i, t) (ev_tags (V w)) \<union> {(i, t) | t. t \<in> set ts}" by auto
  with c show ?case by (intro exI [of _ w']) auto
qed simp

lemma created_refreshed: "created_as obj i x \<Longrightarrow> refreshed obj x = x \<and> ref_identifier x = i"
  by (cases obj) auto

lemma parent_ok_mono: "parent_ok st obj \<Longrightarrow> (\<And>i x. st i = Some x \<Longrightarrow> st' i = Some x) \<Longrightarrow> parent_ok st' obj"
  by (cases obj) (simp_all, blast+)

lemma create_loop_serves:
  assumes C: "engine_contract L A ok V"
  shows "ok (world s) \<Longrightarrow> \<forall>obj\<in>set os. parent_ok (ev_store (V (world s))) obj \<Longrightarrow>
    \<exists>xs s'. create_loop L A os created s = (None, created @ xs, s') \<and> ok (world s') \<and> rcn s' = rcn s \<and>
      added (tags (rcn s)) xs (V (world s)) (V (world s')) \<and>
      list_all2 (\<lambda>obj x. created_as obj (ref_identifier x) x) os xs"
proof (induction os arbitrary: created s)
  case Nil
  then show ?case by (intro exI [of _ "[]"] exI [of _ s]) simp
next
  case (Cons obj os)
  let ?v = "V (world s)"
  have "serves_create A ok V" using C by (simp add: engine_contract_def)
  then obtain i x w1 where c: "api_create A obj (world s) = (None, x, w1)" "ok w1" "created_as obj i x"
    "ev_store ?v i = None" "\<forall>t. (i, t) \<notin> ev_tags ?v" "childless ?v x" "V w1 = ?v\<lparr>ev_store := (ev_store ?v)(i \<mapsto> x)\<rparr>"
    using Cons.prems unfolding serves_create_def by (metis list.set_intros(1))
  have x: "refreshed obj x = x" "ref_identifier x = i" using created_refreshed [OF c(3)] by auto
  have "stored L i x" using engine_contractD(1) [OF C c(2)] c(7) by simp
  then have gi: "getObjectIdentifier L x = Inr i" by (simp add: stored_def)
  obtain w2 where t: "tag_loop A i (tags (rcn s)) w1 = (None, w2)" "ok w2" "ev_store (V w2) = (ev_store ?v)(i \<mapsto> x)"
    "ev_tags (V w2) = ev_tags ?v \<union> {(i, t) | t. t \<in> set (tags (rcn s))}"
    using tag_loop_serves [OF C c(2), of i "tags (rcn s)"] c(7) by auto
  let ?s = "count_created (s\<lparr>world := w2\<rparr>)"
  have one: "added (tags (rcn s)) [x] ?v (V w2)"
    using c(4,6) t(3,4) x(2) by (auto simp: added_def has_tags_def)
  have "\<forall>obj\<in>set os. parent_ok (ev_store (V (world ?s))) obj"
    using Cons.prems(2) parent_ok_mono added_stored [OF one] by (metis count_rcn(6) list.set_intros(2) st.select_convs(1) st.update_convs(1) st.surjective)
  from Cons.IH [OF _ this, of "created @ [x]"] t(2) obtain xs s' where
    r: "create_loop L A os (created @ [x]) ?s = (None, (created @ [x]) @ xs, s')" "ok (world s')" "rcn s' = rcn s"
    "added (tags (rcn s)) xs (V w2) (V (world s'))" "list_all2 (\<lambda>obj x. created_as obj (ref_identifier x) x) os xs" by auto
  have "create_loop L A (obj # os) created s = (None, created @ x # xs, s')"
    using c(1) t(1) gi x r(1) by (simp add: tagResource_def)
  then show ?case using r added_trans [OF one r(4)] c(3) x by (intro exI [of _ "x # xs"] exI [of _ s']) simp
qed

section \<open>Waiting\<close>

text \<open>The backoff of \<open>n\<close> steps returns as soon as the condition is done at the first call.\<close>

definition prompt_backoff :: "'w backoff \<Rightarrow> int \<Rightarrow> bool" where
  "prompt_backoff B n \<longleftrightarrow> (\<forall>f s s'. f s = (Inr True, s') \<longrightarrow> B n f s = (None, s'))"

lemma ref_backoff_prompt: "0 < n \<Longrightarrow> prompt_backoff ref_backoff n"
proof -
  assume "0 < n"
  then obtain k where "nat n = Suc k" by (cases "nat n") auto
  then show ?thesis by (simp add: prompt_backoff_def ref_backoff_def)
qed

lemma same_type_refl: "object_state x \<noteq> None \<Longrightarrow> same_type x x"
  by (cases x) simp_all

lemma wait_pass_serves:
  assumes C: "engine_contract L A ok V"
  shows "ok w \<Longrightarrow> \<forall>x\<in>set os. ev_store (V w) (ref_identifier x) = Some x \<and> object_state x \<noteq> None \<Longrightarrow>
    \<exists>w'. wait_pass L A True os seen [] [] w = (Inr ([], []), seen @ os, w') \<and> ok w' \<and> V w' = V w"
proof (induction os arbitrary: seen w)
  case (Cons x os)
  have x: "ev_store (V w) (ref_identifier x) = Some x" "object_state x \<noteq> None" using Cons.prems(2) by auto
  then obtain st where st: "object_state x = Some st" by blast
  obtain w1 where g: "api_get A x w = (None, x, w1)" "ok w1" "V w1 = V w"
    using engine_contractD(2) [OF C Cons.prems(1) x(1) same_type_refl [OF x(2)]] by blast
  have "obj_class L x = Ready" using engine_contractD(1) [OF C Cons.prems(1) x(1)] by (simp add: stored_def)
  then have r: "\<not> isResourceUpdating L x" "\<not> stateError L st" "\<not> statePending L st"
    using st by (auto simp: obj_class_def split: if_splits)
  obtain w' where "wait_pass L A True os (seen @ [x]) [] [] w1 = (Inr ([], []), (seen @ [x]) @ os, w')" "ok w'" "V w' = V w1"
    using Cons.IH [OF g(2), of "seen @ [x]"] Cons.prems(2) g(3) by auto
  then show ?case using st g r by (simp add: Let_def)
qed simp

lemma waitForResources_serves:
  assumes C: "engine_contract L A ok V" and B: "prompt_backoff B (backoffSteps (rcn s))" and w: "ok (world s)"
    and os: "\<forall>x\<in>set os. ev_store (V (world s)) (ref_identifier x) = Some x \<and> object_state x \<noteq> None"
  shows "\<exists>w'. waitForResources L A B os s = (None, s\<lparr>world := w'\<rparr>) \<and> ok w' \<and> V w' = V (world s)"
proof -
  let ?s0 = "\<lparr>w_world = world s, w_objects = os, firstPass = True\<rparr>"
  obtain w' where p: "wait_pass L A True os [] [] [] (world s) = (Inr ([], []), os, w')" "ok w'" "V w' = V (world s)"
    using wait_pass_serves [OF C w os, of "[]"] by auto
  then have "wait_condition L A ?s0 = (Inr True, ?s0\<lparr>w_world := w', w_objects := os, firstPass := False\<rparr>)"
    by (simp add: wait_condition_def Let_def)
  with B have "B (backoffSteps (rcn s)) (wait_condition L A) ?s0 = (None, ?s0\<lparr>w_world := w', w_objects := os, firstPass := False\<rparr>)"
    unfolding prompt_backoff_def by blast
  then show ?thesis using p by (intro exI [of _ w']) (simp add: waitForResources_def)
qed

section \<open>The branches\<close>

lemma destroy_branch_serves:
  assumes C: "engine_contract L A ok V" and I: "identifier_contract L" and N: "not_found_contract L" and w: "ok (world s)"
    and os: "in_store (V (world s)) de" and cl: "closed_under_children (V (world s)) (set de)"
  shows "\<exists>s'. destroy_branch L A de s = Some (Again, s') \<and> ok (world s') \<and> rcn s' = rcn s \<and>
    removed (set de) (V (world s)) (V (world s')) \<and> (\<forall>x\<in>set de. ev_store (V (world s')) (ref_identifier x) = None)"
proof -
  let ?s1 = "s\<lparr>met := (met s)\<lparr>pendingDestroy := pendingDestroy (met s) + int (length de)\<rparr>\<rparr>"
  obtain ss where ss: "mustStringifyObjects L de = Inr ss" using mustStringify_total [OF I] by metis
  obtain allow s' where "destroy_loop L A de True ?s1 = Some (Inr ([], allow), s')" "ok (world s')" "rcn s' = rcn s"
    "removed (set de) (V (world s)) (V (world s'))" "\<forall>x\<in>set de. ev_store (V (world s')) (ref_identifier x) = None"
    using destroy_loop_serves [OF C I N, of ?s1 de] w os cl by auto
  then show ?thesis using ss
    by (intro exI [of _ "count_total s'"]) (simp add: destroy_branch_def Let_def count_total_def)
qed

lemma created_kind: "created_as obj i x \<Longrightarrow> object_state x \<noteq> None"
  by (cases obj) auto

lemma create_branch_serves:
  assumes C: "engine_contract L A ok V" and I: "identifier_contract L" and B: "prompt_backoff B (backoffSteps (rcn s))"
    and w: "ok (world s)" and par: "\<forall>obj\<in>set cr. parent_ok (ev_store (V (world s))) obj"
  shows "\<exists>xs s'. create_branch L A B cr s = (Again, s') \<and> ok (world s') \<and> rcn s' = rcn s \<and>
    added (tags (rcn s)) xs (V (world s)) (V (world s')) \<and> list_all2 (\<lambda>obj x. created_as obj (ref_identifier x) x) cr xs"
proof -
  let ?s = "s\<lparr>met := (met s)\<lparr>pendingCreate := pendingCreate (met s) + int (length cr)\<rparr>\<rparr>"
  have ws: "ok (world ?s)" and ps: "\<forall>obj\<in>set cr. parent_ok (ev_store (V (world ?s))) obj" using w par by simp_all
  obtain xs s1 where c0: "create_loop L A cr [] ?s = (None, [] @ xs, s1)" "ok (world s1)" "rcn s1 = rcn ?s"
    "added (tags (rcn ?s)) xs (V (world ?s)) (V (world s1))" "list_all2 (\<lambda>obj x. created_as obj (ref_identifier x) x) cr xs"
    using create_loop_serves [OF C ws ps, of "[]"] by (elim exE conjE) (rule that)
  have c: "create_loop L A cr [] ?s = (None, xs, s1)" "rcn s1 = rcn s" "added (tags (rcn s)) xs (V (world s)) (V (world s1))"
    using c0(1,3,4) by simp_all
  obtain ss where ss: "mustStringifyObjects L xs = Inr ss" using mustStringify_total [OF I] by metis
  have "\<forall>x\<in>set xs. ev_store (V (world s1)) (ref_identifier x) = Some x \<and> object_state x \<noteq> None"
    using c(3) list_all2_rightD [OF c0(5)] created_kind unfolding added_def by blast
  from waitForResources_serves [OF C _ c0(2) this, of B] B c(2)
  obtain w' where wt: "waitForResources L A B xs s1 = (None, s1\<lparr>world := w'\<rparr>)" "ok w'" "V w' = V (world s1)" by auto
  let ?s' = "count_total (s1\<lparr>world := w', met := (met s1)\<lparr>createDurations := createDurations (met s1) + 1\<rparr>\<rparr>)"
  have "create_branch L A B cr s = (Again, ?s')" by (simp add: create_branch_def c(1) ss wt(1))
  moreover have "world ?s' = w'" "rcn ?s' = rcn s" by (simp_all add: count_total_def c(2))
  moreover have "added (tags (rcn s)) xs (V (world s)) (V (world ?s'))" using c(3) wt(3) by (simp add: count_total_def)
  moreover have "ok (world ?s')" using wt(2) by (simp add: count_total_def)
  ultimately show ?thesis using c0(5) by (intro exI [of _ xs] exI [of _ ?s'] conjI) assumption+
qed

section \<open>Our objects and the rest\<close>

text \<open>Every stored object that refers to one of ours is ours.\<close>

definition self_contained :: "recon \<Rightarrow> engine_view \<Rightarrow> bool" where
  "self_contained r v \<longleftrightarrow> closed_under_children v (ours r v)"

text \<open>The objects that are not ours, with their tags.\<close>

definition others :: "recon \<Rightarrow> engine_view \<Rightarrow> (string \<times> object \<times> string set) set" where
  "others r v = {(i, x, T). ev_store v i = Some x \<and> x \<notin> ours r v \<and> T = {t. (i, t) \<in> ev_tags v}}"

text \<open>Views whose objects carry their identifiers.\<close>

definition identified :: "engine_view \<Rightarrow> bool" where
  "identified v \<longleftrightarrow> (\<forall>i x. ev_store v i = Some x \<longrightarrow> ref_identifier x = i)"

lemma engine_identified: "engine_contract L A ok V \<Longrightarrow> ok w \<Longrightarrow> identified (V w)"
  unfolding identified_def by (intro allI impI, drule (2) engine_contractD(1)) (simp add: stored_def)

lemma tagged_iff:
  "identified v \<Longrightarrow> x \<in> tagged_objects r v \<longleftrightarrow> ev_store v (ref_identifier x) = Some x \<and> has_tags v (tags r) (ref_identifier x)"
  unfolding tagged_objects_def identified_def by blast

lemma ours_kind [simp]: "OLoadBalancer i \<notin> ours r v" "OResourceWithTag i t \<notin> ours r v"
  by (simp_all add: ours_def)

lemma ours_tagged: "x \<in> ours r v \<Longrightarrow> x \<in> tagged_objects r v"
  by (simp add: ours_def)

lemma ours_bind: "OBind bi \<in> ours r v \<longleftrightarrow> OBind bi \<in> tagged_objects r v \<and> (\<exists>f. OFrontend f \<in> ours r v \<and> fe_id f = bi_frontend bi)"
  by (auto simp: ours_def)

lemma ours_server: "OServer s \<in> ours r v \<longleftrightarrow> OServer s \<in> tagged_objects r v \<and> (\<exists>b. OBackend b \<in> ours r v \<and> be_id b = se_backend s)"
  by (auto simp: ours_def)

lemma ours_top:
  "OBackend b \<in> ours r v \<longleftrightarrow> OBackend b \<in> tagged_objects r v \<and> be_lb b = lb_identifier r"
  "OFrontend f \<in> ours r v \<longleftrightarrow> OFrontend f \<in> tagged_objects r v \<and> fe_lb f = Some (lb_identifier r)"
  by (auto simp: ours_def)

text \<open>After destroying some of ours with their children.\<close>

lemma tagged_removed:
  assumes rm: "removed X v v'" and ids: "identified v" and gone: "\<forall>x\<in>X. ev_store v' (ref_identifier x) = None"
  shows "tagged_objects r v' = tagged_objects r v - X"
proof (rule set_eqI)
  fix x
  have ids': "identified v'" using ids removed_stored [OF rm] unfolding identified_def by blast
  have "ev_store v' (ref_identifier x) = Some x \<longleftrightarrow> ev_store v (ref_identifier x) = Some x \<and> x \<notin> X"
    using rm gone unfolding removed_def by (metis option.distinct(1) option.inject)
  moreover have "ev_store v' (ref_identifier x) = Some x \<Longrightarrow> has_tags v' ts (ref_identifier x) \<longleftrightarrow> has_tags v ts (ref_identifier x)" for ts
    using rm by (simp add: removed_def has_tags_def)
  ultimately show "x \<in> tagged_objects r v' \<longleftrightarrow> x \<in> tagged_objects r v - X"
    unfolding Diff_iff tagged_iff [OF ids] tagged_iff [OF ids'] by blast
qed

lemma ours_removed:
  assumes rm: "removed X v v'" and ids: "identified v" and gone: "\<forall>x\<in>X. ev_store v' (ref_identifier x) = None"
    and cl: "closed_under_children v X"
  shows "ours r v' = ours r v - X"
proof (rule set_eqI)
  fix x
  note t = tagged_removed [OF rm ids gone, of r]
  have st: "x \<in> tagged_objects r v \<Longrightarrow> ev_store v (ref_identifier x) = Some x" for x using tagged_iff [OF ids] by blast
  have kid: "x \<in> X" if "x \<in> tagged_objects r v" "y \<in> X" "child_of x y" for x y
    using cl that st unfolding closed_under_children_def by blast
  have top: "y \<in> ours r v' \<longleftrightarrow> y \<in> ours r v - X" if "\<exists>b f. y = OBackend b \<or> y = OFrontend f" for y
    using that t ours_top by auto
  show "x \<in> ours r v' \<longleftrightarrow> x \<in> ours r v - X"
  proof (cases x)
    case (OBind bi)
    have "(\<exists>f. OFrontend f \<in> ours r v' \<and> fe_id f = bi_frontend bi) \<longleftrightarrow> (\<exists>f. OFrontend f \<in> ours r v \<and> fe_id f = bi_frontend bi)"
      if "OBind bi \<in> tagged_objects r v" "OBind bi \<notin> X"
      using top kid [OF that(1)] that(2) by (metis DiffI DiffD1 child_of.simps(2))
    then show ?thesis unfolding OBind Diff_iff ours_bind t by blast
  next
    case (OServer s)
    have "(\<exists>b. OBackend b \<in> ours r v' \<and> be_id b = se_backend s) \<longleftrightarrow> (\<exists>b. OBackend b \<in> ours r v \<and> be_id b = se_backend s)"
      if "OServer s \<in> tagged_objects r v" "OServer s \<notin> X"
      using top kid [OF that(1)] that(2) by (metis DiffI DiffD1 child_of.simps(3))
    then show ?thesis unfolding OServer Diff_iff ours_server t by blast
  qed (use top in auto)
qed

lemma others_removed:
  assumes rm: "removed X v v'" and ids: "identified v" and gone: "\<forall>x\<in>X. ev_store v' (ref_identifier x) = None"
    and cl: "closed_under_children v X" and sub: "X \<subseteq> ours r v"
  shows "others r v' = others r v"
proof -
  note o = ours_removed [OF rm ids gone cl, of r]
  have "ev_store v' i = Some x \<and> x \<notin> ours r v' \<longleftrightarrow> ev_store v i = Some x \<and> x \<notin> ours r v" for i x
  proof
    assume a: "ev_store v' i = Some x \<and> x \<notin> ours r v'"
    then have "x \<notin> X" using gone removed_stored [OF rm] ids unfolding identified_def by (metis option.distinct(1))
    with a show "ev_store v i = Some x \<and> x \<notin> ours r v" using removed_stored [OF rm] o by blast
  next
    assume a: "ev_store v i = Some x \<and> x \<notin> ours r v"
    then have "ev_store v' i = Some x" using rm sub unfolding removed_def by (metis option.inject subsetD)
    with a show "ev_store v' i = Some x \<and> x \<notin> ours r v'" using o by blast
  qed
  moreover have "ev_store v' i = Some x \<Longrightarrow> {t. (i, t) \<in> ev_tags v'} = {t. (i, t) \<in> ev_tags v}" for i x
    using rm by (simp add: removed_def)
  ultimately show ?thesis unfolding others_def by blast
qed

lemma self_contained_removed:
  assumes "removed X v v'" and "identified v" and "\<forall>x\<in>X. ev_store v' (ref_identifier x) = None"
    and "closed_under_children v X" and "self_contained r v"
  shows "self_contained r v'"
proof -
  note o = ours_removed [OF assms(1-4), of r]
  have "y \<in> ours r v - X" if "x \<in> ours r v - X" "ev_store v' j = Some y" "child_of y x" for x j y
  proof -
    have st: "ev_store v j = Some y" using removed_stored [OF assms(1) that(2)] .
    then have "y \<in> ours r v" using assms(5) that unfolding self_contained_def closed_under_children_def by blast
    moreover have "y \<notin> X" using assms(2,3) st that(2) unfolding identified_def by fastforce
    ultimately show ?thesis by blast
  qed
  then show ?thesis unfolding self_contained_def closed_under_children_def o by blast
qed

text \<open>After creating objects that belong to us.\<close>

fun belongs :: "recon \<Rightarrow> engine_view \<Rightarrow> object \<Rightarrow> bool" where
  "belongs r v (OBackend b) = (be_lb b = lb_identifier r)"
| "belongs r v (OFrontend f) = (fe_lb f = Some (lb_identifier r))"
| "belongs r v (OBind bi) = (\<exists>f. OFrontend f \<in> ours r v \<and> fe_id f = bi_frontend bi)"
| "belongs r v (OServer s) = (\<exists>b. OBackend b \<in> ours r v \<and> be_id b = se_backend s)"
| "belongs r v _ = False"

lemma tagged_added:
  assumes ad: "added (tags r) xs v v'" and ids: "identified v"
  shows "identified v' \<and> tagged_objects r v' = tagged_objects r v \<union> set xs"
proof -
  have old: "ev_store v' i = ev_store v i" "has_tags v' ts i = has_tags v ts i" if "i \<notin> ref_identifier ` set xs" for i ts
    using ad that by (simp_all add: added_def has_tags_def)
  have new: "ev_store v (ref_identifier x) = None" "ev_store v' (ref_identifier x) = Some x" "has_tags v' (tags r) (ref_identifier x)"
    if "x \<in> set xs" for x using ad that by (simp_all add: added_def)
  have ids': "identified v'"
    unfolding identified_def
  proof (intro allI impI)
    fix i x assume "ev_store v' i = Some x"
    then show "ref_identifier x = i"
      using old(1) [of i] ids new(2) unfolding identified_def by (cases "i \<in> ref_identifier ` set xs") auto
  qed
  have "x \<in> tagged_objects r v' \<longleftrightarrow> x \<in> tagged_objects r v \<union> set xs" for x
  proof (cases "ref_identifier x \<in> ref_identifier ` set xs")
    case True
    then obtain y where y: "y \<in> set xs" "ref_identifier x = ref_identifier y" by blast
    have "x \<in> set xs \<longleftrightarrow> x = y" using new(2) y by (metis option.inject)
    then show ?thesis unfolding tagged_iff [OF ids] tagged_iff [OF ids'] Un_iff using new [OF y(1)] y(2) by auto
  next
    case False
    then show ?thesis unfolding tagged_iff [OF ids] tagged_iff [OF ids'] Un_iff using old by auto
  qed
  with ids' show ?thesis by blast
qed

lemma ours_added:
  assumes ad: "added (tags r) xs v v'" and ids: "identified v" and bel: "\<forall>x\<in>set xs. belongs r v x"
  shows "ours r v' = ours r v \<union> set xs"
proof (rule set_eqI)
  fix x
  have t: "tagged_objects r v' = tagged_objects r v \<union> set xs" using tagged_added [OF ad ids] by blast
  have kid: "\<not> child_of x y" if "x \<in> tagged_objects r v" "y \<in> set xs" for x y
    using ad that tagged_iff [OF ids] unfolding added_def childless_def by blast
  have top: "y \<in> ours r v' \<longleftrightarrow> y \<in> ours r v \<union> set xs" if "\<exists>b f. y = OBackend b \<or> y = OFrontend f" for y
    using that bel unfolding Un_iff by (auto simp: ours_top t)
  show "x \<in> ours r v' \<longleftrightarrow> x \<in> ours r v \<union> set xs"
  proof (cases x)
    case (OBind bi)
    have "(\<exists>f. OFrontend f \<in> ours r v' \<and> fe_id f = bi_frontend bi) \<longleftrightarrow> (\<exists>f. OFrontend f \<in> ours r v \<and> fe_id f = bi_frontend bi)"
      if "OBind bi \<in> tagged_objects r v"
      using top kid [OF that] by (metis UnI1 UnE child_of.simps(2))
    moreover have "OBind bi \<in> set xs \<Longrightarrow> \<exists>f. OFrontend f \<in> ours r v' \<and> fe_id f = bi_frontend bi" using bel top by fastforce
    ultimately show ?thesis unfolding OBind Un_iff ours_bind t by blast
  next
    case (OServer s)
    have "(\<exists>b. OBackend b \<in> ours r v' \<and> be_id b = se_backend s) \<longleftrightarrow> (\<exists>b. OBackend b \<in> ours r v \<and> be_id b = se_backend s)"
      if "OServer s \<in> tagged_objects r v"
      using top kid [OF that] by (metis UnI1 UnE child_of.simps(3))
    moreover have "OServer s \<in> set xs \<Longrightarrow> \<exists>b. OBackend b \<in> ours r v' \<and> be_id b = se_backend s" using bel top by fastforce
    ultimately show ?thesis unfolding OServer Un_iff ours_server t by blast
  qed (use top bel in auto)
qed

lemma others_added:
  assumes ad: "added (tags r) xs v v'" and ids: "identified v" and bel: "\<forall>x\<in>set xs. belongs r v x"
  shows "others r v' = others r v"
proof -
  note o = ours_added [OF assms]
  have "ev_store v' i = Some x \<and> x \<notin> ours r v' \<longleftrightarrow> ev_store v i = Some x \<and> x \<notin> ours r v" for i x
  proof (cases "i \<in> ref_identifier ` set xs")
    case True
    then show ?thesis using ad o unfolding added_def by auto
  next
    case False
    then have e: "ev_store v' i = ev_store v i" using ad by (simp add: added_def)
    have "x \<notin> set xs" if "ev_store v i = Some x" using ids that False unfolding identified_def by blast
    then show ?thesis using e o by auto
  qed
  moreover have "ev_store v i = Some x \<Longrightarrow> {t. (i, t) \<in> ev_tags v'} = {t. (i, t) \<in> ev_tags v}" for i x
  proof -
    assume "ev_store v i = Some x"
    then have "i \<notin> ref_identifier ` set xs" using ad by (auto simp: added_def)
    then show ?thesis using ad by (simp add: added_def)
  qed
  ultimately show ?thesis unfolding others_def by blast
qed

lemma self_contained_added:
  assumes ad: "added (tags r) xs v v'" and ids: "identified v" and bel: "\<forall>x\<in>set xs. belongs r v x" and sc: "self_contained r v"
  shows "self_contained r v'"
proof -
  note o = ours_added [OF ad ids bel]
  have "y \<in> ours r v \<union> set xs" if x: "x \<in> ours r v \<union> set xs" and st: "ev_store v' j = Some y" and ch: "child_of y x" for x j y
  proof (cases "j \<in> ref_identifier ` set xs")
    case True
    then show ?thesis using ad st unfolding added_def by auto
  next
    case False
    then have "ev_store v j = Some y" using ad st by (simp add: added_def)
    moreover from this have "x \<notin> set xs" using ad ch unfolding added_def childless_def by blast
    ultimately show ?thesis using x sc ch unfolding self_contained_def closed_under_children_def by blast
  qed
  then show ?thesis unfolding self_contained_def closed_under_children_def o by blast
qed

end
