(* ===== verification/Converge.thy ===== *)
theory Converge
  imports EngineRun
begin

text \<open>
  \<open>Reconcile\<close> converges: on an Engine that meets the contract every round that is not the last one
  lowers a rank of at most six, so the loop returns after at most seven rounds, with nil and the documented
  final result, and everything that is not ours is as it was.
\<close>

section \<open>The rank of a state\<close>

definition round_rank :: "lib \<Rightarrow> recon \<Rightarrow> nat" where
  "round_rank L r =
     (if \<not> backends_settled L r then (if spec_destroy L r \<noteq> {} then 6 else 5)
      else if \<not> frontends_settled L r then (if spec_destroy L r \<noteq> {} then 4 else 3)
      else if spec_destroy L r \<noteq> {} then 2 else if spec_create L r \<noteq> {} then 1 else 0)"

lemma rank_nothing_to_destroy:
  "spec_destroy L r = {} \<Longrightarrow>
   round_rank L r \<le> (if \<not> backends_settled L r then 5 else if \<not> frontends_settled L r then 3 else 1)"
  by (simp add: round_rank_def)

text \<open>Two states of the same wanted configuration, compared by their objects.\<close>

lemma config_fields:
  assumes "same_config r r'"
  shows "ports r' = ports r" "externalAddresses r' = externalAddresses r" "targetServers r' = targetServers r"
    "lb_identifier r' = lb_identifier r" "tags r' = tags r"
  using assms by (simp_all add: same_config_def)

lemma port_backend_by:
  assumes "same_config r r'"
  shows "port_backend L r' name b \<longleftrightarrow> OBackend b \<in> managed r' \<and> backend_for L r name b"
  by (simp add: port_backend_def for_config [OF assms])

lemma port_frontend_by:
  assumes "same_config r r'"
  shows "port_frontend L r' name f \<longleftrightarrow>
    OFrontend f \<in> managed r' \<and> (\<exists>b. OBackend b \<in> managed r' \<and> backend_for L r name b \<and> frontend_for L r name b f)"
  by (auto simp: port_frontend_def port_backend_by [OF assms] for_config [OF assms])

section \<open>After destroying\<close>

lemma after_destroying:
  assumes cfg: "same_config r r'" and m: "managed r' = managed r - spec_destroy L r" and u: "unambiguous r"
    and ne: "spec_destroy L r \<noteq> {}"
  shows "unambiguous r' \<and> round_rank L r' < round_rank L r"
proof
  note c = config_fields [OF cfg] and f = for_config [OF cfg]
  have mem: "b \<in> set (backends r') \<longleftrightarrow> b \<in> set (backends r) \<and> OBackend b \<notin> spec_destroy L r"
    "fr \<in> set (frontends r') \<longleftrightarrow> fr \<in> set (frontends r) \<and> OFrontend fr \<notin> spec_destroy L r"
    "bi \<in> set (binds r') \<longleftrightarrow> bi \<in> set (binds r) \<and> OBind bi \<notin> spec_destroy L r"
    "s \<in> set (servers r') \<longleftrightarrow> s \<in> set (servers r) \<and> OServer s \<notin> spec_destroy L r" for b fr bi s
    using m managed_mem by blast+
  show "unambiguous r'"
    using u mem unfolding unambiguous_def by (metis inj_on_subset subsetI)
  show "round_rank L r' < round_rank L r"
  proof (cases "backends_settled L r")
    case False
    have b: "b \<in> set (backends r') \<longleftrightarrow> (\<exists>name\<in>dom (ports r). port_backend L r name b)" for b
      unfolding mem(1) using False by (auto simp: spec_destroy_def port_backend_def)
    have none: "fr \<notin> set (frontends r')" "bi \<notin> set (binds r')" "s \<notin> set (servers r')" for fr bi s
      unfolding mem using False by (auto simp: spec_destroy_def)
    have "port_backend L r' name b \<longleftrightarrow> port_backend L r name b" if "name \<in> dom (ports r)" for name b
      using b that unfolding port_backend_def f by blast
    then have "spec_destroy L r' = {}" if "\<not> backends_settled L r'"
      using that b none by (auto simp: spec_destroy_def managed_def c)
    moreover have "spec_destroy L r' = {}" if "backends_settled L r'"
      unfolding spec_settled_destroy [OF that] using none by auto
    ultimately have "spec_destroy L r' = {}" by blast
    from rank_nothing_to_destroy [OF this] False ne show ?thesis by (auto simp: round_rank_def split: if_splits)
  next
    case bs: True
    note D = spec_settled_destroy [OF bs]
    have b: "set (backends r') = set (backends r)" using mem(1) D by blast
    then have pb: "port_backend L r' = port_backend L r" by (simp add: fun_eq_iff port_backend_def f)
    have bs': "backends_settled L r'" using bs by (simp add: backends_settled_def pb b c)
    have fr: "fr \<in> set (frontends r') \<longleftrightarrow> (\<exists>name\<in>dom (ports r). port_frontend L r name fr)" for fr
      unfolding mem(2) D by (auto simp: port_frontend_def)
    have pf: "port_frontend L r' name fr \<longleftrightarrow> port_frontend L r name fr" if "name \<in> dom (ports r)" for name fr
      using fr that unfolding port_frontend_def f pb by blast
    have se: "s \<in> set (servers r') \<longleftrightarrow> (\<exists>name. port_server L r name s)" for s
      unfolding mem(4) D by (auto simp: port_server_def)
    have ps: "port_server L r' name s \<longleftrightarrow> port_server L r name s" for name s
      using se unfolding port_server_def f pb c by blast
    have fs': "frontends_settled L r' \<longleftrightarrow> (\<forall>name\<in>dom (ports r). \<exists>fr. port_frontend L r name fr)"
      unfolding frontends_settled_def c using pf fr by blast
    have bi: "bi \<in> set (binds r') \<longleftrightarrow> frontends_settled L r \<and> (\<exists>name. port_bind L r name bi)" for bi
      unfolding mem(3) D by (auto simp: port_bind_def)
    have pbi: "port_bind L r' name bi" if "port_bind L r name bi" "frontends_settled L r" for name bi
      using bi that pf unfolding port_bind_def f c by blast
    have keep: "frontends_settled L r \<Longrightarrow> frontends_settled L r'"
      by (rule fs' [THEN iffD2]) (simp add: frontends_settled_def)
    then have "spec_destroy L r' = {}"
      unfolding spec_settled_destroy [OF bs'] c using fr pf se ps bi pbi by blast
    from rank_nothing_to_destroy [OF this] bs bs' ne show ?thesis
      using keep by (auto simp: round_rank_def split: if_splits)
  qed
qed

section \<open>After creating\<close>

text \<open>A created object serves the port its target was made for.\<close>

lemma created_for:
  "created_as (OBackend (targetBackend L r name)) i x \<Longrightarrow> \<exists>b. x = OBackend b \<and> backend_for L r name b"
  "created_as (OFrontend (targetFrontend L r name b)) i x \<Longrightarrow> \<exists>f. x = OFrontend f \<and> frontend_for L r name b f"
  "created_as (OBind (targetBind r a name p f)) i x \<Longrightarrow> \<exists>bi. x = OBind bi \<and> bind_for r a name p f bi"
  "created_as (OServer (targetServer r sv name p b)) i x \<Longrightarrow> \<exists>s. x = OServer s \<and> server_for r sv name p b s"
  by (auto simp: targetBackend_def backend_for_def targetFrontend_def frontend_for_def targetBind_def bind_for_def
      family_tag_def targetServer_def server_for_def)

text \<open>Of the targets that name a port none occurs twice.\<close>

fun names_port :: "object \<Rightarrow> bool" where
  "names_port (OBackend b) = True"
| "names_port (OFrontend f) = True"
| "names_port _ = False"

lemma created_names: "created_as t i x \<Longrightarrow> names_port x = names_port t"
  by (cases t) auto

lemma distinct_filter_nth:
  "distinct (filter Q xs) \<Longrightarrow> i < length xs \<Longrightarrow> j < length xs \<Longrightarrow> xs ! i = xs ! j \<Longrightarrow> Q (xs ! i) \<Longrightarrow> i = j"
proof (induction xs arbitrary: i j)
  case (Cons x xs)
  have no: "Q x \<Longrightarrow> x \<notin> set xs" using Cons.prems(1) by auto
  have d: "distinct (filter Q xs)" using Cons.prems(1) by (simp split: if_splits)
  show ?case
  proof (cases i; cases j)
    fix i' j' assume "i = Suc i'" "j = Suc j'"
    then show ?thesis using Cons.IH [OF d, of i' j'] Cons.prems by simp
  qed (use Cons.prems no in \<open>auto dest: nth_mem\<close>)
qed simp

lemma created_once:
  assumes rel: "list_all2 (\<lambda>obj x. created_as obj (ref_identifier x) x) cr xs" and once: "distinct (filter names_port cr)"
    and x: "x \<in> set xs" "x' \<in> set xs"
    and same: "\<And>t t'. t \<in> set cr \<Longrightarrow> t' \<in> set cr \<Longrightarrow> created_as t (ref_identifier x) x \<Longrightarrow> created_as t' (ref_identifier x') x' \<Longrightarrow> t = t' \<and> names_port t"
  shows "x = x'"
proof -
  obtain i j where ij: "i < length xs" "j < length xs" "xs ! i = x" "xs ! j = x'" using x by (auto simp: in_set_conv_nth)
  have len: "length cr = length xs" using rel by (rule list_all2_lengthD)
  have "created_as (cr ! i) (ref_identifier x) x" "created_as (cr ! j) (ref_identifier x') x'"
    using list_all2_nthD [OF rel] ij len by auto
  then have both: "cr ! i = cr ! j \<and> names_port (cr ! i)" by (intro same) (use ij len in simp_all)
  have "i = j"
    by (rule distinct_filter_nth [OF once _ _ conjunct1 [OF both] conjunct2 [OF both]]) (use ij len in simp_all)
  then show ?thesis using ij by simp
qed

text \<open>What \<open>r'\<close> gains over \<open>r\<close> when the wanted objects \<open>cr\<close> have become the objects \<open>xs\<close>.\<close>

definition creating :: "lib \<Rightarrow> recon \<Rightarrow> recon \<Rightarrow> object list \<Rightarrow> object list \<Rightarrow> bool" where
  "creating L r r' cr xs \<longleftrightarrow> same_config r r' \<and> managed r' = managed r \<union> set xs \<and>
     list_all2 (\<lambda>obj x. created_as obj (ref_identifier x) x) cr xs \<and> set cr = spec_create L r \<and>
     distinct (filter names_port cr) \<and> spec_destroy L r = {} \<and> unambiguous r"

lemma creatingD:
  assumes "creating L r r' cr xs"
  shows "same_config r r'" and "list_all2 (\<lambda>obj x. created_as obj (ref_identifier x) x) cr xs" and "set cr = spec_create L r"
    and "distinct (filter names_port cr)" and "spec_destroy L r = {}" and "unambiguous r"
    and "t \<in> spec_create L r \<Longrightarrow> \<exists>x\<in>set xs. created_as t (ref_identifier x) x"
    and "x \<in> set xs \<Longrightarrow> \<exists>t\<in>spec_create L r. created_as t (ref_identifier x) x"
    and "b \<in> set (backends r') \<longleftrightarrow> b \<in> set (backends r) \<or> OBackend b \<in> set xs"
    and "fr \<in> set (frontends r') \<longleftrightarrow> fr \<in> set (frontends r) \<or> OFrontend fr \<in> set xs"
    and "bi \<in> set (binds r') \<longleftrightarrow> bi \<in> set (binds r) \<or> OBind bi \<in> set xs"
    and "s \<in> set (servers r') \<longleftrightarrow> s \<in> set (servers r) \<or> OServer s \<in> set xs"
proof -
  from assms show rel: "list_all2 (\<lambda>obj x. created_as obj (ref_identifier x) x) cr xs" and w: "set cr = spec_create L r"
    and "same_config r r'" "distinct (filter names_port cr)" "spec_destroy L r = {}" "unambiguous r"
    by (simp_all add: creating_def)
  show "t \<in> spec_create L r \<Longrightarrow> \<exists>x\<in>set xs. created_as t (ref_identifier x) x" using list_all2_leftD [OF rel] w by blast
  show "x \<in> set xs \<Longrightarrow> \<exists>t\<in>spec_create L r. created_as t (ref_identifier x) x" using list_all2_rightD [OF rel] w by blast
  have m: "managed r' = managed r \<union> set xs" using assms by (simp add: creating_def)
  show "b \<in> set (backends r') \<longleftrightarrow> b \<in> set (backends r) \<or> OBackend b \<in> set xs"
    and "fr \<in> set (frontends r') \<longleftrightarrow> fr \<in> set (frontends r) \<or> OFrontend fr \<in> set xs"
    and "bi \<in> set (binds r') \<longleftrightarrow> bi \<in> set (binds r) \<or> OBind bi \<in> set xs"
    and "s \<in> set (servers r') \<longleftrightarrow> s \<in> set (servers r) \<or> OServer s \<in> set xs"
    using m managed_mem by blast+
qed

text \<open>With backends missing, exactly the good backends exist and the missing ones are made.\<close>

lemma creating_backends:
  assumes cr: "creating L r r' cr xs" and busy: "\<not> backends_settled L r"
  shows "unambiguous r' \<and> round_rank L r' < round_rank L r"
proof -
  note c = config_fields [OF creatingD(1) [OF cr]] and f = for_config [OF creatingD(1) [OF cr]]
  note created = creatingD(2) [OF cr] and wanted = creatingD(3) [OF cr] and once = creatingD(4) [OF cr]
    and clean = creatingD(5) [OF cr] and names = creatingD(6) [OF cr] and made = creatingD(7) [OF cr]
    and maker = creatingD(8) [OF cr] and lists = creatingD(9-12) [OF cr]
  have C: "spec_create L r = lacking_backends L r" using busy by (simp add: spec_create_def)
  have old: "\<exists>b. x = OBackend b \<and> (\<exists>name\<in>dom (ports r). port_backend L r name b)" if "x \<in> managed r" for x
    using clean busy that by (auto simp: spec_destroy_def)
  have new: "\<exists>name b. x = OBackend b \<and> name \<in> dom (ports r) \<and> \<not> (\<exists>b. port_backend L r name b) \<and> backend_for L r name b \<and>
      created_as (OBackend (targetBackend L r name)) (ref_identifier x) x" if "x \<in> set xs" for x
  proof -
    note x = that
    obtain t where t: "t \<in> lacking_backends L r" "created_as t (ref_identifier x) x" using maker [OF x] unfolding C by blast
    then obtain name where n: "name \<in> dom (ports r)" "\<not> (\<exists>b. port_backend L r name b)" "t = OBackend (targetBackend L r name)"
      unfolding lacking_backends_def by blast
    with created_for(1) [of L r name] t(2) show ?thesis by blast
  qed
  have none: "fr \<notin> set (frontends r')" "bi \<notin> set (binds r')" "s \<notin> set (servers r')" for fr bi s
    unfolding lists using old new managed_mem by (metis object.distinct)+
  have pb: "port_backend L r' name b \<longleftrightarrow> b \<in> set (backends r') \<and> backend_for L r name b" for name b
    by (simp add: port_backend_def f)
  have bs': "backends_settled L r'"
    unfolding backends_settled_def c
  proof (intro conjI ballI)
    fix name assume n: "name \<in> dom (ports r)"
    show "\<exists>b. port_backend L r' name b"
    proof (cases "\<exists>b. port_backend L r name b")
      case True
      then show ?thesis unfolding pb lists by (auto simp: port_backend_def)
    next
      case False
      with n have "OBackend (targetBackend L r name) \<in> spec_create L r" unfolding C lacking_backends_def by blast
      from made [OF this] created_for(1) [of L r name] show ?thesis unfolding pb lists by blast
    qed
  next
    fix b assume "b \<in> set (backends r')"
    then show "\<exists>name\<in>dom (ports r). port_backend L r' name b"
      using old [of "OBackend b"] new [of "OBackend b"] unfolding pb lists by (auto simp: port_backend_def)
  qed
  have "spec_destroy L r' = {}" unfolding spec_settled_destroy [OF bs'] using none by auto
  from rank_nothing_to_destroy [OF this] bs' busy clean have "round_rank L r' < round_rank L r"
    by (auto simp: round_rank_def split: if_splits)
  moreover have "inj_on be_name (set (backends r'))"
  proof (rule inj_onI)
    fix b b' assume b: "b \<in> set (backends r')" "b' \<in> set (backends r')" and eq: "be_name b = be_name b'"
    have mixed: False if "x \<in> set (backends r)" "OBackend y \<in> set xs" "be_name x = be_name y" for x y
    proof -
      note xy = that
      obtain n where n: "port_backend L r n x" using old [of "OBackend x"] xy(1) by auto
      obtain m where m: "\<not> (\<exists>b. port_backend L r m b)" "backend_for L r m y" using new [OF xy(2)] by blast
      have "n = m" using n m(2) xy(3) by (simp add: port_backend_def backend_for_def makeResourceName_inj)
      with n m show False by blast
    qed
    have "b = b'" if x: "OBackend b \<in> set xs" "OBackend b' \<in> set xs"
    proof -
      have "OBackend b = OBackend b'"
      proof (rule created_once [OF created once x])
        fix t t' assume t: "t \<in> set cr" "t' \<in> set cr" "created_as t (ref_identifier (OBackend b)) (OBackend b)"
          "created_as t' (ref_identifier (OBackend b')) (OBackend b')"
        then obtain n n' where n: "t = OBackend (targetBackend L r n)" "t' = OBackend (targetBackend L r n')"
          unfolding wanted C lacking_backends_def by blast
        have "backend_for L r n b" "backend_for L r n' b'"
          using created_for(1) [of L r n] created_for(1) [of L r n'] t(3,4) n by blast+
        then have "n = n'" using eq by (simp add: backend_for_def makeResourceName_inj)
        then show "t = t' \<and> names_port t" using n by simp
      qed
      then show ?thesis by simp
    qed
    then show "b = b'" using b eq mixed names unfolding lists unambiguous_def inj_on_def by metis
  qed
  moreover have "set (frontends r') = {}" by (rule equals0I) (simp add: none)
  ultimately show ?thesis by (simp add: unambiguous_def)
qed

text \<open>With the backends settled and frontends missing, the frontends and the servers are completed.\<close>

lemma creating_frontends:
  assumes cr: "creating L r r' cr xs" and bs: "backends_settled L r" and busy: "\<not> frontends_settled L r"
  shows "unambiguous r' \<and> round_rank L r' < round_rank L r"
proof -
  note c = config_fields [OF creatingD(1) [OF cr]] and f = for_config [OF creatingD(1) [OF cr]]
  note created = creatingD(2) [OF cr] and wanted = creatingD(3) [OF cr] and once = creatingD(4) [OF cr]
    and clean = creatingD(5) [OF cr] and names = creatingD(6) [OF cr] and made = creatingD(7) [OF cr]
    and maker = creatingD(8) [OF cr] and lists = creatingD(9-12) [OF cr]
  have C: "spec_create L r = lacking_frontends L r \<union> lacking_servers L r" using bs busy by (simp add: spec_create_def)
  have old: "\<exists>name\<in>dom (ports r). port_frontend L r name fr" if "fr \<in> set (frontends r)" for fr
    using clean that unfolding spec_settled_destroy [OF bs] by blast
  have made_by: "(\<exists>name b. name \<in> dom (ports r) \<and> port_backend L r name b \<and> \<not> (\<exists>fr. port_frontend L r name fr) \<and>
        t = OFrontend (targetFrontend L r name b)) \<or>
      (\<exists>sv name p b. t = OServer (targetServer r sv name p b))" if "t \<in> spec_create L r" for t
    using that unfolding C lacking_frontends_def lacking_servers_def by blast
  have no_backend: "OBackend b \<notin> set xs" for b
  proof
    assume "OBackend b \<in> set xs"
    then obtain t where "t \<in> spec_create L r" and t: "created_as t (ref_identifier (OBackend b)) (OBackend b)" using maker by blast
    from made_by [OF this(1)] t show False by auto
  qed
  have new: "\<exists>name b. name \<in> dom (ports r) \<and> port_backend L r name b \<and> \<not> (\<exists>fr. port_frontend L r name fr) \<and> frontend_for L r name b fr"
    if fr: "OFrontend fr \<in> set xs" for fr
  proof -
    obtain t where t: "t \<in> spec_create L r" "created_as t (ref_identifier (OFrontend fr)) (OFrontend fr)"
      using maker [OF fr] by blast
    from made_by [OF t(1)] show ?thesis
    proof
      assume "\<exists>name b. name \<in> dom (ports r) \<and> port_backend L r name b \<and> \<not> (\<exists>fr. port_frontend L r name fr) \<and>
        t = OFrontend (targetFrontend L r name b)"
      then obtain name b where n: "name \<in> dom (ports r)" "port_backend L r name b" "\<not> (\<exists>fr. port_frontend L r name fr)"
        "t = OFrontend (targetFrontend L r name b)" by blast
      then show ?thesis using created_for(2) [of L r name b] t(2) by blast
    qed (use t(2) in auto)
  qed
  have b: "set (backends r') = set (backends r)" using lists(1) no_backend by blast
  then have pb: "port_backend L r' = port_backend L r" by (simp add: fun_eq_iff port_backend_def f)
  have bs': "backends_settled L r'" using bs by (simp add: backends_settled_def pb b c)
  have pf: "port_frontend L r' name fr \<longleftrightarrow> fr \<in> set (frontends r') \<and> (\<exists>b. port_backend L r name b \<and> frontend_for L r name b fr)" for name fr
    by (simp add: port_frontend_def f pb)
  have keep: "port_frontend L r name fr \<Longrightarrow> port_frontend L r' name fr" for name fr
    unfolding pf lists(2) by (auto simp: port_frontend_def)
  have fs': "frontends_settled L r'"
    unfolding frontends_settled_def c
  proof (intro conjI ballI)
    fix name assume n: "name \<in> dom (ports r)"
    then obtain b where b: "port_backend L r name b" using bs unfolding backends_settled_def by blast
    show "\<exists>fr. port_frontend L r' name fr"
    proof (cases "\<exists>fr. port_frontend L r name fr")
      case False
      with n b have "OFrontend (targetFrontend L r name b) \<in> spec_create L r" unfolding C lacking_frontends_def by blast
      from made [OF this] created_for(2) [of L r name b] b show ?thesis unfolding pf lists(2) by blast
    qed (use keep in blast)
  next
    fix fr assume "fr \<in> set (frontends r')"
    then show "\<exists>name\<in>dom (ports r). port_frontend L r' name fr"
      using old new keep unfolding lists(2) pf by blast
  qed
  have "round_rank L r' \<le> 2" using bs' fs' by (simp add: round_rank_def)
  moreover have "round_rank L r = 3" using bs busy clean by (simp add: round_rank_def)
  moreover have "inj_on fe_name (set (frontends r'))"
  proof (rule inj_onI)
    fix fr fr' assume fr: "fr \<in> set (frontends r')" "fr' \<in> set (frontends r')" and eq: "fe_name fr = fe_name fr'"
    have mixed: False if xy: "x \<in> set (frontends r)" "OFrontend y \<in> set xs" "fe_name x = fe_name y" for x y
    proof -
      obtain n where n: "port_frontend L r n x" using old [OF xy(1)] by blast
      obtain m b where m: "\<not> (\<exists>fr. port_frontend L r m fr)" "frontend_for L r m b y" using new [OF xy(2)] by blast
      have "n = m" using n m(2) xy(3) by (auto simp: port_frontend_def frontend_for_def makeResourceName_inj)
      with n m show False by blast
    qed
    have "fr = fr'" if x: "OFrontend fr \<in> set xs" "OFrontend fr' \<in> set xs"
    proof -
      have "OFrontend fr = OFrontend fr'"
      proof (rule created_once [OF created once x])
        fix t t' assume t: "t \<in> set cr" "t' \<in> set cr" "created_as t (ref_identifier (OFrontend fr)) (OFrontend fr)"
          "created_as t' (ref_identifier (OFrontend fr')) (OFrontend fr')"
        obtain n b where n: "port_backend L r n b" "t = OFrontend (targetFrontend L r n b)"
          using made_by [OF t(1) [unfolded wanted]] t(3) by auto
        obtain n' b' where n': "port_backend L r n' b'" "t' = OFrontend (targetFrontend L r n' b')"
          using made_by [OF t(2) [unfolded wanted]] t(4) by auto
        have "frontend_for L r n b fr" "frontend_for L r n' b' fr'"
          using created_for(2) [of L r n b] created_for(2) [of L r n' b'] t(3,4) n(2) n'(2) by blast+
        then have "n = n'" using eq by (simp add: frontend_for_def makeResourceName_inj)
        then show "t = t' \<and> names_port t" using n n' port_backend_unique [OF names] by auto
      qed
      then show ?thesis by simp
    qed
    then show "fr = fr'" using fr eq mixed names unfolding lists(2) unambiguous_def inj_on_def by metis
  qed
  ultimately show ?thesis using names b by (simp add: unambiguous_def)
qed

text \<open>With both settled the binds and servers are completed, and nothing is left to do.\<close>

lemma creating_rest:
  assumes cr: "creating L r r' cr xs" and bs: "backends_settled L r" and fs: "frontends_settled L r" and ne: "spec_create L r \<noteq> {}"
  shows "unambiguous r' \<and> round_rank L r' < round_rank L r"
proof -
  note c = config_fields [OF creatingD(1) [OF cr]] and f = for_config [OF creatingD(1) [OF cr]]
  note clean = creatingD(5) [OF cr] and names = creatingD(6) [OF cr] and made = creatingD(7) [OF cr]
    and maker = creatingD(8) [OF cr] and lists = creatingD(9-12) [OF cr]
  have C: "spec_create L r = lacking_binds L r \<union> lacking_servers L r" using bs fs by (simp add: spec_create_def)
  have made_by: "(\<exists>a name p fr. a \<in> set (externalAddresses r) \<and> ports r name = Some p \<and> port_frontend L r name fr \<and>
        t = OBind (targetBind r a name p fr)) \<or>
      (\<exists>sv name p b. sv \<in> set (targetServers r) \<and> ports r name = Some p \<and> port_backend L r name b \<and> t = OServer (targetServer r sv name p b))"
    if "t \<in> spec_create L r" for t
    using that unfolding C lacking_binds_def lacking_servers_def by blast
  have no_top: "x \<notin> set xs" if "names_port x" for x
  proof
    assume "x \<in> set xs"
    then obtain t where "t \<in> spec_create L r" and t: "created_as t (ref_identifier x) x" using maker by blast
    have "names_port t" using created_names [OF t] that by simp
    with made_by [OF \<open>t \<in> spec_create L r\<close>] show False by auto
  qed
  have new_bind: "\<exists>name. port_bind L r' name bi" if bi: "OBind bi \<in> set xs" for bi
  proof -
    obtain t where t: "t \<in> spec_create L r" "created_as t (ref_identifier (OBind bi)) (OBind bi)" using maker [OF bi] by blast
    from made_by [OF t(1)] show ?thesis
    proof
      assume "\<exists>a name p fr. a \<in> set (externalAddresses r) \<and> ports r name = Some p \<and> port_frontend L r name fr \<and>
        t = OBind (targetBind r a name p fr)"
      then obtain a name p fr where n: "a \<in> set (externalAddresses r)" "ports r name = Some p" "port_frontend L r name fr"
        "t = OBind (targetBind r a name p fr)" by blast
      then have "bind_for r a name p fr bi" using created_for(3) [of r a name p fr] t(2) by blast
      moreover have "port_frontend L r' name fr"
        using n(3) lists(1,2) unfolding port_frontend_def port_backend_def f by blast
      ultimately show ?thesis using n bi lists(3) unfolding port_bind_def c f by blast
    qed (use t(2) in auto)
  qed
  have new_server: "\<exists>name. port_server L r' name s" if s: "OServer s \<in> set xs" for s
  proof -
    obtain t where t: "t \<in> spec_create L r" "created_as t (ref_identifier (OServer s)) (OServer s)" using maker [OF s] by blast
    from made_by [OF t(1)] show ?thesis
    proof
      assume "\<exists>sv name p b. sv \<in> set (targetServers r) \<and> ports r name = Some p \<and> port_backend L r name b \<and> t = OServer (targetServer r sv name p b)"
      then obtain sv name p b where n: "sv \<in> set (targetServers r)" "ports r name = Some p" "port_backend L r name b"
        "t = OServer (targetServer r sv name p b)" by blast
      then have "server_for r sv name p b s" using created_for(4) [of r sv name p b] t(2) by blast
      then show ?thesis using n s lists(1,4) unfolding port_server_def port_backend_def c f by blast
    qed (use t(2) in auto)
  qed
  have b: "set (backends r') = set (backends r)" and fr: "set (frontends r') = set (frontends r)" using lists(1,2) no_top names_port.simps(1,2) by blast+
  then have pb: "port_backend L r' = port_backend L r" by (simp add: fun_eq_iff port_backend_def f)
  have pf: "port_frontend L r' = port_frontend L r" by (simp add: fun_eq_iff port_frontend_def fr f pb)
  have bs': "backends_settled L r'" and fs': "frontends_settled L r'"
    using bs fs by (simp_all add: backends_settled_def frontends_settled_def pb pf b fr c)
  have old: "\<exists>name. port_bind L r' name bi" if "bi \<in> set (binds r)" for bi
    using clean fs that lists(3) unfolding spec_settled_destroy [OF bs] port_bind_def c f pf by blast
  have old_server: "\<exists>name. port_server L r' name s" if "s \<in> set (servers r)" for s
    using clean that lists(4) unfolding spec_settled_destroy [OF bs] port_server_def c f pb by blast
  have "spec_destroy L r' = {}"
    unfolding spec_settled_destroy [OF bs'] using fs' old old_server new_bind new_server lists(3,4)
    unfolding frontends_settled_def by blast
  moreover have "lacking_binds L r' = {}"
  proof -
    have "\<exists>bi\<in>set (binds r'). bind_for r a name p x bi"
      if n: "a \<in> set (externalAddresses r)" "ports r name = Some p" "port_frontend L r name x" for a name p x
    proof (cases "\<exists>bi\<in>set (binds r). bind_for r a name p x bi")
      case False
      with n have "OBind (targetBind r a name p x) \<in> spec_create L r" unfolding C lacking_binds_def by blast
      from made [OF this] created_for(3) [of r a name p x] show ?thesis unfolding Bex_def lists(3) by blast
    qed (use lists(3) in blast)
    then show ?thesis unfolding lacking_binds_def c f pf by blast
  qed
  moreover have "lacking_servers L r' = {}"
  proof -
    have "\<exists>s\<in>set (servers r'). server_for r sv name p x s"
      if n: "sv \<in> set (targetServers r)" "ports r name = Some p" "port_backend L r name x" for sv name p x
    proof (cases "\<exists>s\<in>set (servers r). server_for r sv name p x s")
      case False
      with n have "OServer (targetServer r sv name p x) \<in> spec_create L r" unfolding C lacking_servers_def by blast
      from made [OF this] created_for(4) [of r sv name p x] show ?thesis unfolding Bex_def lists(4) by blast
    qed (use lists(4) in blast)
    then show ?thesis unfolding lacking_servers_def c f pb by blast
  qed
  ultimately have "round_rank L r' = 0" using bs' fs' by (simp add: round_rank_def spec_create_def)
  moreover have "round_rank L r = 1" using bs fs clean ne by (simp add: round_rank_def)
  ultimately show ?thesis using names b fr by (simp add: unambiguous_def)
qed

lemma after_creating:
  assumes "creating L r r' cr xs" and "spec_create L r \<noteq> {}"
  shows "unambiguous r' \<and> round_rank L r' < round_rank L r"
  using creating_backends [OF assms(1)] creating_frontends [OF assms(1)] creating_rest [OF assms(1) _ _ assms(2)] by blast

end
