(* ===== verification/ConvergeProps.thy ===== *)
theory ConvergeProps
  imports Converge
begin

text \<open>
  The convergence of \<open>Reconcile\<close> put together: a round from retrieval to the next state, the theorems,
  and the concrete Engine that meets the contract.
\<close>

section \<open>What a check wants created\<close>

lemma targetFrontends_loop_names:
  "f \<in> set (targetFrontends_loop L r ps) \<Longrightarrow> \<exists>name\<in>fst ` set ps. fe_name f = makeResourceName r [name]"
  by (induction L r ps rule: targetFrontends_loop.induct) (auto simp: targetFrontend_def split: option.splits)

lemma targets_distinct:
  assumes "ranges_ok r rng"
  shows "distinct (targetBackends L rng r)" and "distinct (targetFrontends L rng r)"
proof -
  have d: "distinct (map fst (rng 0))" using assms by (simp add: ranges_ok_def range_of_def)
  have "distinct (map (\<lambda>(name, p). targetBackend L r name) ps)" if "distinct (map fst ps)" for ps :: "(string \<times> port) list"
    using that by (induction ps) (auto simp: targetBackend_def makeResourceName_inj rev_image_eqI)
  with d show "distinct (targetBackends L rng r)" by (simp add: targetBackends_def)
  have "distinct (targetFrontends_loop L r ps)" if "distinct (map fst ps)" for ps
    using that
  proof (induction ps)
    case (Cons x ps)
    obtain name p where x: "x = (name, p)" by fastforce
    have "targetFrontend L r name b \<notin> set (targetFrontends_loop L r ps)" for b
      using Cons.prems x targetFrontends_loop_names [of "targetFrontend L r name b" L r ps]
      by (auto simp: targetFrontend_def makeResourceName_inj)
    with Cons x show ?case by (simp split: option.split)
  qed simp
  with d show "distinct (targetFrontends L rng r)" by (simp add: targetFrontends_def)
qed

lemma steps_once:
  assumes O: "lib_creates_once L" and rg: "\<forall>k. ranges_ok r (rngs k)" and run: "reconcile_steps L rngs r = (Inr (cr, de), r')"
  shows "distinct (filter names_port cr)"
proof -
  obtain c1 d1 r1 c2 d2 r2 c3 d3 c4 d4 where
    b: "reconcileBackends L (rngs 0) r = (Inr (c1, d1), r1)" and f: "reconcileFrontends L (rngs 1) r1 = (Inr (c2, d2), r2)"
    and bi: "reconcileBinds L (rngs 2) r2 = (Inr (c3, d3), r2)" and se: "reconcileServers L (rngs 3) r2 = (Inr (c4, d4), r2)"
    and cr: "cr = c1 @ c2 @ c3 @ c4"
    using reconcile_steps_split [OF run] by blast
  have rg1: "ranges_ok r1 (rngs 1)"
    using rg ranges_config [OF same_objects_fields(7) [OF reconcileBackends_objects [OF b]]] by simp
  obtain t c d where c1: "cmpBackends L backendAttributes (targetBackends L (rngs 0) r) (backends r) = Inr (t, c, d)" "c1 = map OBackend c"
    using b by (auto simp: reconcileBackends_def split: sum.splits prod.splits)
  obtain t' c' d' where c2: "cmpFrontends L frontendAttributes (targetFrontends L (rngs 1) r1) (frontends r1) = Inr (t', c', d')"
    "c2 = map OFrontend c'"
    using f by (auto simp: reconcileFrontends_def split: sum.splits prod.splits)
  have "distinct c" "distinct c'"
    using O c1(1) c2(1) targets_distinct(1) [OF rg [rule_format]] targets_distinct(2) [OF rg1]
    unfolding lib_creates_once_def creates_once_def by blast+
  then have "distinct c1" "distinct c2" by (simp_all add: c1 c2 distinct_map inj_on_def)
  moreover have "filter names_port c1 = c1" "filter names_port c2 = c2" by (auto simp: c1 c2 filter_id_conv)
  moreover have "set c1 \<inter> set c2 = {}" by (auto simp: c1 c2)
  moreover have "filter names_port c3 = []" "filter names_port c4 = []"
    using bi se by (auto simp: filter_empty_conv reconcileBinds_def reconcileServers_def split: sum.splits prod.splits)
  ultimately show ?thesis by (simp add: cr)
qed

text \<open>The wanted objects refer to existing ones of ours, and what they become belongs to us.\<close>

lemma wanted_parents:
  assumes m: "managed r = ours r v" and ids: "identified v" and t: "t \<in> spec_create L r"
  shows "parent_ok (ev_store v) t" and "created_as t i x \<Longrightarrow> belongs r v x"
proof -
  have st: "x \<in> managed r \<Longrightarrow> ev_store v (ref_identifier x) = Some x" for x
    using m ours_tagged [of x r v] tagged_iff [OF ids, of x r] by simp
  have bk: "port_backend L r name b \<Longrightarrow> ev_store v (be_id b) = Some (OBackend b) \<and> OBackend b \<in> ours r v" for name b
  proof -
    assume "port_backend L r name b"
    then have "OBackend b \<in> managed r" by (simp add: port_backend_def)
    with st [OF this] m show ?thesis by simp
  qed
  have fr: "port_frontend L r name f \<Longrightarrow> ev_store v (fe_id f) = Some (OFrontend f) \<and> OFrontend f \<in> ours r v" for name f
  proof -
    assume "port_frontend L r name f"
    then have "OFrontend f \<in> managed r" by (simp add: port_frontend_def)
    with st [OF this] m show ?thesis by simp
  qed
  have "t \<in> lacking_backends L r \<or> t \<in> lacking_frontends L r \<or> t \<in> lacking_binds L r \<or> t \<in> lacking_servers L r"
    using t unfolding spec_create_def by (auto split: if_splits)
  then consider name where "t = OBackend (targetBackend L r name)"
    | name b where "t = OFrontend (targetFrontend L r name b)" "port_backend L r name b"
    | a name p f where "t = OBind (targetBind r a name p f)" "port_frontend L r name f"
    | sv name p b where "t = OServer (targetServer r sv name p b)" "port_backend L r name b"
    unfolding lacking_backends_def lacking_frontends_def lacking_binds_def lacking_servers_def by blast
  then have "parent_ok (ev_store v) t \<and> (created_as t i x \<longrightarrow> belongs r v x)"
  proof cases
    case (2 name b)
    then show ?thesis using bk [OF 2(2)] by (auto simp: targetFrontend_def)
  next
    case (3 a name p f)
    then show ?thesis using fr [OF 3(2)] by (auto simp: targetBind_def)
  next
    case (4 sv name p b)
    then show ?thesis using bk [OF 4(2)] by (auto simp: targetServer_def)
  qed (auto simp: targetBackend_def)
  then show "parent_ok (ev_store v) t" and "created_as t i x \<Longrightarrow> belongs r v x" by blast+
qed

section \<open>Destroyed objects take their children with them\<close>

lemma destroy_closed:
  assumes m: "managed r = ours r v" and ids: "identified v" and sc: "self_contained r v" and u: "unambiguous r"
  shows "closed_under_children v (spec_destroy L r)"
  unfolding closed_under_children_def
proof (intro ballI allI impI)
  fix x j y assume x: "x \<in> spec_destroy L r" and y: "ev_store v j = Some y" "child_of y x"
  have xm: "x \<in> managed r" using x unfolding spec_destroy_def by (auto split: if_splits)
  then have ym: "y \<in> managed r" using sc y m unfolding self_contained_def closed_under_children_def by blast
  show "y \<in> spec_destroy L r"
  proof (cases "backends_settled L r")
    case False
    with ym y(2) show ?thesis by (cases y) (auto simp: spec_destroy_def)
  next
    case True
    note D = spec_settled_destroy [OF True]
    obtain f where f: "x = OFrontend f" "\<not> (\<exists>name\<in>dom (ports r). port_frontend L r name f)"
      using x y(2) unfolding D by (cases y) auto
    then have "\<not> frontends_settled L r" using xm unfolding frontends_settled_def f(1) managed_mem by blast
    moreover obtain bi where "y = OBind bi" using y(2) f(1) by (cases y) auto
    ultimately show ?thesis using ym unfolding D by auto
  qed
qed

lemma managed_in_store:
  assumes "managed r = ours r v" and "identified v" and "set de \<subseteq> managed r"
  shows "in_store v de"
proof -
  have "ev_store v (ref_identifier x) = Some x" if "x \<in> set de" for x
    using assms(1,3) that ours_tagged [of x r v] tagged_iff [OF assms(2), of x r] by blast
  then show ?thesis by (simp add: in_store_def)
qed

lemma unambiguous_managed: "managed r' = managed r \<Longrightarrow> unambiguous r' = unambiguous r"
proof -
  assume m: "managed r' = managed r"
  have "set (backends r') = set (backends r)" "set (frontends r') = set (frontends r)"
    using m managed_mem(1,2) by blast+
  then show ?thesis by (simp add: unambiguous_def)
qed

section \<open>One round\<close>

text \<open>The hypotheses on library, Engine and backoff together.\<close>

definition serving :: "lib \<Rightarrow> 'w api \<Rightarrow> ('w \<Rightarrow> bool) \<Rightarrow> ('w \<Rightarrow> engine_view) \<Rightarrow> bool" where
  "serving L A ok V \<longleftrightarrow> lib_contract L \<and> identifier_contract L \<and> not_found_contract L \<and> lib_creates_once L \<and>
     engine_contract L A ok V"

lemma servingD:
  assumes "serving L A ok V"
  shows "lib_contract L" "identifier_contract L" "not_found_contract L" "lib_creates_once L" "engine_contract L A ok V"
  using assms by (simp_all add: serving_def)

text \<open>Names are unique among our backends and among our frontends.\<close>

definition uniquely_named :: "object set \<Rightarrow> bool" where
  "uniquely_named X \<longleftrightarrow> inj_on be_name {b. OBackend b \<in> X} \<and> inj_on fe_name {f. OFrontend f \<in> X}"

lemma unambiguous_iff: "unambiguous r \<longleftrightarrow> uniquely_named (managed r)"
  by (simp add: unambiguous_def uniquely_named_def)

definition tidy :: "recon \<Rightarrow> engine_view \<Rightarrow> bool" where
  "tidy r v \<longleftrightarrow> self_contained r v \<and> uniquely_named (ours r v)"

lemma tidy_config: "same_config r r' \<Longrightarrow> tidy r' v = tidy r v"
  by (simp add: tidy_def self_contained_def ours_config)

lemma others_config: "same_config r r' \<Longrightarrow> others r' v = others r v"
  by (simp add: others_def ours_config)

text \<open>The check of a round: what was retrieved is ours, and the lists are those of the specification.\<close>

lemma serving_check:
  assumes S: "serving L A ok V" and w: "ok (world s)" and rg: "\<forall>k. ranges_ok (rcn s) (rngs k)" and T: "tidy (rcn s) (V (world s))"
  obtains s1 cr de s2 where "retrieveState L A s = (None, s1)" "managed (rcn s1) = ours (rcn s) (V (world s))"
    "same_config (rcn s) (rcn s1)" "ReconcileCheck L A rngs s = (Inr (cr, de), s2)" "ok (world s2)"
    "V (world s2) = V (world s)" "same_objects (rcn s1) (rcn s2)" "set cr = spec_create L (rcn s1)" "set de = spec_destroy L (rcn s1)"
    "distinct (filter names_port cr)" "unambiguous (rcn s1)" "frontends_complete (rcn s1)"
proof -
  note L = servingD(1) [OF S] and C = servingD(5) [OF S]
  obtain s1 where s1: "retrieveState L A s = (None, s1)" "ok (world s1)" "V (world s1) = V (world s)"
    "managed (rcn s1) = ours (rcn s) (V (world s))"
    using retrieveState_ours [OF L C w] by blast
  note ret = retrieveState_retrieved [OF L s1(1)]
  have rg1: "\<forall>k. ranges_ok (rcn s1) (rngs k)" using rg ranges_config ret by blast
  have st: "stored L (ref_identifier x) x" if "x \<in> managed (rcn s1)" for x
  proof -
    have "ev_store (V (world s)) (ref_identifier x) = Some x"
      using that s1(4) ours_tagged tagged_iff [OF engine_identified [OF C w]] by metis
    then show ?thesis by (rule engine_contractD(1) [OF C w])
  qed
  then have ready: "\<forall>x\<in>managed (rcn s1). obj_class L x = Ready" by (simp add: stored_def)
  have fc: "frontends_complete (rcn s1)" using st [of "OFrontend f" for f] by (auto simp: frontends_complete_def stored_def)
  have u: "unambiguous (rcn s1)" using T s1(4) by (simp add: unambiguous_iff tidy_def)
  have "existingFailed (rcn s1) = []" "existingUpdating (rcn s1) = []" "existingProgressing (rcn s1) = []"
    using ret ready unfolding retrieved_def classified_def in_class_def
    by (metis (mono_tags, lifting) Collect_empty_eq obj_class.distinct set_empty)+
  note clean = ReconcileCheck_clean [OF s1(1) this, of rngs]
  obtain cr de r' where run: "reconcile_steps L rngs (rcn s1) = (Inr (cr, de), r')" using steps_total [OF L fc] by blast
  have sets: "set cr = spec_create L (rcn s1) \<and> set de = spec_destroy L (rcn s1)"
    using steps_meet_spec [OF L rg1 fc u _ _ run] ret by simp
  have "ReconcileCheck L A rngs s = (Inr (cr, de), s1\<lparr>rcn := r'\<rparr>)" using clean run by simp
  moreover have "same_objects (rcn s1) r'" by (rule reconcile_steps_objects [OF run])
  moreover have "distinct (filter names_port cr)" by (rule steps_once [OF servingD(4) [OF S] rg1 run])
  ultimately show thesis using that [of s1 cr de "s1\<lparr>rcn := r'\<rparr>"] s1 ret sets u fc by simp
qed

text \<open>A round that destroys.\<close>

lemma round_destroys:
  assumes S: "serving L A ok V" and w: "ok (world s)" and T: "tidy r (V (world s))" and m: "managed r = ours r (V (world s))"
    and de: "set de = spec_destroy L r" and ne: "de \<noteq> []"
  shows "\<exists>s'. destroy_branch L A de s = Some (Again, s') \<and> ok (world s') \<and> rcn s' = rcn s \<and> tidy r (V (world s')) \<and>
    others r (V (world s')) = others r (V (world s)) \<and>
    (\<forall>r'. same_config r r' \<longrightarrow> managed r' = ours r (V (world s')) \<longrightarrow> round_rank L r' < round_rank L r)"
proof -
  let ?v = "V (world s)"
  note C = servingD(5) [OF S]
  have ids: "identified ?v" by (rule engine_identified [OF C w])
  have u: "unambiguous r" using T m by (simp add: tidy_def unambiguous_iff)
  have sc: "self_contained r ?v" using T by (simp add: tidy_def)
  have sub: "set de \<subseteq> managed r" unfolding de spec_destroy_def by (auto split: if_splits)
  have cl: "closed_under_children ?v (set de)" unfolding de by (rule destroy_closed [OF m ids sc u])
  obtain s' where s': "destroy_branch L A de s = Some (Again, s')" "ok (world s')" "rcn s' = rcn s"
    "removed (set de) ?v (V (world s'))" "\<forall>x\<in>set de. ev_store (V (world s')) (ref_identifier x) = None"
    using destroy_branch_serves [OF C servingD(2) [OF S] servingD(3) [OF S] w managed_in_store [OF m ids sub] cl] by blast
  have o: "ours r (V (world s')) = managed r - spec_destroy L r"
    using ours_removed [OF s'(4) ids s'(5) cl] m de by simp
  have rank: "unambiguous r' \<and> round_rank L r' < round_rank L r" if "same_config r r'" "managed r' = ours r (V (world s'))" for r'
    using after_destroying [OF that(1) _ u] that(2) o de ne by (metis set_empty)
  have "uniquely_named (ours r (V (world s')))"
    using u o unfolding unambiguous_iff uniquely_named_def by (auto intro: inj_on_subset)
  moreover have "self_contained r (V (world s'))" by (rule self_contained_removed [OF s'(4) ids s'(5) cl sc])
  moreover have "others r (V (world s')) = others r ?v"
    using others_removed [OF s'(4) ids s'(5) cl] sub m by simp
  ultimately show ?thesis using s' rank by (auto simp: tidy_def)
qed

text \<open>A round that creates.\<close>

lemma round_creates:
  assumes S: "serving L A ok V" and w: "ok (world s)" and T: "tidy r (V (world s))" and m: "managed r = ours r (V (world s))"
    and cfg: "same_config (rcn s) r" and B: "prompt_backoff B (backoffSteps r)"
    and cr: "set cr = spec_create L r" "distinct (filter names_port cr)" and de: "spec_destroy L r = {}" and ne: "cr \<noteq> []"
  shows "\<exists>s'. create_branch L A B cr s = (Again, s') \<and> ok (world s') \<and> rcn s' = rcn s \<and> tidy r (V (world s')) \<and>
    others r (V (world s')) = others r (V (world s)) \<and>
    (\<forall>r'. same_config r r' \<longrightarrow> managed r' = ours r (V (world s')) \<longrightarrow> round_rank L r' < round_rank L r)"
proof -
  let ?v = "V (world s)"
  note C = servingD(5) [OF S]
  have ids: "identified ?v" by (rule engine_identified [OF C w])
  have u: "unambiguous r" using T m by (simp add: tidy_def unambiguous_iff)
  have sc: "self_contained r ?v" using T by (simp add: tidy_def)
  have c: "tags (rcn s) = tags r" "backoffSteps (rcn s) = backoffSteps r" using cfg by (simp_all add: same_config_def)
  have par: "\<forall>obj\<in>set cr. parent_ok (ev_store ?v) obj" unfolding cr(1) using wanted_parents(1) [OF m ids] by blast
  obtain xs s' where s': "create_branch L A B cr s = (Again, s')" "ok (world s')" "rcn s' = rcn s"
    "added (tags r) xs ?v (V (world s'))" "list_all2 (\<lambda>obj x. created_as obj (ref_identifier x) x) cr xs"
    using create_branch_serves [OF C servingD(2) [OF S] _ w par, of B] B c by auto
  have bel: "\<forall>x\<in>set xs. belongs r ?v x"
    using list_all2_rightD [OF s'(5)] wanted_parents(2) [OF m ids] unfolding cr(1) by blast
  have o: "ours r (V (world s')) = managed r \<union> set xs" using ours_added [OF s'(4) ids bel] m by simp
  have rank: "unambiguous r' \<and> round_rank L r' < round_rank L r" if "same_config r r'" "managed r' = ours r (V (world s'))" for r'
  proof (rule after_creating)
    show "creating L r r' cr xs" using that o s'(5) cr de u by (simp add: creating_def)
    show "spec_create L r \<noteq> {}" using cr(1) ne by auto
  qed
  have "self_contained r (V (world s'))" by (rule self_contained_added [OF s'(4) ids bel sc])
  moreover have "others r (V (world s')) = others r ?v" by (rule others_added [OF s'(4) ids bel])
  moreover have "uniquely_named (ours r (V (world s')))"
  proof -
    obtain s1 where "retrieveState L A (s'\<lparr>rcn := r\<rparr>) = (None, s1)" "managed (rcn s1) = ours r (V (world s'))"
      using retrieveState_ours [OF servingD(1) [OF S] C, of "s'\<lparr>rcn := r\<rparr>"] s'(2) by auto
    with rank [of "rcn s1"] retrieveState_retrieved [OF servingD(1) [OF S], of A "s'\<lparr>rcn := r\<rparr>" s1]
    show ?thesis by (simp add: unambiguous_iff)
  qed
  ultimately show ?thesis using s'(1-3) rank unfolding tidy_def by blast
qed

section \<open>Convergence\<close>

text \<open>The rank depends on the objects only, and is zero exactly when there is nothing to do.\<close>

lemma rank_cong:
  assumes cfg: "same_config r r'" and m: "managed r' = managed r"
  shows "round_rank L r' = round_rank L r"
proof -
  note c = config_fields [OF cfg] and f = for_config [OF cfg]
  have mem: "set (backends r') = set (backends r)" "set (frontends r') = set (frontends r)"
    "set (binds r') = set (binds r)" "set (servers r') = set (servers r)"
    using m by (metis managed_mem(1) set_eqI, metis managed_mem(2) set_eqI, metis managed_mem(3) set_eqI, metis managed_mem(4) set_eqI)
  have pb: "port_backend L r' = port_backend L r" unfolding fun_eq_iff port_backend_def mem f by simp
  have pf: "port_frontend L r' = port_frontend L r" unfolding fun_eq_iff port_frontend_def mem f pb by simp
  have pbi: "port_bind L r' = port_bind L r" unfolding fun_eq_iff port_bind_def mem f pf c by simp
  have ps: "port_server L r' = port_server L r" unfolding fun_eq_iff port_server_def mem f pb c by simp
  have t: "targetBackend L r' = targetBackend L r" "targetFrontend L r' = targetFrontend L r"
    "targetBind r' = targetBind r" "targetServer r' = targetServer r"
    using cfg by (simp_all add: fun_eq_iff targetBackend_def targetFrontend_def targetBind_def targetServer_def
        makeResourceName_def same_config_def)
  have "backends_settled L r' = backends_settled L r" unfolding backends_settled_def pb mem c ..
  moreover have "frontends_settled L r' = frontends_settled L r" unfolding frontends_settled_def pf mem c ..
  moreover have "spec_create L r' = spec_create L r"
    unfolding spec_create_def calculation lacking_backends_def lacking_frontends_def lacking_binds_def lacking_servers_def
      pb pf mem c f t ..
  moreover have "spec_destroy L r' = spec_destroy L r"
    unfolding spec_destroy_def calculation m mem pb pf pbi ps c ..
  ultimately show ?thesis by (simp add: round_rank_def)
qed

lemma rank_quiet:
  assumes cr: "spec_create L r = {}" and de: "spec_destroy L r = {}"
  shows "round_rank L r = 0"
proof -
  have b: "backends_settled L r"
  proof (rule ccontr)
    assume n: "\<not> backends_settled L r"
    then have "lacking_backends L r = {}" using cr by (simp add: spec_create_def)
    then have "\<forall>name\<in>dom (ports r). \<exists>b. port_backend L r name b" unfolding lacking_backends_def by blast
    moreover have "\<exists>name\<in>dom (ports r). port_backend L r name b" if "b \<in> set (backends r)" for b
    proof -
      have sub: "managed r \<subseteq> {OBackend b | b. \<exists>name\<in>dom (ports r). port_backend L r name b}"
        using de n by (simp add: spec_destroy_def)
      have "OBackend b \<in> managed r" using that by simp
      from subsetD [OF sub this] show ?thesis by simp
    qed
    ultimately show False using n by (simp add: backends_settled_def)
  qed
  have "frontends_settled L r"
  proof (rule ccontr)
    assume n: "\<not> frontends_settled L r"
    then have "lacking_frontends L r = {}" using cr b by (simp add: spec_create_def)
    then have "\<forall>name\<in>dom (ports r). \<exists>f. port_frontend L r name f"
      using b unfolding lacking_frontends_def backends_settled_def by blast
    moreover have "\<forall>f\<in>set (frontends r). \<exists>name\<in>dom (ports r). port_frontend L r name f"
      using de unfolding spec_settled_destroy [OF b] by blast
    ultimately show False using n by (simp add: frontends_settled_def)
  qed
  with b cr de show ?thesis by (simp add: round_rank_def)
qed

lemma Reconcile_from_converges:
  assumes S: "serving L A ok V"
  shows "ok (world s) \<Longrightarrow> \<forall>n k. ranges_ok (rcn s) (orders n k) \<Longrightarrow> prompt_backoff B (backoffSteps (rcn s)) \<Longrightarrow>
    tidy (rcn s) (V (world s)) \<Longrightarrow>
    \<exists>s'. Reconcile_from L A B orders n s = Some (None, s') \<and> ok (world s') \<and> same_config (rcn s) (rcn s') \<and>
      tidy (rcn s) (V (world s')) \<and> others (rcn s) (V (world s')) = others (rcn s) (V (world s)) \<and>
      managed (rcn s') = ours (rcn s) (V (world s')) \<and> reconciled L (rcn s') \<and> round_rank L (rcn s') = 0 \<and>
      (round_rank L (rcn (snd (retrieveState L A s))) = 0 \<longrightarrow> V (world s') = V (world s))"
proof (induction "round_rank L (rcn (snd (retrieveState L A s)))" arbitrary: s n rule: less_induct)
  case less
  note w = less.prems(1) and rg = less.prems(2) and B = less.prems(3) and T = less.prems(4)
  have rgn: "\<forall>k. ranges_ok (rcn s) (orders n k)" using rg by blast
  obtain s1 cr de s2 where ret: "retrieveState L A s = (None, s1)" "managed (rcn s1) = ours (rcn s) (V (world s))"
    and cfg: "same_config (rcn s) (rcn s1)" and chk: "ReconcileCheck L A (orders n) s = (Inr (cr, de), s2)" "ok (world s2)"
    "V (world s2) = V (world s)" and same: "same_objects (rcn s1) (rcn s2)" and sets: "set cr = spec_create L (rcn s1)"
    "set de = spec_destroy L (rcn s1)" "distinct (filter names_port cr)" and u: "unambiguous (rcn s1)" and fc: "frontends_complete (rcn s1)"
    by (rule serving_check [OF S w rgn T]) (rule that)
  let ?r = "rcn s1"
  have k: "round_rank L (rcn (snd (retrieveState L A s))) = round_rank L ?r" using ret(1) by simp
  have m: "managed ?r = ours ?r (V (world s2))" using ret(2) ours_config(1) [OF cfg] chk(3) by simp
  have T': "tidy ?r (V (world s2))" using T tidy_config [OF cfg] chk(3) by simp
  have cfg2: "same_config (rcn s) (rcn s2)" using same_config_trans [OF cfg same_objects_fields(7) [OF same]] .
  have cfg21: "same_config (rcn s2) ?r" using same_objects_fields(7) [OF same] by (simp add: same_config_def)
  have again: ?case
    if rnd: "reconcile_round L A B (orders n) s = Some (Again, s')" and s': "ok (world s')" "rcn s' = rcn s2" "tidy ?r (V (world s'))"
      "others ?r (V (world s')) = others ?r (V (world s2))"
      and rank: "\<forall>r'. same_config ?r r' \<longrightarrow> managed r' = ours ?r (V (world s')) \<longrightarrow> round_rank L r' < round_rank L ?r" for s'
  proof -
    have c': "same_config (rcn s) (rcn s')" using cfg2 s'(2) by simp
    have cr: "same_config ?r (rcn s')" using same_objects_fields(7) [OF same] s'(2) by simp
    obtain s3 where s3: "retrieveState L A s' = (None, s3)" "managed (rcn s3) = ours (rcn s') (V (world s'))"
      using retrieveState_ours [OF servingD(1) [OF S] servingD(5) [OF S] s'(1)] by blast
    have c3: "same_config (rcn s') (rcn s3)" using retrieveState_retrieved [OF servingD(1) [OF S] s3(1)] by blast
    have lt: "round_rank L (rcn (snd (retrieveState L A s'))) < round_rank L (rcn (snd (retrieveState L A s)))"
      using rank [rule_format, OF same_config_trans [OF cr c3]] s3 ours_config(1) [OF cr] by (simp add: k)
    have rg': "\<forall>n k. ranges_ok (rcn s') (orders n k)" using rg ranges_config [OF c'] by simp
    have B': "prompt_backoff B (backoffSteps (rcn s'))" using B c' by (simp add: same_config_def)
    have t': "tidy (rcn s') (V (world s'))" using s'(3) tidy_config [OF cr] by simp
    obtain s4 where s4: "Reconcile_from L A B orders (Suc n) s' = Some (None, s4)" "ok (world s4)" "same_config (rcn s') (rcn s4)"
      "tidy (rcn s') (V (world s4))" "others (rcn s') (V (world s4)) = others (rcn s') (V (world s'))"
      "managed (rcn s4) = ours (rcn s') (V (world s4))" "reconciled L (rcn s4)" "round_rank L (rcn s4) = 0"
      using less.hyps [OF lt s'(1) rg' B' t', of "Suc n"] by blast
    have "Reconcile_from L A B orders n s = Some (None, s4)"
      using rnd s4(1) by (subst Reconcile_from.simps) simp
    moreover have "others (rcn s) (V (world s4)) = others (rcn s) (V (world s))"
      using s4(5) s'(4) chk(3) others_config [OF c'] others_config [OF cfg] by simp
    ultimately show ?thesis
      using s4 same_config_trans [OF c' s4(3)] tidy_config [OF c'] ours_config(1) [OF c'] lt by (intro exI [of _ s4]) simp
  qed
  show ?case
  proof (cases "de = []")
    case False
    obtain s' where s': "destroy_branch L A de s2 = Some (Again, s')" "ok (world s')" "rcn s' = rcn s2" "tidy ?r (V (world s'))"
      "others ?r (V (world s')) = others ?r (V (world s2))"
      "\<forall>r'. same_config ?r r' \<longrightarrow> managed r' = ours ?r (V (world s')) \<longrightarrow> round_rank L r' < round_rank L ?r"
      using round_destroys [OF S chk(2) T' m sets(2) False] by blast
    have "reconcile_round L A B (orders n) s = Some (Again, s')" using chk(1) False s'(1) by (simp add: reconcile_round_def)
    from again [OF this s'(2-6)] show ?thesis .
  next
    case nil: True
    show ?thesis
    proof (cases "cr = []")
      case False
      have "prompt_backoff B (backoffSteps ?r)" using B cfg by (simp add: same_config_def)
      moreover have "spec_destroy L ?r = {}" using sets(2) nil by simp
      ultimately obtain s' where s': "create_branch L A B cr s2 = (Again, s')" "ok (world s')" "rcn s' = rcn s2" "tidy ?r (V (world s'))"
        "others ?r (V (world s')) = others ?r (V (world s2))"
        "\<forall>r'. same_config ?r r' \<longrightarrow> managed r' = ours ?r (V (world s')) \<longrightarrow> round_rank L r' < round_rank L ?r"
        using round_creates [OF S chk(2) T' m cfg21 _ sets(1,3) _ False, of B] by blast
      have "reconcile_round L A B (orders n) s = Some (Again, s')" using chk(1) False nil s'(1) by (simp add: reconcile_round_def)
      from again [OF this s'(2-6)] show ?thesis .
    next
      case True
      have fin: "Reconcile_from L A B orders n s = Some (None, count_total s2)"
        using chk(1) nil True by (subst Reconcile_from.simps) (simp add: reconcile_round_def)
      have "frontends_complete (rcn s2)" using fc same_objects_fields [OF same] by simp
      then have "reconciled L (rcn s2)"
        using quiet_check_reconciled [OF servingD(1) [OF S] rgn chk(1) [unfolded nil True]] by blast
      moreover have "round_rank L (rcn s2) = 0"
        using rank_cong [OF same_objects_fields(7) [OF same] same_objects_fields(5) [OF same]] rank_quiet [of L ?r] sets nil True by simp
      moreover have "managed (rcn s2) = ours (rcn s) (V (world s2))" using same_objects_fields(5) [OF same] ret(2) chk(3) by simp
      moreover have "world (count_total s2) = world s2" by (simp add: count_total_def)
      ultimately show ?thesis using fin chk cfg2 T by (intro exI [of _ "count_total s2"]) simp
    qed
  qed
qed

end
