(* ===== verification/RefEngine.thy ===== *)
theory RefEngine
  imports Engine
begin

text \<open>
  A concrete Engine that meets the contract, and refuses to destroy an object others refer to. It is the
  one of \<open>Objects\<close> with that check; the theorems about a serving Engine are witnessed on it.
\<close>

definition linked_destroy :: "ref_world api_op" where
  "linked_destroy obj w =
     (if list_ex (\<lambda>(i, x). child_of x obj) (re_objects w) \<and> list_ex (\<lambda>(i, x). i = ref_identifier obj) (re_objects w)
      then (Some (HTTPError 409), obj, w) else ref_destroy obj w)"

definition linked_api :: "ref_world api" where
  "linked_api = ref_api\<lparr>api_destroy := linked_destroy\<rparr>"

definition ref_view :: "ref_world \<Rightarrow> engine_view" where
  "ref_view w = \<lparr>ev_store = map_of (re_objects w), ev_tags = set (re_tags w)\<rparr>"

text \<open>Identifiers are unique, and those still to be given out are not in use.\<close>

definition fresh_identifier :: "nat \<Rightarrow> string" where
  "fresh_identifier n = ''id-'' @ string_of_nat n"

definition ref_ok :: "ref_world \<Rightarrow> bool" where
  "ref_ok w \<longleftrightarrow> distinct (map fst (re_objects w)) \<and> (\<forall>(i, x)\<in>set (re_objects w). stored ref_lib i x) \<and>
     (\<forall>n\<ge>re_next w. (\<forall>(i, x)\<in>set (re_objects w). i \<noteq> fresh_identifier n \<and>
          (\<forall>y. ref_identifier y = fresh_identifier n \<longrightarrow> \<not> child_of x y)) \<and>
        (\<forall>(i, t)\<in>set (re_tags w). i \<noteq> fresh_identifier n))"

lemma ref_okD:
  assumes "ref_ok w"
  shows "distinct (map fst (re_objects w))" and "map_of (re_objects w) i = Some x \<Longrightarrow> stored ref_lib i x"
    and "re_next w \<le> n \<Longrightarrow> map_of (re_objects w) (fresh_identifier n) = None"
    and "re_next w \<le> n \<Longrightarrow> map_of (re_objects w) i = Some x \<Longrightarrow> ref_identifier y = fresh_identifier n \<Longrightarrow> \<not> child_of x y"
    and "re_next w \<le> n \<Longrightarrow> (fresh_identifier n, t) \<notin> set (re_tags w)"
proof -
  show "distinct (map fst (re_objects w))" using assms by (simp add: ref_ok_def)
  show "map_of (re_objects w) i = Some x \<Longrightarrow> stored ref_lib i x" using assms by (auto simp: ref_ok_def dest: map_of_SomeD)
  show "re_next w \<le> n \<Longrightarrow> map_of (re_objects w) (fresh_identifier n) = None"
    using assms by (fastforce simp: ref_ok_def map_of_eq_None_iff)
  show "re_next w \<le> n \<Longrightarrow> map_of (re_objects w) i = Some x \<Longrightarrow> ref_identifier y = fresh_identifier n \<Longrightarrow> \<not> child_of x y"
    using assms by (fastforce simp: ref_ok_def dest: map_of_SomeD)
  show "re_next w \<le> n \<Longrightarrow> (fresh_identifier n, t) \<notin> set (re_tags w)" using assms by (fastforce simp: ref_ok_def)
qed

lemma fresh_identifier_inj [simp]: "fresh_identifier n = fresh_identifier m \<longleftrightarrow> n = m"
  by (simp add: fresh_identifier_def)

lemma linked_api_parts [simp]:
  "api_get linked_api = ref_get" "api_create linked_api = ref_create" "api_list linked_api = ref_list"
  "api_destroy linked_api = linked_destroy"
  by (simp_all add: linked_api_def ref_api_def)

lemma find_stored:
  assumes "distinct (map fst xs)" and "map_of xs i = Some x" and "P x"
  shows "List.find (\<lambda>(j, y). j = i \<and> P y) xs = Some (i, x)"
  using assms by (induction xs) (auto split: if_splits dest!: map_of_SomeD intro: rev_image_eqI)

lemma linked_get: "serves_get linked_api ref_ok ref_view"
  unfolding serves_get_def
proof (intro allI impI)
  fix w obj x assume ok: "ref_ok w" and x: "ev_store (ref_view w) (ref_identifier obj) = Some x" and t: "same_type obj x"
  have "map_of (re_objects w) (ref_identifier obj) = Some x" using x by (simp add: ref_view_def)
  from find_stored [OF ref_okD(1) [OF ok] this, of "same_type obj"] t
  have "ref_get obj w = (None, x, w)" by (simp add: ref_get_def)
  with ok show "\<exists>w'. api_get linked_api obj w = (None, x, w') \<and> ref_ok w' \<and> ref_view w' = ref_view w" by simp
qed

lemma linked_list: "serves_list linked_api ref_ok ref_view"
  unfolding serves_list_def
proof (intro allI impI)
  fix w ts assume ok: "ref_ok w"
  let ?found = "filter (\<lambda>(i, x). list_all (\<lambda>t. List.member (re_tags w) (i, t)) ts) (re_objects w)"
  let ?rts = "map (\<lambda>(i, x) v. (Inr \<lparr>res_id = i, res_type = type_identifier x\<rparr>, v)) ?found"
  let ?ids = "map fst ?found"
  have mem: "(i, x) \<in> set ?found \<longleftrightarrow> map_of (re_objects w) i = Some x \<and> has_tags (ref_view w) ts i" for i x
    using ref_okD(1) [OF ok] by (auto simp: list_all_iff has_tags_def ref_view_def)
  have ids: "set ?ids = {i \<in> dom (ev_store (ref_view w)). has_tags (ref_view w) ts i}"
  proof (rule set_eqI)
    fix i show "i \<in> set ?ids \<longleftrightarrow> i \<in> {i \<in> dom (ev_store (ref_view w)). has_tags (ref_view w) ts i}"
      using mem by (force simp: ref_view_def dom_def)
  qed
  have listed: "list_all2 (lists_object ref_ok ref_view (ref_view w)) ?ids ?rts"
    unfolding list_all2_map1 list_all2_map2
  proof (rule list.rel_refl_strong)
    fix p assume p: "p \<in> set ?found"
    obtain i x where px: "p = (i, x)" by (cases p)
    with p mem have ix: "map_of (re_objects w) i = Some x" by blast
    with px show "lists_object ref_ok ref_view (ref_view w) (fst p) (case p of (i, x) \<Rightarrow> \<lambda>v. (Inr \<lparr>res_id = i, res_type = type_identifier x\<rparr>, v))"
      by (simp add: lists_object_def ref_view_def)
  qed
  show "\<exists>e rts w' ids. api_list linked_api True ts w = (e, rts, w') \<and> ref_ok w' \<and> ref_view w' = ref_view w \<and>
      set ids = {i \<in> dom (ev_store (ref_view w)). has_tags (ref_view w) ts i} \<and>
      (e = None \<and> list_all2 (lists_object ref_ok ref_view (ref_view w)) ids rts \<or>
       (\<exists>err. e = Some err \<and> as_http err = Some 422 \<and> ids = []))"
  proof (cases "?found = []")
    case True
    then have "api_list linked_api True ts w = (Some (HTTPError 422), [], w)" by (simp add: ref_list_def)
    moreover have "set [] = {i \<in> dom (ev_store (ref_view w)). has_tags (ref_view w) ts i}" using ids unfolding True by simp
    ultimately show ?thesis using ok by (intro exI [of _ "Some (HTTPError 422)"] exI [of _ "[]"] exI [of _ w]) simp
  next
    case False
    then have "api_list linked_api True ts w = (None, ?rts, w)" by (simp add: ref_list_def)
    then show ?thesis using ok ids listed by (intro exI [of _ None] exI [of _ ?rts] exI [of _ w] exI [of _ ?ids]) simp
  qed
qed

lemma linked_tag: "serves_tag linked_api ref_ok ref_view"
  unfolding serves_tag_def
proof (intro allI impI)
  fix w i t assume ok: "ref_ok w" and i: "i \<in> dom (ev_store (ref_view w))"
  let ?w = "w\<lparr>re_tags := re_tags w @ [(i, t)]\<rparr>"
  have "i \<noteq> fresh_identifier n" if "re_next w \<le> n" for n using ref_okD(3) [OF ok that] i by (auto simp: ref_view_def)
  then have "ref_ok ?w" using ok by (auto simp: ref_ok_def)
  then show "\<exists>obj w'. api_create linked_api (OResourceWithTag i t) w = (None, obj, w') \<and> ref_ok w' \<and>
      ref_view w' = (ref_view w)\<lparr>ev_tags := insert (i, t) (ev_tags (ref_view w))\<rparr>"
    by (intro exI [of _ "OResourceWithTag i t"] exI [of _ ?w]) (simp add: ref_create_def ref_view_def)
qed

lemma with_id_created: "parent_ok st obj \<Longrightarrow> created_as obj i (with_id i obj) \<and> ref_identifier (with_id i obj) = i"
  by (cases obj) auto

lemma with_id_stored: "i \<noteq> [] \<Longrightarrow> parent_ok st obj \<Longrightarrow> stored ref_lib i (with_id i obj)"
  by (cases obj) (auto simp: stored_def ref_lib_def obj_class_def ready_state_def)

text \<open>A new object refers to objects that exist.\<close>

lemma with_id_parent: "parent_ok st obj \<Longrightarrow> child_of (with_id i obj) y \<Longrightarrow> ref_identifier y \<in> dom st"
  by (cases obj; cases y) auto

lemma linked_create: "serves_create linked_api ref_ok ref_view"
  unfolding serves_create_def
proof (intro allI impI)
  fix w obj assume ok: "ref_ok w" and par: "parent_ok (ev_store (ref_view w)) obj"
  let ?i = "fresh_identifier (re_next w)"
  let ?x = "with_id ?i obj"
  let ?w = "w\<lparr>re_objects := re_objects w @ [(?i, ?x)], re_next := Suc (re_next w)\<rparr>"
  have none: "map_of (re_objects w) ?i = None" by (rule ref_okD(3) [OF ok]) simp
  have x: "created_as obj ?i ?x" "ref_identifier ?x = ?i" using with_id_created [OF par] by blast+
  have st: "stored ref_lib ?i ?x" by (rule with_id_stored [OF _ par]) (simp add: fresh_identifier_def)
  have "childless (ref_view w) ?x"
    unfolding childless_def using ref_okD(4) [OF ok order_refl _ x(2)] by (auto simp: ref_view_def)
  moreover have "ref_ok ?w"
  proof -
    have "\<not> child_of ?x y" if "Suc (re_next w) \<le> n" "ref_identifier y = fresh_identifier n" for n y
    proof
      assume "child_of ?x y"
      from with_id_parent [OF par this] that ref_okD(3) [OF ok, of n] show False by (auto simp: ref_view_def)
    qed
    then show ?thesis using ok st none by (auto simp: ref_ok_def map_of_eq_None_iff)
  qed
  moreover have "api_create linked_api obj w = (None, ?x, ?w)"
    using par by (cases obj) (simp_all add: ref_create_def Let_def fresh_identifier_def)
  moreover have "ref_view ?w = (ref_view w)\<lparr>ev_store := (ev_store (ref_view w))(?i \<mapsto> ?x)\<rparr>"
  proof -
    have "map_of (re_objects w @ [(?i, ?x)]) = (map_of (re_objects w))(?i \<mapsto> ?x)"
      using none by (auto simp: fun_eq_iff map_add_def split: option.split)
    then show ?thesis by (simp add: ref_view_def)
  qed
  moreover have "\<forall>t. (?i, t) \<notin> ev_tags (ref_view w)" using ref_okD(5) [OF ok order_refl] by (simp add: ref_view_def)
  moreover have "ev_store (ref_view w) ?i = None" using none by (simp add: ref_view_def)
  ultimately show "\<exists>i x w'. api_create linked_api obj w = (None, x, w') \<and> ref_ok w' \<and> created_as obj i x \<and>
      ev_store (ref_view w) i = None \<and> (\<forall>t. (i, t) \<notin> ev_tags (ref_view w)) \<and> childless (ref_view w) x \<and>
      ref_view w' = (ref_view w)\<lparr>ev_store := (ev_store (ref_view w))(i \<mapsto> x)\<rparr>"
    using x(1) by (intro exI [of _ ?i] exI [of _ ?x] exI [of _ ?w] conjI)
qed

lemma map_of_without: "map_of (filter (\<lambda>(j, x). j \<noteq> i) xs) = (map_of xs)(i := None)"
  by (induction xs) (auto simp: fun_eq_iff)

lemma linked_destroys: "serves_destroy ref_lib linked_api ref_ok ref_view"
  unfolding serves_destroy_def
proof (intro allI impI)
  fix w i x assume ok: "ref_ok w" and x: "ev_store (ref_view w) i = Some x"
  have m: "map_of (re_objects w) i = Some x" using x by (simp add: ref_view_def)
  have i: "ref_identifier x = i" using ref_okD(2) [OF ok m] by (simp add: stored_def)
  have ex: "list_ex (\<lambda>(j, y). j = i) (re_objects w)" using map_of_SomeD [OF m] by (auto simp: list_ex_iff)
  let ?w = "w\<lparr>re_objects := filter (\<lambda>(j, y). j \<noteq> i) (re_objects w)\<rparr>"
  show "(\<exists>w'. api_destroy linked_api x w = (None, x, w') \<and> ref_ok w' \<and> ev_store (ref_view w') = (ev_store (ref_view w))(i := None) \<and>
        same_other_tags i (ref_view w) (ref_view w')) \<or>
      (\<exists>e w' j y. api_destroy linked_api x w = (Some e, x, w') \<and> ref_ok w' \<and> ref_view w' = ref_view w \<and>
        ev_store (ref_view w) j = Some y \<and> child_of y x \<and> as_http e \<noteq> Some 404 \<and> \<not> isRateLimitError ref_lib e)"
  proof (cases "list_ex (\<lambda>(j, y). child_of y x) (re_objects w)")
    case True
    then obtain j y where "(j, y) \<in> set (re_objects w)" "child_of y x" by (auto simp: list_ex_iff)
    then have "ev_store (ref_view w) j = Some y" using ref_okD(1) [OF ok] by (simp add: ref_view_def)
    then show ?thesis using True ex i ok \<open>child_of y x\<close>
      by (intro disjI2 exI [of _ "HTTPError 409"] exI [of _ w] exI [of _ j] exI [of _ y])
         (simp add: linked_destroy_def ref_lib_def)
  next
    case False
    have "ref_ok ?w"
      using ok unfolding ref_ok_def by (auto simp: distinct_map filter_set inj_on_def)
    moreover have "api_destroy linked_api x w = (None, x, ?w)" using False ex i by (simp add: linked_destroy_def ref_destroy_def)
    ultimately show ?thesis
      by (intro disjI1 exI [of _ ?w]) (simp add: ref_view_def map_of_without same_other_tags_def)
  qed
qed

lemma linked_404: "gone_is_404 linked_api ref_ok ref_view"
  unfolding gone_is_404_def
proof (intro allI impI)
  fix w x assume ok: "ref_ok w" and x: "ev_store (ref_view w) (ref_identifier x) = None"
  then have "\<not> list_ex (\<lambda>(j, y). j = ref_identifier x) (re_objects w)"
    by (auto simp: list_ex_iff ref_view_def map_of_eq_None_iff rev_image_eqI)
  then show "\<exists>e w'. api_destroy linked_api x w = (Some e, x, w') \<and> ref_ok w' \<and> ref_view w' = ref_view w \<and> as_http e = Some 404"
    using ok by (intro exI [of _ "HTTPError 404"] exI [of _ w]) (simp add: linked_destroy_def ref_destroy_def)
qed

lemma linked_contract: "engine_contract ref_lib linked_api ref_ok ref_view"
  unfolding engine_contract_def
  using linked_get linked_list linked_tag linked_create linked_destroys linked_404 ref_okD(2)
  by (auto simp: stores_objects_def ref_view_def)

lemma ref_lib_once: "lib_creates_once ref_lib"
  by (auto simp: lib_creates_once_def creates_once_def ref_lib_def ref_reconcile_def split: if_splits)

end
