(* ===== verification/IpCalc.thy ===== *)
theory IpCalc
  imports GoNet
begin

text \<open>
  \<open>anx/provider/loadbalancer/address/ipcalc.go\<close>: the virtual IP of a prefix, computed byte by
  byte. The definitions follow the code's loops; the lemmas relate the bytes to the number they
  stand for, so that the result is stated as arithmetic on addresses.
\<close>

section \<open>The code\<close>

text \<open>The loop \<open>for n > 0\<close> of \<open>bitMaskForN\<close>.\<close>

function bitMask_loop :: "int \<Rightarrow> byte \<Rightarrow> byte" where
  "bitMask_loop n ret =
     (if n > 0 then bitMask_loop (n - 1) (ret OR push_bit (nat (8 - n)) 1) else ret)"
  by pat_completeness auto
termination
  by (relation "measure (\<lambda>(n, ret). nat n)") auto

declare bitMask_loop.simps [simp del]

definition bitMaskForN :: "int \<Rightarrow> byte" where
  "bitMaskForN n = (if n \<ge> 8 then 0xFF else bitMask_loop n 0)"

text \<open>
  The loop of \<open>calculateVIP\<close> over \<open>i < size/8\<close>. \<open>None\<close> is the run-time panic of an
  index that is out of range (a mask longer than the address).
\<close>

function vip_loop :: "nat \<Rightarrow> nat \<Rightarrow> int \<Rightarrow> ip \<Rightarrow> ip option" where
  "vip_loop i n net ret =
     (if i < n then
        (if i < length ret
         then vip_loop (Suc i) n net (ret[i := ret ! i OR NOT (bitMaskForN (net - int i * 8))])
         else None)
      else Some ret)"
  by pat_completeness auto
termination
  by (relation "measure (\<lambda>(i, n, net, ret). n - i)") auto

declare vip_loop.simps [simp del]

definition calculateVIP :: "ipnet \<Rightarrow> ip option" where
  "calculateVIP n =
     (let (net, size) = mask_size (net_mask n)
      in case vip_loop 0 (nat (size div 8)) net (net_ip n) of
           None \<Rightarrow> None
         | Some ret \<Rightarrow> if ret = [] then None
                       else Some (ret[length ret - 1 := ret ! (length ret - 1) - 1]))"

section \<open>The mask of one byte\<close>

lemma bitMaskForN_ge8 [simp]: "8 \<le> n \<Longrightarrow> bitMaskForN n = 0xFF"
  by (simp add: bitMaskForN_def)

lemma bitMaskForN_le0 [simp]: "n \<le> 0 \<Longrightarrow> bitMaskForN n = 0"
  by (simp add: bitMaskForN_def bitMask_loop.simps)

lemma bitMaskForN_table:
  "bitMaskForN 1 = 0x80" "bitMaskForN 2 = 0xC0" "bitMaskForN 3 = 0xE0" "bitMaskForN 4 = 0xF0"
  "bitMaskForN 5 = 0xF8" "bitMaskForN 6 = 0xFC" "bitMaskForN 7 = 0xFE"
  by (simp_all add: bitMaskForN_def bitMask_loop.simps)

lemma int_cases_lt8: "0 \<le> (n :: int) \<Longrightarrow> n < 8 \<Longrightarrow> n \<in> {0, 1, 2, 3, 4, 5, 6, 7}"
  by auto

lemma unat_bitMaskForN: "0 \<le> n \<Longrightarrow> n \<le> 8 \<Longrightarrow> unat (bitMaskForN n) = 256 - 2 ^ nat (8 - n)"
  by (cases "n = 8") (auto dest!: int_cases_lt8 simp: bitMaskForN_table)

section \<open>The loop as a function on the bytes\<close>

fun host_fill :: "int \<Rightarrow> ip \<Rightarrow> ip" where
  "host_fill net [] = []"
| "host_fill net (b # bs) = (b OR NOT (bitMaskForN net)) # host_fill (net - 8) bs"

lemma length_host_fill [simp]: "length (host_fill net bs) = length bs"
  by (induction net bs rule: host_fill.induct) auto

lemma host_fill_Nil_iff [simp]: "host_fill net bs = [] \<longleftrightarrow> bs = []"
  by (cases bs) auto

lemma vip_loop_host_fill:
  "vip_loop (length xs) (length xs + length ys) net (xs @ ys)
     = Some (xs @ host_fill (net - int (length xs) * 8) ys)"
proof (induction ys arbitrary: xs)
  case Nil
  then show ?case by (simp add: vip_loop.simps)
next
  case (Cons y ys)
  let ?b = "y OR NOT (bitMaskForN (net - int (length xs) * 8))"
  have "vip_loop (length xs) (length xs + length (y # ys)) net (xs @ y # ys)
      = vip_loop (length (xs @ [?b])) (length (xs @ [?b]) + length ys) net ((xs @ [?b]) @ ys)"
    by (subst vip_loop.simps) (simp add: list_update_append nth_append)
  also have "\<dots> = Some ((xs @ [?b]) @ host_fill (net - int (length (xs @ [?b])) * 8) ys)"
    by (rule Cons.IH)
  finally show ?case by (simp add: algebra_simps)
qed

lemma vip_loop_eq: "vip_loop 0 (length bs) net bs = Some (host_fill net bs)"
  using vip_loop_host_fill [of "[]" bs net] by simp

section \<open>Bytes as numbers\<close>

fun be_nat :: "ip \<Rightarrow> nat" where
  "be_nat [] = 0"
| "be_nat (b # bs) = unat b * 256 ^ length bs + be_nat bs"

lemma unat_byte_lt: "unat (b :: byte) < 256"
  by (rule order_less_le_trans [OF unsigned_less]) simp

lemma be_nat_lt: "be_nat bs < 256 ^ length bs"
proof (induction bs)
  case (Cons b bs)
  have "unat b * 256 ^ length bs \<le> 255 * 256 ^ length bs"
    using unat_byte_lt [of b] by (intro mult_le_mono1) simp
  with Cons.IH show ?case
    by (simp only: be_nat.simps length_Cons power_Suc)
qed simp

lemma be_nat_append: "be_nat (xs @ ys) = be_nat xs * 256 ^ length ys + be_nat ys"
  by (induction xs) (simp_all add: algebra_simps power_add)

text \<open>A network address: every bit outside the mask is zero.\<close>

fun host_zero :: "int \<Rightarrow> ip \<Rightarrow> bool" where
  "host_zero net [] \<longleftrightarrow> True"
| "host_zero net (b # bs) \<longleftrightarrow> b AND NOT (bitMaskForN net) = 0 \<and> host_zero (net - 8) bs"

lemma unat_or_disjoint: "(a :: byte) AND b = 0 \<Longrightarrow> unat (a OR b) = unat a + unat b"
  by (metis disjunctive_add_eq_or unsigned_0 unsigned_and_eq unsigned_or_eq)

lemma unat_not_byte: "unat (NOT (b :: byte)) = 255 - unat b"
proof -
  have "(255 :: byte) = - 1" by simp
  then have "NOT b = 255 - b" by (simp only: not_eq_complement) simp
  then show ?thesis
    using unat_byte_lt [of b] by (simp add: unat_sub_if')
qed

lemma byte_256_zero: "(- 256 :: byte) = 0"
  by (simp add: word_eq_iff_unsigned)

text \<open>Past the prefix every host byte becomes \<open>0xFF\<close>.\<close>

lemma host_fill_all_ones:
  "net \<le> 0 \<Longrightarrow> host_zero net bs \<Longrightarrow>
   Suc (be_nat (host_fill net bs)) = 256 ^ length bs \<and> be_nat bs = 0"
proof (induction bs arbitrary: net)
  case (Cons b bs)
  from Cons.prems have b: "b = 0" by auto
  have "unat (NOT (0 :: byte)) = 255" by (simp only: unat_not_byte) simp
  with Cons.IH [of "net - 8"] Cons.prems b show ?case by auto
qed simp

lemma be_nat_host_fill:
  "0 \<le> net \<Longrightarrow> net \<le> 8 * int (length bs) \<Longrightarrow> host_zero net bs \<Longrightarrow>
   Suc (be_nat (host_fill net bs)) = be_nat bs + 2 ^ nat (8 * int (length bs) - net)"
proof (induction bs arbitrary: net)
  case (Cons b bs)
  show ?case
  proof (cases "net \<ge> 8")
    case True
    with Cons.IH [of "net - 8"] Cons.prems
    show ?thesis by (simp add: byte_256_zero algebra_simps)
  next
    case False
    let ?k = "nat (8 - net)"
    have "(2 :: nat) ^ ?k \<le> 2 ^ 8" using Cons.prems by (intro power_increasing) auto
    then have "Suc (255 - (256 - 2 ^ ?k)) = (2 :: nat) ^ ?k" by simp
    with False Cons.prems have b: "Suc (unat (b OR NOT (bitMaskForN net))) = unat b + 2 ^ ?k"
      by (simp add: unat_or_disjoint unat_not_byte unat_bitMaskForN)
    have rest: "Suc (be_nat (host_fill (net - 8) bs)) = 256 ^ length bs" "be_nat bs = 0"
      using host_fill_all_ones [of "net - 8" bs] False Cons.prems by auto
    have "nat (8 * int (length (b # bs)) - net) = ?k + 8 * length bs"
      using False Cons.prems by simp
    then have pow: "(2 :: nat) ^ nat (8 * int (length (b # bs)) - net) = 2 ^ ?k * 256 ^ length bs"
      by (simp add: power_add power_mult)
    have "Suc (be_nat (host_fill net (b # bs)))
        = unat (b OR NOT (bitMaskForN net)) * 256 ^ length bs + 256 ^ length bs"
      using rest by simp
    also have "\<dots> = (unat b + 2 ^ ?k) * 256 ^ length bs"
      using b by (metis add.commute mult_Suc)
    finally show ?thesis using rest pow by (simp add: algebra_simps)
  qed
qed simp

section \<open>The last byte\<close>

lemma be_nat_dec_last:
  assumes "bs \<noteq> []" and "last bs \<noteq> 0"
  shows "be_nat (bs[length bs - 1 := bs ! (length bs - 1) - 1]) = be_nat bs - 1"
proof -
  obtain xs b where bs: "bs = xs @ [b]" using assms by (metis rev_exhaust)
  with assms have "unat (b - 1) = unat b - 1" "unat b \<noteq> 0"
    by (auto simp: unat_minus_one unat_eq_0)
  with bs show ?thesis by (simp add: be_nat_append)
qed

lemma host_fill_last:
  "bs \<noteq> [] \<Longrightarrow> net < 8 * int (length bs) \<Longrightarrow> bit (last (host_fill net bs)) 0"
proof (induction bs arbitrary: net)
  case (Cons b bs)
  show ?case
  proof (cases "bs = []")
    case True
    with Cons.prems have "net < 8" by simp
    then have "\<not> bit (bitMaskForN net) 0"
      by (cases "net \<le> 0") (auto dest!: int_cases_lt8 [rotated] simp: bitMaskForN_table)
    with True show ?thesis by (simp add: bit_or_iff bit_not_iff)
  next
    case False
    with Cons show ?thesis by simp
  qed
qed simp

section \<open>Networks as the code gets them\<close>

text \<open>
  A network whose mask is a run of \<open>p\<close> ones as wide as its address, with no host bit set. This
  is what \<open>net.ParseCIDR\<close> returns (\<open>parseCIDR_net_ok\<close> below).
\<close>

definition net_ok :: "nat \<Rightarrow> ipnet \<Rightarrow> bool" where
  "net_ok p n \<longleftrightarrow>
     net_ip n \<noteq> [] \<and> mask_size (net_mask n) = (int p, 8 * int (length (net_ip n))) \<and>
     p \<le> 8 * length (net_ip n) \<and> host_zero (int p) (net_ip n)"

lemma calculateVIP_net_ok:
  assumes "net_ok p n"
  shows "calculateVIP n = Some ((host_fill (int p) (net_ip n))
           [length (net_ip n) - 1 := host_fill (int p) (net_ip n) ! (length (net_ip n) - 1) - 1])"
  using assms by (simp add: net_ok_def calculateVIP_def vip_loop_eq)

lemma be_nat_calculateVIP:
  assumes ok: "net_ok p n" and p: "p < 8 * length (net_ip n)" and vip: "calculateVIP n = Some a"
  shows "be_nat a = be_nat (net_ip n) + 2 ^ (8 * length (net_ip n) - p) - 2"
proof -
  let ?f = "host_fill (int p) (net_ip n)"
  from ok have ne: "net_ip n \<noteq> []" and hz: "host_zero (int p) (net_ip n)" by (auto simp: net_ok_def)
  then have "bit (last ?f) 0" using host_fill_last [of "net_ip n" "int p"] p by simp
  then have "last ?f \<noteq> 0" by auto
  with ne have "be_nat a = be_nat ?f - 1"
    using be_nat_dec_last [of ?f] vip calculateVIP_net_ok [OF ok] by simp
  moreover have "nat (8 * int (length (net_ip n)) - int p) = 8 * length (net_ip n) - p"
    by simp
  then have "Suc (be_nat ?f) = be_nat (net_ip n) + 2 ^ (8 * length (net_ip n) - p)"
    using be_nat_host_fill [OF _ _ hz] p by simp
  ultimately show ?thesis by simp
qed

section \<open>What ParseCIDR returns\<close>

lemma nat_cases_lt8: "(n :: nat) < 8 \<Longrightarrow> n \<in> {0, 1, 2, 3, 4, 5, 6, 7}"
  by auto

lemma not_drop_ff: "n < 8 \<Longrightarrow> NOT (drop_bit n (0xff :: byte)) = bitMaskForN (int n)"
  by (drule nat_cases_lt8) (auto simp: bitMaskForN_table drop_bit_eq_div)

lemma cidr_mask_bytes_Suc:
  "cidr_mask_bytes (Suc l) n = bitMaskForN (int n) # cidr_mask_bytes l (n - 8)"
  by (auto simp: not_drop_ff)

lemma length_cidr_mask_bytes [simp]: "length (cidr_mask_bytes l n) = l"
  by (induction l n rule: cidr_mask_bytes.induct) auto

lemma cidr_mask_bytes_0: "cidr_mask_bytes l 0 = replicate l 0"
  by (induction l) auto

lemma ones_of_byte_numeral:
  "ones_of_byte (numeral k) v n =
     (if v AND 0x80 \<noteq> 0 then ones_of_byte (pred_numeral k) (v * 2) (Suc n) else (n, v))"
  by (simp add: numeral_eq_Suc push_bit_eq_mult del: One_nat_def)

lemma ones_of_byte_1: "ones_of_byte (Suc 0) v n = (if v AND 0x80 \<noteq> 0 then (Suc n, v * 2) else (n, v))"
  by (simp add: push_bit_eq_mult)

declare ones_of_byte.simps [simp del]

lemma ones_of_byte_table:
  "ones_of_byte 8 0 k = (k, 0)"
  "ones_of_byte 8 0x80 k = (k + 1, 0)" "ones_of_byte 8 0xC0 k = (k + 2, 0)"
  "ones_of_byte 8 0xE0 k = (k + 3, 0)" "ones_of_byte 8 0xF0 k = (k + 4, 0)"
  "ones_of_byte 8 0xF8 k = (k + 5, 0)" "ones_of_byte 8 0xFC k = (k + 6, 0)"
  "ones_of_byte 8 0xFE k = (k + 7, 0)"
  by (simp_all add: ones_of_byte_numeral ones_of_byte_1)

lemma ones_bitMask: "n < 8 \<Longrightarrow> ones_of_byte 8 (bitMaskForN (int n)) k = (k + n, 0)"
  by (drule nat_cases_lt8) (auto simp: bitMaskForN_table ones_of_byte_table)

lemma bitMask_not_ff: "n < 8 \<Longrightarrow> bitMaskForN (int n) \<noteq> 0xff"
  by (drule nat_cases_lt8) (auto simp: bitMaskForN_table)

lemma simpleMaskLength_cidr:
  "n \<le> 8 * l \<Longrightarrow> simpleMaskLength (cidr_mask_bytes l n) k = Some (k + n)"
proof (induction l arbitrary: n k)
  case (Suc l)
  show ?case
  proof (cases "n \<ge> 8")
    case True
    with Suc show ?thesis by simp
  next
    case False
    then show ?thesis
      by (simp add: cidr_mask_bytes_Suc ones_bitMask bitMask_not_ff cidr_mask_bytes_0
          del: cidr_mask_bytes.simps)
  qed
qed simp

lemma mask_size_cidr: "n \<le> 8 * l \<Longrightarrow> mask_size (cidr_mask_bytes l n) = (int n, int l * 8)"
  by (simp add: mask_size_def simpleMaskLength_cidr)

lemma host_zero_masked:
  "length a = l \<Longrightarrow> host_zero (int n) (map2 (AND) a (cidr_mask_bytes l n))"
proof (induction a arbitrary: l n)
  case (Cons b a)
  then obtain l' where l: "l = Suc l'" "length a = l'" by auto
  have "host_zero (int n - 8) (map2 (AND) a (cidr_mask_bytes l' (n - 8)))"
  proof (cases "n \<ge> 8")
    case True
    with Cons.IH [OF l(2), of "n - 8"] show ?thesis by (simp add: of_nat_diff)
  next
    case False
    have "host_zero m (map2 (AND) a (replicate l' 0))" if "m \<le> 0" for m
      using l(2) that by (induction a arbitrary: l' m) auto
    with False show ?thesis by (simp add: cidr_mask_bytes_0)
  qed
  with l show ?case
    by (simp add: cidr_mask_bytes_Suc and.assoc del: cidr_mask_bytes.simps)
qed simp

lemma net_ok_masked:
  assumes "length a = l" and "l \<noteq> 0" and "n \<le> 8 * l"
  shows "net_ok n \<lparr>net_ip = map2 (AND) a (cidr_mask_bytes l n), net_mask = cidr_mask_bytes l n\<rparr>"
proof -
  have "map2 (AND) a (cidr_mask_bytes l n) \<noteq> []"
    using assms by (cases a; cases l) (auto simp: cidr_mask_bytes_Suc simp del: cidr_mask_bytes.simps)
  then show ?thesis
    using assms by (simp add: net_ok_def mask_size_cidr host_zero_masked)
qed

lemma parseCIDR_net_ok:
  assumes "parseCIDR s = Some n"
  shows "\<exists>p w. (w = 32 \<or> w = 128) \<and> 8 * length (net_ip n) = w \<and> net_ok p n"
proof -
  let ?addr = "takeWhile (\<lambda>c. c \<noteq> CHR ''/'') s" and ?rest = "dropWhile (\<lambda>c. c \<noteq> CHR ''/'') s"
  from assms obtain x where x: "parse_addr ?addr = Some x"
    by (auto simp: parseCIDR_def Let_def split: if_splits option.splits)
  obtain v4 a where va: "x = (v4, a)" by (cases x)
  from assms x va obtain p where p': "dtoi (tl ?rest) 0 = Some p"
    by (auto simp: parseCIDR_def Let_def split: if_splits option.splits)
  let ?bits = "if v4 then 32 else 128 :: nat"
  from assms x va p' have a: "parse_addr ?addr = Some (v4, a)" and p: "p \<le> ?bits"
    and n: "n = \<lparr>net_ip = ip_mask a (cidrMask p ?bits), net_mask = cidrMask p ?bits\<rparr>"
    by (simp_all add: parseCIDR_def Let_def split: if_splits)
  show ?thesis
  proof (cases v4)
    case True
    with a p n have "n = \<lparr>net_ip = map2 (AND) (drop 12 a) (cidr_mask_bytes 4 p),
                         net_mask = cidr_mask_bytes 4 p\<rparr>"
      by (simp add: ip_mask_def cidrMask_def Let_def parse_addr_length parse_addr_v4)
    moreover have "length (drop 12 a) = 4" using a by (simp add: parse_addr_length)
    ultimately show ?thesis
      using net_ok_masked [of "drop 12 a" 4 p] p True by (intro exI [of _ p] exI [of _ 32]) simp
  next
    case False
    with a p n have "n = \<lparr>net_ip = map2 (AND) a (cidr_mask_bytes 16 p),
                         net_mask = cidr_mask_bytes 16 p\<rparr>"
      by (simp add: ip_mask_def cidrMask_def Let_def parse_addr_length)
    moreover have "length a = 16" using a by (simp add: parse_addr_length)
    ultimately show ?thesis
      using net_ok_masked [of a 16 p] p False by (intro exI [of _ p] exI [of _ 128]) simp
  qed
qed

section \<open>Properties\<close>

text \<open>
  \<open>bitMaskForN n\<close> is the byte with the \<open>n\<close> highest bits set, for every \<open>n\<close>: none below 1, all
  from 8 on. The definition of the loop carries its termination.
\<close>

theorem bitMaskForN_spec:
  "unat (bitMaskForN n) = (if n \<le> 0 then 0 else if 8 \<le> n then 255 else 256 - 2 ^ nat (8 - n))"
  by (auto simp: unat_bitMaskForN)

text \<open>
  For every prefix string that parses, with \<open>p\<close> mask bits out of \<open>w\<close> and at least one host
  bit, \<open>calculateVIP\<close> does not panic and returns the address just below the broadcast address:
  network address plus \<open>2^(w-p) - 2\<close>.
\<close>

theorem calculateVIP_below_broadcast:
  assumes "parseCIDR s = Some n" and "mask_size (net_mask n) = (int p, int w)" and "p < w"
  shows "\<exists>a. calculateVIP n = Some a \<and> length a = length (net_ip n) \<and>
             be_nat a + 2 = be_nat (net_ip n) + 2 ^ (w - p)"
proof -
  obtain q where ok: "net_ok q n" using parseCIDR_net_ok [OF assms(1)] by blast
  with assms(2) have q: "q = p" and w: "w = 8 * length (net_ip n)" by (auto simp: net_ok_def)
  have "(2 :: nat) \<le> 2 ^ (w - p)" using assms(3) by (cases "w - p") auto
  with be_nat_calculateVIP [OF ok] calculateVIP_net_ok [OF ok] assms(3) q w show ?thesis by simp
qed

theorem calculateVIP_below_broadcast_witness:
  "\<exists>a. calculateVIP \<lparr>net_ip = [10, 1, 2, 192], net_mask = [255, 255, 255, 192]\<rparr> = Some a \<and>
       length a = 4 \<and> be_nat a + 2 = be_nat [10, 1, 2, 192] + 2 ^ (32 - 26)"
proof -
  let ?n = "\<lparr>net_ip = [10, 1, 2, 192], net_mask = [255, 255, 255, 192 :: byte]\<rparr>"
  have "parseCIDR ''10.1.2.200/26'' = Some ?n" by (simp add: parse_eval)
  moreover have "mask_size (net_mask ?n) = (int 26, int 32)" by code_simp
  ultimately obtain a where "calculateVIP ?n = Some a" "length a = length (net_ip ?n)"
    "be_nat a + 2 = be_nat (net_ip ?n) + 2 ^ (32 - 26)"
    using calculateVIP_below_broadcast [of "''10.1.2.200/26''" ?n 26 32] by auto
  then show ?thesis by simp
qed

text \<open>
  A host route (\<open>/32\<close> or \<open>/128\<close>) has no address below its broadcast address: the code
  decrements the last byte of the only address, wrapping within that byte, and so returns an
  address that is not in the prefix.
\<close>

theorem calculateVIP_host_route_leaves_prefix:
  assumes "parseCIDR s = Some n" and "mask_size (net_mask n) = (int w, int w)" and "w \<noteq> 0"
  shows "\<exists>a. calculateVIP n = Some a \<and> last a = last (net_ip n) - 1 \<and> a \<noteq> net_ip n"
proof -
  obtain q where ok: "net_ok q n" using parseCIDR_net_ok [OF assms(1)] by blast
  with assms(2) have q: "q = w" and w: "w = 8 * length (net_ip n)" and ne: "net_ip n \<noteq> []"
    by (auto simp: net_ok_def)
  have keep: "host_fill (8 * int (length bs)) bs = bs" for bs
    by (induction bs) (simp_all add: byte_256_zero algebra_simps)
  let ?a = "(net_ip n)[length (net_ip n) - 1 := net_ip n ! (length (net_ip n) - 1) - 1]"
  have "calculateVIP n = Some ?a"
    using calculateVIP_net_ok [OF ok] keep [of "net_ip n"] q w by simp
  moreover have "last ?a = last (net_ip n) - 1" using ne by (simp add: last_conv_nth)
  moreover have "last (net_ip n) - 1 \<noteq> last (net_ip n)" by simp
  ultimately show ?thesis by metis
qed

theorem calculateVIP_host_route_leaves_prefix_witness:
  "\<exists>a. calculateVIP \<lparr>net_ip = [10, 0, 0, 0], net_mask = [255, 255, 255, 255]\<rparr> = Some a \<and>
       last a = 255 \<and> a \<noteq> [10, 0, 0, 0]"
proof -
  let ?n = "\<lparr>net_ip = [10, 0, 0, 0], net_mask = [255, 255, 255, 255 :: byte]\<rparr>"
  have "parseCIDR ''10.0.0.0/32'' = Some ?n" by (simp add: parse_eval)
  moreover have "mask_size (net_mask ?n) = (int 32, int 32)" by code_simp
  ultimately obtain a where "calculateVIP ?n = Some a" "last a = last (net_ip ?n) - 1" "a \<noteq> net_ip ?n"
    using calculateVIP_host_route_leaves_prefix [of "''10.0.0.0/32''" ?n 32] by auto
  then show ?thesis by simp
qed

lemma be_nat_dec_last_out:
  assumes "bs \<noteq> []" and "a = bs[length bs - 1 := bs ! (length bs - 1) - 1]"
  shows "be_nat a \<noteq> be_nat bs"
proof -
  obtain xs b where bs: "bs = xs @ [b]" using assms(1) by (metis rev_exhaust)
  have "b - 1 \<noteq> b" by simp
  then have "unat (b - 1) \<noteq> unat b" by (metis unsigned_word_eqI)
  with assms(2) bs show ?thesis by (simp add: be_nat_append)
qed

text \<open>
  C8. For every prefix that parses, \<open>calculateVIP\<close> does not panic and returns an address of the same
  length: with a host bit the one just below the broadcast address. It lies in the prefix if and only
  if there is a host bit, and strictly between the network and the broadcast address if and only if
  there are two: a \<open>/31\<close> gives the network address, a \<open>/32\<close> an address outside.
\<close>

theorem calculateVIP_bounds:
  assumes "parseCIDR s = Some n" and "mask_size (net_mask n) = (int p, int w)"
  shows "\<exists>a. calculateVIP n = Some a \<and> length a = length (net_ip n) \<and>
    (p < w \<longrightarrow> be_nat a + 2 = be_nat (net_ip n) + 2 ^ (w - p)) \<and>
    (be_nat (net_ip n) \<le> be_nat a \<and> be_nat a < be_nat (net_ip n) + 2 ^ (w - p) \<longleftrightarrow> p < w) \<and>
    (be_nat (net_ip n) < be_nat a \<and> Suc (be_nat a) < be_nat (net_ip n) + 2 ^ (w - p) \<longleftrightarrow> Suc p < w)"
proof -
  obtain q where ok: "net_ok q n" using parseCIDR_net_ok [OF assms(1)] by blast
  with assms(2) have q: "q = p" and w: "w = 8 * length (net_ip n)" and ne: "net_ip n \<noteq> []" and le: "p \<le> w"
    by (auto simp: net_ok_def)
  obtain a where a: "calculateVIP n = Some a" "length a = length (net_ip n)"
    using calculateVIP_net_ok [OF ok] by simp
  show ?thesis
  proof (cases "p < w")
    case True
    obtain k where k: "w - p = Suc k" using True by (cases "w - p") auto
    have eq: "be_nat a = be_nat (net_ip n) + 2 ^ (w - p) - 2"
      using be_nat_calculateVIP [OF ok _ a(1)] True q w by simp
    have "Suc p < w \<longleftrightarrow> 0 < k" using k by auto
    moreover have "(2 :: nat) ^ k > 1 \<longleftrightarrow> 0 < k" using one_less_power [of "2 :: nat" k] by (cases "k = 0") simp_all
    moreover have "(2 :: nat) ^ k \<ge> 1" by simp
    ultimately show ?thesis using a eq k True by (intro exI [of _ a]) auto
  next
    case False
    with le have pw: "p = w" by simp
    have keep: "host_fill (8 * int (length bs)) bs = bs" for bs
      by (induction bs) (simp_all add: byte_256_zero algebra_simps)
    have "be_nat a \<noteq> be_nat (net_ip n)"
      using be_nat_dec_last_out [OF ne] calculateVIP_net_ok [OF ok] a(1) keep [of "net_ip n"] q w pw by simp
    then show ?thesis using a pw by (intro exI [of _ a]) auto
  qed
qed

theorem calculateVIP_bounds_witness:
  "\<exists>a. calculateVIP \<lparr>net_ip = [10, 1, 2, 254], net_mask = [255, 255, 255, 254]\<rparr> = Some a \<and> a = [10, 1, 2, 254] \<and>
     be_nat [10, 1, 2, 254] \<le> be_nat a \<and> be_nat a < be_nat [10, 1, 2, 254] + 2 \<and> \<not> be_nat [10, 1, 2, 254] < be_nat a"
proof -
  let ?n = "\<lparr>net_ip = [10, 1, 2, 254], net_mask = [255, 255, 255, 254 :: byte]\<rparr>"
  have p: "parseCIDR ''10.1.2.254/31'' = Some ?n" by (simp add: parse_eval)
  have m: "mask_size (net_mask ?n) = (int 31, int 32)" by code_simp
  have v: "calculateVIP ?n = Some [10, 1, 2, 254]" by code_simp
  from calculateVIP_bounds [OF p m] v show ?thesis by (intro exI [of _ "[10, 1, 2, 254]"]) simp
qed

end
