(* ===== verification/Kube.thy ===== *)
theory Kube
  imports GoErrors GoNet
begin

text \<open>
  The Kubernetes objects the provider reads, with the fields it reads: a service with its status, a
  node. \<open>int32\<close> fields are \<open>32 word\<close> values. The API server is a parameter: listing the
  services of all namespaces is an operation on the world that may fail.
\<close>

record service_port =
  sp_name :: string
  sp_port :: "32 word"
  sp_nodePort :: "32 word"

record portStatus =
  ps_port :: "32 word"
  ps_protocol :: string

record ingress =
  ing_ip :: string
  ing_hostname :: string
  ing_ports :: "portStatus list"

record service =
  svc_name :: string
  svc_namespace :: string
  svc_uid :: string
  svc_deletion :: bool                       \<comment> \<open>\<open>DeletionTimestamp\<close> is set\<close>
  svc_type :: string
  svc_ports :: "service_port list"
  svc_families :: "string list"
  svc_annotations :: "string \<rightharpoonup> string"
  svc_ingress :: "ingress list"

record node =
  node_name :: string
  node_providerID :: string
  node_addresses :: "(string \<times> string) list"  \<comment> \<open>type and address\<close>

text \<open>The client: \<open>None\<close> is the nil interface of a manager without one.\<close>

type_synonym 'w service_lister = "'w \<Rightarrow> (go_error + service list) \<times> 'w"

definition IPv4Protocol :: string where "IPv4Protocol = ''IPv4''"
definition IPv6Protocol :: string where "IPv6Protocol = ''IPv6''"
definition ServiceTypeLoadBalancer :: string where "ServiceTypeLoadBalancer = ''LoadBalancer''"
definition ProtocolTCP :: string where "ProtocolTCP = ''TCP''"
definition NodeInternalIP :: string where "NodeInternalIP = ''InternalIP''"
definition NodeExternalIP :: string where "NodeExternalIP = ''ExternalIP''"
definition NodeHostName :: string where "NodeHostName = ''Hostname''"

text \<open>Errors of \<open>k8s.io/cloud-provider\<close>.\<close>

definition NotImplemented :: go_error where
  "NotImplemented = Sentinel ''unimplemented''"
definition InstanceNotFound :: go_error where
  "InstanceNotFound = Sentinel ''instance not found''"

end
