(* ===== verification/Address.thy ===== *)
theory Address
  imports IpCalc ReconState Kube
begin

text \<open>
  Allocation of external addresses (\<open>loadbalancer/address/address.go\<close>, \<open>prefix.go\<close>). The legacy IPAM client is a
  parameter, the time is an argument (nanoseconds), the cache of prefixes is in the manager's state.
\<close>

section \<open>The families and addresses of a service\<close>

definition lbaasExternalIPFamiliesAnnotation :: string where
  "lbaasExternalIPFamiliesAnnotation = ''lbaas.anx.io/external-ip-families''"

definition prefixCacheTimeout :: int where
  "prefixCacheTimeout = 2 * 60 * 1000000000"

definition errInvalidIPFamiliesAnnotation :: go_error where
  "errInvalidIPFamiliesAnnotation =
     Sentinel ''invalid IP family in annotation lbaas.anx.io/external-ip-families''"

definition errFamilyMismatch :: go_error where
  "errFamilyMismatch = Sentinel ''requested family does not match prefix family''"

fun valid_loop :: "string \<Rightarrow> string list \<Rightarrow> bool" where
  "valid_loop fam [] = False"
| "valid_loop fam (v # vs) = (if fam = v then True else valid_loop fam vs)"

fun families_loop :: "string list \<Rightarrow> string list \<Rightarrow> go_error + string list" where
  "families_loop [] families = Inr families"
| "families_loop (fam # fams) families =
     (if \<not> valid_loop fam [IPv4Protocol, IPv6Protocol]
      then Inl (wrap_error (fam @ '' is not a valid IPFamily'') errInvalidIPFamiliesAnnotation)
      else families_loop fams (families @ [fam]))"

definition serviceAddressFamilies :: "service \<Rightarrow> go_error + string list" where
  "serviceAddressFamilies svc =
     (case svc_annotations svc lbaasExternalIPFamiliesAnnotation of
        None \<Rightarrow> Inr (svc_families svc)
      | Some s \<Rightarrow> families_loop (split_at (CHR '','') s) [])"

fun addresses_loop :: "ingress list \<Rightarrow> string list \<Rightarrow> string list" where
  "addresses_loop [] ret = ret"
| "addresses_loop (ing # ings) ret = addresses_loop ings (if ing_ip ing \<noteq> [] then ret @ [ing_ip ing] else ret)"

definition serviceAddresses :: "service \<Rightarrow> string list" where
  "serviceAddresses svc = (if svc_ingress svc = [] then [] else addresses_loop (svc_ingress svc) [])"

section \<open>Prefixes\<close>

text \<open>The legacy IPAM API: the name of a prefix (its CIDR), and name and prefix of an address.\<close>

record ipam_address =
  ad_id :: string
  ad_name :: string
  ad_prefix :: string

record 'w ipam =
  prefix_get :: "string \<Rightarrow> 'w \<Rightarrow> (go_error + string) \<times> 'w"
  address_get :: "string \<Rightarrow> 'w \<Rightarrow> (go_error + ipam_address) \<times> 'w"

record prefix =
  pf_identifier :: string
  pf_prefix :: ipnet
  pf_family :: string
  pf_addresses :: "ip list"

text \<open>\<open>discoverVIP\<close>: the first tagged address of the prefix; nil (the empty list) when there is none.\<close>

fun discover_loop :: "'w ipam \<Rightarrow> string \<Rightarrow> 'w retriever list \<Rightarrow> 'w \<Rightarrow> (go_error + ip) \<times> 'w" where
  "discover_loop I pid [] w = (Inr [], w)"
| "discover_loop I pid (rt # rts) w =
     (case rt w of
        (Inl e, w1) \<Rightarrow> (Inl (wrap_error ''error retrieving resource'' e), w1)
      | (Inr res, w1) \<Rightarrow>
          (case address_get I (res_id res) w1 of
             (Inl e, w2) \<Rightarrow> discover_loop I pid rts w2
           | (Inr address, w2) \<Rightarrow>
               if ad_prefix address \<noteq> pid then discover_loop I pid rts w2
               else (Inr (parseIP (ad_name address)), w2)))"

definition discoverVIP :: "'w api \<Rightarrow> 'w ipam \<Rightarrow> string \<Rightarrow> string \<Rightarrow> 'w \<Rightarrow> (go_error + ip) \<times> 'w" where
  "discoverVIP A I pid tag w =
     (case api_list A False [tag] w of
        (Some e, _, w1) \<Rightarrow>
          (if as_http e = Some 422 then Inr [] else Inl (wrap_error ''unable to autodiscover VIP address by tag'' e), w1)
      | (None, oc, w1) \<Rightarrow> discover_loop I pid oc w1)"

text \<open>
  \<open>newPrefix\<close>. \<open>calculateVIP\<close> works on the slice of the network it is given, which is the one
  stored in the prefix: afterwards the stored network address is the virtual IP.
\<close>

definition with_calculated_vip :: "prefix \<Rightarrow> go_error + prefix" where
  "with_calculated_vip p =
     (case calculateVIP (pf_prefix p) of
        None \<Rightarrow> Inl (Panic ''index out of range in calculateVIP'')
      | Some vip \<Rightarrow> Inr (p\<lparr>pf_prefix := (pf_prefix p)\<lparr>net_ip := vip\<rparr>, pf_addresses := [vip]\<rparr>))"

definition newPrefix :: "'w api \<Rightarrow> 'w ipam \<Rightarrow> string \<Rightarrow> string option \<Rightarrow> 'w \<Rightarrow> (go_error + prefix) \<times> 'w" where
  "newPrefix A I identifier autoName w =
     (case prefix_get I identifier w of
        (Inl e, w1) \<Rightarrow> (Inl e, w1)
      | (Inr name, w1) \<Rightarrow>
          (case parseCIDR name of
             None \<Rightarrow> (Inl (OtherError ''invalid CIDR address''), w1)
           | Some n \<Rightarrow>
               let ret = \<lparr>pf_identifier = identifier, pf_prefix = n,
                          pf_family = (if to4 (net_ip n) \<noteq> [] then IPv4Protocol else IPv6Protocol),
                          pf_addresses = []\<rparr> in
               (case autoName of
                  None \<Rightarrow> (with_calculated_vip ret, w1)
                | Some auto \<Rightarrow>
                    (case discoverVIP A I identifier (''kubernetes-lb-vip-'' @ auto) w1 of
                       (Inl e, w2) \<Rightarrow> (Inl (wrap_error ''error discovering VIP'' e), w2)
                     | (Inr vip, w2) \<Rightarrow>
                         (if vip = [] then with_calculated_vip ret
                          else Inr (ret\<lparr>pf_addresses := [vip]\<rparr>), w2)))))"

definition prefix_allocateAddress :: "prefix \<Rightarrow> string \<Rightarrow> go_error + ip" where
  "prefix_allocateAddress p fam =
     (if fam \<noteq> pf_family p then Inl errFamilyMismatch
      else (case pf_addresses p of
              [] \<Rightarrow> Inl (Panic ''index out of range: p.addresses'') | a # as \<Rightarrow> Inr a))"

section \<open>The manager\<close>

record amgr =
  autoDiscoveryName :: "string option"
  fixedPrefixes :: "prefix list"
  prefixCache :: "prefix list option"          \<comment> \<open>\<open>None\<close>: nil\<close>
  prefixCacheTimestamp :: int

definition newMgr :: amgr where
  "newMgr = \<lparr>autoDiscoveryName = None, fixedPrefixes = [], prefixCache = None, prefixCacheTimestamp = 0\<rparr>"

fun fixed_loop :: "'w api \<Rightarrow> 'w ipam \<Rightarrow> string option \<Rightarrow> string list \<Rightarrow> prefix list \<Rightarrow> 'w \<Rightarrow> (go_error + prefix list) \<times> 'w" where
  "fixed_loop A I auto [] ps w = (Inr ps, w)"
| "fixed_loop A I auto (i # ids) ps w =
     (case newPrefix A I i auto w of
        (Inl e, w1) \<Rightarrow> (Inl e, w1)
      | (Inr p, w1) \<Rightarrow> fixed_loop A I auto ids (ps @ [p]) w1)"

definition NewWithPrefixes :: "'w api \<Rightarrow> 'w ipam \<Rightarrow> string list \<Rightarrow> 'w \<Rightarrow> (go_error + amgr) \<times> 'w" where
  "NewWithPrefixes A I ids w =
     (case fixed_loop A I (autoDiscoveryName newMgr) ids [] w of
        (Inl e, w1) \<Rightarrow> (Inl e, w1)
      | (Inr ps, w1) \<Rightarrow> (Inr (newMgr\<lparr>fixedPrefixes := ps\<rparr>), w1))"

definition NewWithAutoDiscovery :: "string \<Rightarrow> amgr" where
  "NewWithAutoDiscovery name = newMgr\<lparr>autoDiscoveryName := Some name\<rparr>"

text \<open>
  \<open>prefixes\<close>: \<open>t\<close> is the time when the cache is looked at, \<open>t'\<close> when it is written. A prefix that
  cannot be retrieved is skipped; a panic is not an error and ends the loop.
\<close>

fun prefix_loop :: "'w api \<Rightarrow> 'w ipam \<Rightarrow> string option \<Rightarrow> 'w retriever list \<Rightarrow> prefix list \<Rightarrow> 'w \<Rightarrow> (go_error + prefix list) \<times> 'w" where
  "prefix_loop A I auto [] ret w = (Inr ret, w)"
| "prefix_loop A I auto (rt # rts) ret w =
     (case rt w of
        (Inl e, w1) \<Rightarrow> (Inl (wrap_error ''error retrieving resource with tag'' e), w1)
      | (Inr res, w1) \<Rightarrow>
          (case newPrefix A I (res_id res) auto w1 of
             (Inl (Panic p), w2) \<Rightarrow> (Inl (Panic p), w2)
           | (Inl e, w2) \<Rightarrow> prefix_loop A I auto rts ret w2
           | (Inr p, w2) \<Rightarrow> prefix_loop A I auto rts (ret @ [p]) w2))"

definition cache_valid :: "int \<Rightarrow> amgr \<Rightarrow> bool" where
  "cache_valid t m \<longleftrightarrow> prefixCache m \<noteq> None \<and> prefixCacheTimestamp m + prefixCacheTimeout > t"

definition store_cache :: "prefix list \<Rightarrow> int \<Rightarrow> amgr \<Rightarrow> amgr" where
  "store_cache ps t m = m\<lparr>prefixCache := Some ps, prefixCacheTimestamp := t\<rparr>"

definition mgr_prefixes ::
  "'w api \<Rightarrow> 'w ipam \<Rightarrow> int \<times> int \<Rightarrow> amgr \<Rightarrow> 'w \<Rightarrow> (go_error + prefix list) \<times> amgr \<times> 'w" where
  "mgr_prefixes A I ts m w =
     (if cache_valid (fst ts) m then (Inr (the (prefixCache m)), m, w)
      else
        (case autoDiscoveryName m of
           None \<Rightarrow> (Inr (fixedPrefixes m), store_cache (fixedPrefixes m) (snd ts) m, w)
         | Some auto \<Rightarrow>
             (case api_list A True [''kubernetes-lb-prefix-'' @ auto] w of
                (Some e, _, w1) \<Rightarrow> (Inl (wrap_error ''error listing resources with tag'' e), m, w1)
              | (None, oc, w1) \<Rightarrow>
                  (case prefix_loop A I (Some auto) oc (fixedPrefixes m) w1 of
                     (Inl e, w2) \<Rightarrow> (Inl e, m, w2)
                   | (Inr ps, w2) \<Rightarrow> (Inr ps, store_cache ps (snd ts) m, w2)))))"

fun first_of_family :: "string \<Rightarrow> prefix list \<Rightarrow> go_error + ip" where
  "first_of_family fam [] = Inl NotImplemented"
| "first_of_family fam (p # ps) =
     (if pf_family p = fam then prefix_allocateAddress p fam else first_of_family fam ps)"

definition mgr_allocateAddress ::
  "'w api \<Rightarrow> 'w ipam \<Rightarrow> int \<times> int \<Rightarrow> amgr \<Rightarrow> string \<Rightarrow> 'w \<Rightarrow> (go_error + ip) \<times> amgr \<times> 'w" where
  "mgr_allocateAddress A I ts m fam w =
     (case mgr_prefixes A I ts m w of
        (Inl e, m1, w1) \<Rightarrow> (Inl e, m1, w1)
      | (Inr ps, m1, w1) \<Rightarrow> (first_of_family fam ps, m1, w1))"

definition ip_family :: "ip \<Rightarrow> string" where
  "ip_family a = (if to4 a \<noteq> [] then IPv4Protocol else IPv6Protocol)"

fun current_loop :: "string list \<Rightarrow> (string \<rightharpoonup> ip list) \<Rightarrow> (string \<rightharpoonup> ip list)" where
  "current_loop [] cur = cur"
| "current_loop (a # as) cur =
     (let ip = parseIP a; fam = ip_family ip;
          cur' = (if cur fam = None then cur(fam \<mapsto> []) else cur)
      in current_loop as (cur'(fam \<mapsto> the (cur' fam) @ [ip])))"

text \<open>The loop over the families; \<open>now k\<close> are the times of its \<open>k\<close>-th turn.\<close>

fun allocate_loop ::
  "'w api \<Rightarrow> 'w ipam \<Rightarrow> (nat \<Rightarrow> int \<times> int) \<Rightarrow> nat \<Rightarrow> (string \<rightharpoonup> ip list) \<Rightarrow> string list \<Rightarrow> string list \<Rightarrow>
   amgr \<Rightarrow> 'w \<Rightarrow> (go_error + string list) \<times> amgr \<times> 'w" where
  "allocate_loop A I now k cur [] ret m w = (Inr ret, m, w)"
| "allocate_loop A I now k cur (fam # fams) ret m w =
     (case cur fam of
        Some addresses \<Rightarrow> allocate_loop A I now (Suc k) cur fams (ret @ map ip_string addresses) m w
      | None \<Rightarrow>
          (case mgr_allocateAddress A I (now k) m fam w of
             (Inl e, m1, w1) \<Rightarrow> (Inl (wrap_error (''error allocating address for family '' @ fam) e), m1, w1)
           | (Inr addr, m1, w1) \<Rightarrow>
               allocate_loop A I now (Suc k) cur fams (ret @ map ip_string [addr]) m1 w1))"

definition AllocateAddresses ::
  "'w api \<Rightarrow> 'w ipam \<Rightarrow> (nat \<Rightarrow> int \<times> int) \<Rightarrow> service \<Rightarrow> amgr \<Rightarrow> 'w \<Rightarrow> (go_error + string list) \<times> amgr \<times> 'w" where
  "AllocateAddresses A I now svc m w =
     (case serviceAddressFamilies svc of
        Inl e \<Rightarrow> (Inl e, m, w)
      | Inr families \<Rightarrow>
          allocate_loop A I now 0 (current_loop (serviceAddresses svc) Map.empty) families [] m w)"

section \<open>Families\<close>

lemma families_loop_result:
  "families_loop fams acc =
     (if set fams \<subseteq> {IPv4Protocol, IPv6Protocol} then Inr (acc @ fams)
      else Inl (wrap_error (the (List.find (\<lambda>f. f \<notin> {IPv4Protocol, IPv6Protocol}) fams) @ '' is not a valid IPFamily'')
             errInvalidIPFamiliesAnnotation))"
  by (induction fams acc rule: families_loop.induct) auto

text \<open>
  With the annotation, exactly the lists of the two family names separated by commas are
  accepted, in the order given; anything else, the empty annotation included, is an error that
  wraps \<open>errInvalidIPFamiliesAnnotation\<close>. (Repeated families pass: the documentation allows each
  family only once.)
\<close>

theorem serviceAddressFamilies_annotation:
  assumes "svc_annotations svc lbaasExternalIPFamiliesAnnotation = Some s"
  shows "case serviceAddressFamilies svc of
      Inr families \<Rightarrow> families \<noteq> [] \<and> set families \<subseteq> {IPv4Protocol, IPv6Protocol} \<and> join_with '','' families = s
    | Inl e \<Rightarrow> errors_is e errInvalidIPFamiliesAnnotation \<and>
        \<not> (\<exists>families. set families \<subseteq> {IPv4Protocol, IPv6Protocol} \<and> families = split_at (CHR '','') s)"
  using assms join_split_at [of "CHR '',''" s] families_loop_result [of "split_at (CHR '','') s" "[]"]
  by (auto simp: serviceAddressFamilies_def errInvalidIPFamiliesAnnotation_def errors_is_def)

definition sample_service :: service where
  "sample_service =
     \<lparr>svc_name = ''web'', svc_namespace = ''default'', svc_uid = ''uid'', svc_deletion = False,
      svc_type = ''LoadBalancer'', svc_ports = [\<lparr>sp_name = ''http'', sp_port = 80, sp_nodePort = 42037\<rparr>],
      svc_families = [''IPv4''], svc_annotations = Map.empty, svc_ingress = []\<rparr>"

definition twice_service :: service where
  "twice_service = sample_service\<lparr>svc_annotations := [lbaasExternalIPFamiliesAnnotation \<mapsto> ''IPv4,IPv4''],
     svc_ingress := [\<lparr>ing_ip = ''8.8.8.8'', ing_hostname = [], ing_ports = []\<rparr>]\<rparr>"

theorem serviceAddressFamilies_annotation_witness:
  "serviceAddressFamilies twice_service = Inr [''IPv4'', ''IPv4''] \<and> join_with '','' [''IPv4'', ''IPv4''] = ''IPv4,IPv4''"
proof -
  have run: "serviceAddressFamilies twice_service = Inr [''IPv4'', ''IPv4'']" by code_simp
  have "svc_annotations twice_service lbaasExternalIPFamiliesAnnotation = Some ''IPv4,IPv4''"
    by (simp add: twice_service_def)
  from serviceAddressFamilies_annotation [OF this] run show ?thesis by simp
qed

section \<open>Addresses the service already has\<close>

lemma addresses_loop_eq: "addresses_loop ings ret = ret @ map ing_ip (filter (\<lambda>i. ing_ip i \<noteq> []) ings)"
  by (induction ings ret rule: addresses_loop.induct) auto

lemma serviceAddresses_eq: "serviceAddresses svc = map ing_ip (filter (\<lambda>i. ing_ip i \<noteq> []) (svc_ingress svc))"
  by (simp add: serviceAddresses_def addresses_loop_eq)

lemma current_loop_value:
  "current_loop as cur fam =
     (let new = map parseIP (filter (\<lambda>a. ip_family (parseIP a) = fam) as)
      in if new = [] then cur fam else Some ((case cur fam of None \<Rightarrow> [] | Some l \<Rightarrow> l) @ new))"
proof (induction as arbitrary: cur)
  case (Cons a as)
  define fam' where "fam' = ip_family (parseIP a)"
  define cur2 where "cur2 = cur(fam' \<mapsto> (case cur fam' of None \<Rightarrow> [] | Some l \<Rightarrow> l) @ [parseIP a])"
  have "current_loop (a # as) cur = current_loop as cur2"
    by (cases "cur fam'") (simp_all add: cur2_def fam'_def Let_def)
  moreover have "cur2 fam = (if fam' = fam then Some ((case cur fam of None \<Rightarrow> [] | Some l \<Rightarrow> l) @ [parseIP a]) else cur fam)"
    by (simp add: cur2_def)
  ultimately show ?case
    using Cons.IH [of cur2] by (simp add: Let_def fam'_def)
qed simp

definition current_of :: "service \<Rightarrow> string \<Rightarrow> ip list" where
  "current_of svc fam = map parseIP (filter (\<lambda>a. ip_family (parseIP a) = fam) (serviceAddresses svc))"

lemma allocate_loop_sticky:
  assumes "\<forall>fam\<in>set fams. cur fam = Some (as fam)"
  shows "allocate_loop A I now k cur fams ret m w = (Inr (ret @ concat (map (\<lambda>f. map ip_string (as f)) fams)), m, w)"
  using assms by (induction fams arbitrary: k ret) auto

text \<open>
  The interface \<open>address.Manager\<close>, with what its client relies on: a service that has an address
  of every family it asks for keeps its addresses, and nothing is asked of the Engine.
\<close>

locale address_manager =
  fixes allocate :: "'m \<Rightarrow> service \<Rightarrow> 'w \<Rightarrow> (go_error + string list) \<times> 'm \<times> 'w"
  assumes sticky: "serviceAddressFamilies svc = Inr fams \<Longrightarrow> \<forall>f\<in>set fams. current_of svc f \<noteq> [] \<Longrightarrow>
    allocate m svc w = (Inr (concat (map (\<lambda>f. map ip_string (current_of svc f)) fams)), m, w)"
  and invalid: "serviceAddressFamilies svc = Inl e \<Longrightarrow> allocate m svc w = (Inl e, m, w)"
begin

lemma idempotent:
  assumes "serviceAddressFamilies svc = Inr fams" and "\<forall>f\<in>set fams. current_of svc f \<noteq> []"
    and "allocate m svc w = (res, m', w')"
  shows "m' = m \<and> w' = w \<and> allocate m' svc w' = (res, m', w')"
  using sticky [OF assms(1,2)] assms(3) by simp

end

interpretation prefix_manager: address_manager "\<lambda>m svc w. AllocateAddresses A I now svc m w" for A I now
proof unfold_locales
  fix svc fams m w
  assume fams: "serviceAddressFamilies svc = Inr fams" and cur: "\<forall>f\<in>set fams. current_of svc f \<noteq> []"
  have "\<forall>f\<in>set fams. current_loop (serviceAddresses svc) Map.empty f = Some (current_of svc f)"
    using cur by (simp add: current_loop_value current_of_def Let_def)
  from allocate_loop_sticky [OF this, of A I now 0 "[]" m w]
  show "AllocateAddresses A I now svc m w = (Inr (concat (map (\<lambda>f. map ip_string (current_of svc f)) fams)), m, w)"
    by (simp add: AllocateAddresses_def fams)
qed (simp add: AllocateAddresses_def)

text \<open>
  Addresses are sticky: when the service's status already has an address of each requested
  family, these addresses are returned, per requested family in order, and neither the Engine nor
  the prefix cache is touched.
\<close>

theorem AllocateAddresses_sticky:
  assumes "serviceAddressFamilies svc = Inr fams" and "\<forall>f\<in>set fams. current_of svc f \<noteq> []"
  shows "AllocateAddresses A I now svc m w = (Inr (concat (map (\<lambda>f. map ip_string (current_of svc f)) fams)), m, w)"
  by (rule prefix_manager.sticky [OF assms])

text \<open>The witness shows what a repeated family does: its address is returned twice.\<close>

theorem AllocateAddresses_sticky_witness:
  "\<forall>A I now m w. AllocateAddresses A I now twice_service m w = (Inr [''8.8.8.8'', ''8.8.8.8''], m, w)"
proof (intro allI)
  fix A :: "'w api" and I :: "'w ipam" and now m w
  have fams: "serviceAddressFamilies twice_service = Inr [''IPv4'', ''IPv4'']" by code_simp
  have cur: "map ip_string (current_of twice_service ''IPv4'') = [''8.8.8.8'']" by code_simp
  then have "\<forall>f\<in>set [''IPv4'', ''IPv4'']. current_of twice_service f \<noteq> []" by auto
  from AllocateAddresses_sticky [OF fams this] cur
  show "AllocateAddresses A I now twice_service m w = (Inr [''8.8.8.8'', ''8.8.8.8''], m, w)" by simp
qed

section \<open>Prefixes\<close>

lemma with_calculated_vip_ok:
  assumes "parseCIDR name = Some (pf_prefix p)"
  shows "\<exists>vip. calculateVIP (pf_prefix p) = Some vip \<and>
    with_calculated_vip p = Inr (p\<lparr>pf_prefix := (pf_prefix p)\<lparr>net_ip := vip\<rparr>, pf_addresses := [vip]\<rparr>)"
proof -
  obtain q where "net_ok q (pf_prefix p)" using parseCIDR_net_ok [OF assms] by blast
  from calculateVIP_net_ok [OF this] show ?thesis by (auto simp: with_calculated_vip_def)
qed

text \<open>
  \<open>newPrefix\<close> of a prefix whose name is a CIDR, without a discovered address, does not panic
  and yields the calculated virtual IP as the only address, with the family of the network; but
  since the calculation works in place, the network stored in the prefix has the virtual IP as its
  address as well.
\<close>

theorem newPrefix_calculated:
  assumes "prefix_get I identifier w = (Inr name, w1)" and "parseCIDR name = Some n"
    and "autoName = None \<or> (\<exists>w2. discoverVIP A I identifier (''kubernetes-lb-vip-'' @ the autoName) w1 = (Inr [], w2))"
  shows "\<exists>p vip. fst (newPrefix A I identifier autoName w) = Inr p \<and> calculateVIP n = Some vip \<and>
    pf_addresses p = [vip] \<and> pf_identifier p = identifier \<and>
    (pf_family p = IPv4Protocol \<longleftrightarrow> to4 (net_ip n) \<noteq> []) \<and> pf_prefix p = n\<lparr>net_ip := vip\<rparr>"
proof -
  let ?p = "\<lparr>pf_identifier = identifier, pf_prefix = n,
     pf_family = (if to4 (net_ip n) \<noteq> [] then IPv4Protocol else IPv6Protocol), pf_addresses = []\<rparr>"
  obtain vip where vip: "calculateVIP n = Some vip"
    "with_calculated_vip ?p = Inr (?p\<lparr>pf_prefix := n\<lparr>net_ip := vip\<rparr>, pf_addresses := [vip]\<rparr>)"
    using with_calculated_vip_ok [of name ?p] assms(2) by auto
  have "fst (newPrefix A I identifier autoName w) = with_calculated_vip ?p"
    using assms by (cases autoName) (auto simp: newPrefix_def Let_def)
  with vip show ?thesis by (auto simp: IPv4Protocol_def IPv6Protocol_def)
qed

definition sample_ipam :: "ref_world ipam" where
  "sample_ipam =
     \<lparr>prefix_get = (\<lambda>i w. (Inr ''10.0.0.0/24'', w)),
      address_get = (\<lambda>i w. (Inr \<lparr>ad_id = i, ad_name = ''10.0.0.9'', ad_prefix = ''p1''\<rparr>, w))\<rparr>"

theorem newPrefix_calculated_witness:
  "\<exists>p. fst (newPrefix ref_api sample_ipam ''p1'' None sample_world) = Inr p \<and>
     pf_addresses p = [[10, 0, 0, 254]] \<and> net_ip (pf_prefix p) = [10, 0, 0, 254] \<and> pf_family p = IPv4Protocol"
proof -
  let ?n = "\<lparr>net_ip = [10, 0, 0, 0], net_mask = [255, 255, 255, 0]\<rparr> :: ipnet"
  have "prefix_get sample_ipam ''p1'' sample_world = (Inr ''10.0.0.0/24'', sample_world)" by (simp add: sample_ipam_def)
  moreover have "parseCIDR ''10.0.0.0/24'' = Some ?n" by (simp add: parse_eval)
  ultimately obtain p vip where "fst (newPrefix ref_api sample_ipam ''p1'' None sample_world) = Inr p"
    "calculateVIP ?n = Some vip" "pf_addresses p = [vip]" "pf_family p = IPv4Protocol" "pf_prefix p = ?n\<lparr>net_ip := vip\<rparr>"
    using newPrefix_calculated [of sample_ipam "''p1''" sample_world "''10.0.0.0/24''" sample_world ?n None ref_api]
    by (auto simp: to4_def)
  moreover have "calculateVIP ?n = Some [10, 0, 0, 254]" by code_simp
  ultimately show ?thesis by simp
qed

text \<open>
  A virtual IP found by its tag is an address of this very prefix: \<open>discoverVIP\<close> returns an
  address only from a retrieved IPAM address whose prefix identifier is the prefix's own.
\<close>

theorem discoverVIP_own_prefix:
  assumes "discoverVIP A I pid tag w = (Inr vip, w')" and "vip \<noteq> []"
  shows "\<exists>i w1 w2 address. address_get I i w1 = (Inr address, w2) \<and> ad_prefix address = pid \<and>
    vip = parseIP (ad_name address)"
proof -
  have loop: "discover_loop I pid rts v = (Inr vip, w') \<Longrightarrow>
      \<exists>i w1 w2 address. address_get I i w1 = (Inr address, w2) \<and> ad_prefix address = pid \<and>
        vip = parseIP (ad_name address)" for rts v
  proof (induction rts arbitrary: v)
    case Nil
    with assms(2) show ?case by simp
  next
    case (Cons rt rts)
    obtain x w1 where rt: "rt v = (x, w1)" by fastforce
    with Cons.prems obtain res where x: "x = Inr res" by (cases x) auto
    obtain y w2 where get: "address_get I (res_id res) w1 = (y, w2)" by fastforce
    show ?case
    proof (cases y)
      case (Inl e)
      with Cons rt x get show ?thesis by simp
    next
      case (Inr address)
      with Cons rt x get show ?thesis by (cases "ad_prefix address = pid") auto
    qed
  qed
  obtain le oc w1 where "api_list A False [tag] w = (le, oc, w1)" by (cases "api_list A False [tag] w")
  with assms loop show ?thesis by (cases le) (auto simp: discoverVIP_def split: if_splits)
qed

theorem discoverVIP_own_prefix_witness:
  "\<exists>w'. discoverVIP ref_api sample_ipam ''p1'' ''anxccm-svc-uid=uid'' sample_world =
     (Inr (v4InV6Prefix @ [10, 0, 0, 9]), w') \<and>
     (\<exists>i w1 w2 address. address_get sample_ipam i w1 = (Inr address, w2) \<and> ad_prefix address = ''p1'')"
proof -
  let ?r = "discoverVIP ref_api sample_ipam ''p1'' ''anxccm-svc-uid=uid'' sample_world"
  have fst: "fst ?r = Inr (v4InV6Prefix @ [10, 0, 0, 9])" by code_simp
  then have r: "?r = (Inr (v4InV6Prefix @ [10, 0, 0, 9]), snd ?r)" by (metis prod.collapse)
  have "v4InV6Prefix @ [10, 0, 0, 9] \<noteq> []" by simp
  from discoverVIP_own_prefix [OF r this] r show ?thesis by blast
qed

section \<open>The cache of prefixes\<close>

text \<open>
  The prefix cache: once \<open>prefixes\<close> has returned, a call before two minutes have passed
  since the list was stored returns the same list and calls neither the Engine nor IPAM (whatever
  they would answer); a failed call leaves the cache as it was.
\<close>

theorem mgr_prefixes_cached:
  assumes "mgr_prefixes A I (t, t') m w = (res, m', w')" and "t3 < prefixCacheTimestamp m' + prefixCacheTimeout"
  shows "case res of
      Inl e \<Rightarrow> m' = m
    | Inr ps \<Rightarrow> mgr_prefixes A' I' (t3, t4) m' w2 = (Inr ps, m', w2) \<and> (m' = m \<or> prefixCacheTimestamp m' = t')"
  using assms
  by (auto simp: mgr_prefixes_def cache_valid_def store_cache_def split: if_splits option.splits sum.splits prod.splits)

definition sample_amgr :: amgr where
  "sample_amgr = newMgr\<lparr>fixedPrefixes := [\<lparr>pf_identifier = ''p1'',
     pf_prefix = \<lparr>net_ip = [10, 0, 0, 254], net_mask = [255, 255, 255, 0]\<rparr>, pf_family = ''IPv4'',
     pf_addresses = [[10, 0, 0, 254]]\<rparr>]\<rparr>"

theorem mgr_prefixes_cached_witness:
  "\<forall>A I A' I' w w2. \<exists>m'. mgr_prefixes A I (1000, 1001) sample_amgr w = (Inr (fixedPrefixes sample_amgr), m', w) \<and>
     mgr_prefixes A' I' (120000001000, 0) m' w2 = (Inr (fixedPrefixes sample_amgr), m', w2)"
proof (intro allI)
  fix A :: "'a api" and I :: "'a ipam" and A' :: "'b api" and I' :: "'b ipam" and w w2
  let ?m = "sample_amgr\<lparr>prefixCache := Some (fixedPrefixes sample_amgr), prefixCacheTimestamp := 1001\<rparr>"
  have run: "mgr_prefixes A I (1000, 1001) sample_amgr w = (Inr (fixedPrefixes sample_amgr), ?m, w)"
    by (simp add: mgr_prefixes_def cache_valid_def store_cache_def sample_amgr_def newMgr_def)
  have "120000001000 < prefixCacheTimestamp ?m + prefixCacheTimeout" by (simp add: prefixCacheTimeout_def)
  from mgr_prefixes_cached [OF run this, of A' I' 0 w2]
  have "mgr_prefixes A' I' (120000001000, 0) ?m w2 = (Inr (fixedPrefixes sample_amgr), ?m, w2)" by simp
  with run show "\<exists>m'. mgr_prefixes A I (1000, 1001) sample_amgr w = (Inr (fixedPrefixes sample_amgr), m', w) \<and>
      mgr_prefixes A' I' (120000001000, 0) m' w2 = (Inr (fixedPrefixes sample_amgr), m', w2)" by blast
qed

section \<open>New addresses\<close>

text \<open>What every prefix of the manager has: an address, at least.\<close>

definition prefix_ok :: "prefix \<Rightarrow> bool" where
  "prefix_ok p \<longleftrightarrow> pf_addresses p \<noteq> [] \<and> pf_family p \<in> {IPv4Protocol, IPv6Protocol}"

definition mgr_ok :: "amgr \<Rightarrow> bool" where
  "mgr_ok m \<longleftrightarrow> list_all prefix_ok (fixedPrefixes m) \<and> (case prefixCache m of None \<Rightarrow> True | Some ps \<Rightarrow> list_all prefix_ok ps)"

lemma newPrefix_ok: "newPrefix A I i auto w = (Inr p, w') \<Longrightarrow> prefix_ok p"
  by (auto simp: newPrefix_def Let_def with_calculated_vip_def prefix_ok_def
      split: sum.splits prod.splits option.splits if_splits)

lemma fixed_loop_ok:
  "fixed_loop A I auto ids ps w = (Inr ps', w') \<Longrightarrow> list_all prefix_ok ps \<Longrightarrow> list_all prefix_ok ps'"
  by (induction ids arbitrary: ps w) (auto split: sum.splits prod.splits dest: newPrefix_ok)

text \<open>What every new prefix has, the collected ones have.\<close>

lemma prefix_loop_all:
  assumes new: "\<And>i v p v'. newPrefix A I i auto v = (Inr p, v') \<Longrightarrow> P p"
  shows "prefix_loop A I auto rts ps w = (Inr ps', w') \<Longrightarrow> list_all P ps \<Longrightarrow> list_all P ps'"
proof (induction rts arbitrary: ps w)
  case (Cons rt rts)
  obtain x w1 where rt: "rt w = (x, w1)" by fastforce
  with Cons.prems(1) obtain res where x: "x = Inr res" by (cases x) auto
  obtain y w2 where np: "newPrefix A I (res_id res) auto w1 = (y, w2)" by fastforce
  show ?case
  proof (cases y)
    case (Inl e)
    with Cons.prems rt x np have "prefix_loop A I auto rts ps w2 = (Inr ps', w')" by (cases e) auto
    from Cons.IH [OF this Cons.prems(2)] show ?thesis .
  next
    case (Inr p)
    with Cons.prems rt x np have "prefix_loop A I auto rts (ps @ [p]) w2 = (Inr ps', w')" by simp
    from Cons.IH [OF this] new [of "res_id res" w1 p w2] np Inr Cons.prems(2) show ?thesis by simp
  qed
qed simp

lemma prefix_loop_ok:
  "prefix_loop A I auto rts ps w = (Inr ps', w') \<Longrightarrow> list_all prefix_ok ps \<Longrightarrow> list_all prefix_ok ps'"
  by (rule prefix_loop_all [OF newPrefix_ok])

lemma newMgr_ok: "mgr_ok newMgr" "mgr_ok (NewWithAutoDiscovery name)"
  by (simp_all add: mgr_ok_def newMgr_def NewWithAutoDiscovery_def)

lemma NewWithPrefixes_ok: "NewWithPrefixes A I ids w = (Inr m, w') \<Longrightarrow> mgr_ok m"
  by (auto simp: NewWithPrefixes_def mgr_ok_def newMgr_def split: sum.splits prod.splits dest!: fixed_loop_ok)

lemma mgr_prefixes_ok:
  assumes "mgr_ok m" and "mgr_prefixes A I ts m w = (res, m', w')"
  shows "mgr_ok m' \<and> (\<forall>ps. res = Inr ps \<longrightarrow> list_all prefix_ok ps \<and> prefixCache m' = Some ps)"
  using assms prefix_loop_ok [of A I _ _ "fixedPrefixes m"]
  by (fastforce simp: mgr_prefixes_def mgr_ok_def store_cache_def cache_valid_def
      split: if_splits option.splits sum.splits prod.splits)

lemma first_of_family_result:
  assumes "list_all prefix_ok ps"
  shows "first_of_family fam ps =
    (case List.find (\<lambda>p. pf_family p = fam) ps of None \<Rightarrow> Inl NotImplemented | Some p \<Rightarrow> Inr (hd (pf_addresses p)))"
  using assms by (induction ps) (auto simp: prefix_allocateAddress_def prefix_ok_def split: list.split)

text \<open>
  C36. A new address of a family is the first address of the first prefix of that family in the list
  now cached; without such a prefix the error is \<open>cloudprovider.NotImplemented\<close>. Neither the
  family mismatch nor an index out of range can happen, and the invariant of the manager is kept.
\<close>

theorem mgr_allocateAddress_result:
  assumes "mgr_ok m" and "mgr_allocateAddress A I ts m fam w = (res, m', w')"
  shows "mgr_ok m' \<and>
    (case fst (mgr_prefixes A I ts m w) of
       Inl e \<Rightarrow> res = Inl e
     | Inr ps \<Rightarrow> prefixCache m' = Some ps \<and>
         res = (case List.find (\<lambda>p. pf_family p = fam) ps of
                  None \<Rightarrow> Inl NotImplemented | Some p \<Rightarrow> Inr (hd (pf_addresses p))))"
proof -
  obtain x m1 w1 where p: "mgr_prefixes A I ts m w = (x, m1, w1)" by (cases "mgr_prefixes A I ts m w")
  note ok = mgr_prefixes_ok [OF assms(1) p]
  show ?thesis
    using assms(2) ok p first_of_family_result by (cases x) (auto simp: mgr_allocateAddress_def)
qed

theorem mgr_allocateAddress_result_witness:
  "\<exists>m'. mgr_allocateAddress ref_api sample_ipam (0, 0) sample_amgr ''IPv6'' sample_world = (Inl NotImplemented, m', sample_world) \<and>
     mgr_ok m' \<and> prefixCache m' = Some (fixedPrefixes sample_amgr)"
proof -
  have ok: "mgr_ok sample_amgr"
    by (simp add: mgr_ok_def sample_amgr_def newMgr_def prefix_ok_def IPv4Protocol_def)
  let ?m = "sample_amgr\<lparr>prefixCache := Some (fixedPrefixes sample_amgr), prefixCacheTimestamp := 0\<rparr>"
  have run: "mgr_allocateAddress ref_api sample_ipam (0, 0) sample_amgr ''IPv6'' sample_world = (Inl NotImplemented, ?m, sample_world)"
    by (simp add: mgr_allocateAddress_def mgr_prefixes_def cache_valid_def store_cache_def sample_amgr_def newMgr_def)
  have ps: "fst (mgr_prefixes ref_api sample_ipam (0, 0) sample_amgr sample_world) = Inr (fixedPrefixes sample_amgr)"
    by (simp add: mgr_prefixes_def cache_valid_def store_cache_def sample_amgr_def newMgr_def)
  from mgr_allocateAddress_result [OF ok run] ps run show ?thesis by auto
qed

end
