(* ===== verification/Discovery.thy ===== *)
theory Discovery
  imports Objects
begin

text \<open>
  Discovery of the LBaaS LoadBalancers by their tag (\<open>loadbalancer/discovery/loadbalancer.go\<close>). A
  tagged resource that cannot be read as a LoadBalancer is skipped; a retriever's error is not.
\<close>

text \<open>The loop over the channel, with the identifiers found so far.\<close>

fun discovery_loop :: "'w api \<Rightarrow> 'w retriever list \<Rightarrow> string list \<Rightarrow> 'w \<Rightarrow> (go_error + string list) \<times> 'w" where
  "discovery_loop A [] ret w = (Inr ret, w)"
| "discovery_loop A (rt # rts) ret w =
     (case rt w of
        (Inl e, w1) \<Rightarrow> (Inl (wrap_error ''error retrieving resource'' e), w1)
      | (Inr res, w1) \<Rightarrow>
          (case api_get A (OLoadBalancer (res_id res)) w1 of
             (Some e, lb, w2) \<Rightarrow> discovery_loop A rts ret w2
           | (None, lb, w2) \<Rightarrow> discovery_loop A rts (ret @ [res_id res]) w2))"

definition DiscoverLoadBalancers :: "'w api \<Rightarrow> string \<Rightarrow> 'w \<Rightarrow> (go_error + string list) \<times> 'w" where
  "DiscoverLoadBalancers A tag w =
     (case api_list A False [tag] w of
        (Some e, _, w1) \<Rightarrow> (Inl (wrap_error ''unable to autodiscover load balancer by tag'' e), w1)
      | (None, oc, w1) \<Rightarrow> discovery_loop A oc [] w1)"

section \<open>On an Engine that answers without changing\<close>

text \<open>
  Channel and reads as an Engine at rest gives them: each retriever yields its resource, and no
  operation changes the world.
\<close>

definition yields :: "'w \<Rightarrow> 'w retriever list \<Rightarrow> resource list \<Rightarrow> bool" where
  "yields w rts rs \<longleftrightarrow> list_all2 (\<lambda>rt res. rt w = (Inr res, w)) rts rs"

definition readable :: "'w api \<Rightarrow> 'w \<Rightarrow> resource \<Rightarrow> bool" where
  "readable A w res \<longleftrightarrow> fst (api_get A (OLoadBalancer (res_id res)) w) = None"

definition reads_only :: "'w api \<Rightarrow> 'w \<Rightarrow> bool" where
  "reads_only A w \<longleftrightarrow> (\<forall>i. snd (snd (api_get A (OLoadBalancer i) w)) = w)"

lemma discovery_loop_filter:
  assumes "reads_only A w"
  shows "yields w rts rs \<Longrightarrow>
    discovery_loop A rts ret w = (Inr (ret @ map res_id (filter (readable A w) rs)), w)"
proof (induction rts arbitrary: rs ret)
  case (Cons rt rts)
  then obtain r rs' where rs: "rs = r # rs'" and rt: "rt w = (Inr r, w)" and rest: "yields w rts rs'"
    by (auto simp: yields_def list_all2_Cons1)
  obtain e lb w' where get: "api_get A (OLoadBalancer (res_id r)) w = (e, lb, w')" by (metis prod_cases3)
  have "w' = w" using assms get unfolding reads_only_def by (metis snd_conv)
  with Cons.IH [OF rest] rs rt get show ?case by (cases e) (simp_all add: readable_def)
qed (simp add: yields_def)

end
