(* ===== verification/Config.thy ===== *)
theory Config
  imports GoErrors
begin

text \<open>
  The configuration (\<open>configuration/configuration.go\<close>): the file, the environment, then the flags.
  Reading, the YAML parser, \<open>envconfig\<close> and the creation of the manager options are parameters.
\<close>

record config =
  cf_Token :: string
  cf_CustomerID :: string
  cf_ClusterName :: string
  cf_AutoDiscoveryTagPrefix :: string
  cf_AutoDiscoverLoadBalancer :: bool
  cf_LoadBalancerIdentifier :: string
  cf_SecondaryLoadBalancerIdentifiers :: "string list"
  cf_LoadBalancerPrefixIdentifiers :: "string list"
  cf_LoadBalancerBackoffSteps :: int

definition zero_config :: config where
  "zero_config =
     \<lparr>cf_Token = [], cf_CustomerID = [], cf_ClusterName = [], cf_AutoDiscoveryTagPrefix = [],
      cf_AutoDiscoverLoadBalancer = False, cf_LoadBalancerIdentifier = [],
      cf_SecondaryLoadBalancerIdentifiers = [], cf_LoadBalancerPrefixIdentifiers = [],
      cf_LoadBalancerBackoffSteps = 0\<rparr>"

definition CloudProviderName :: string where "CloudProviderName = ''anexia''"
definition CloudProviderScheme :: string where "CloudProviderScheme = CloudProviderName @ ''://''"

text \<open>
  The parameters. \<open>Unmarshal\<close> and \<open>Process\<close> write through a pointer, also when they fail. Of the
  manager options the cluster name is kept; \<open>None\<close> is nil.
\<close>

type_synonym config_step = "config \<Rightarrow> go_error option \<times> config"

record config_env =
  ce_unmarshal :: "string \<Rightarrow> config_step"           \<comment> \<open>\<open>yaml.Unmarshal\<close>\<close>
  ce_process :: config_step                         \<comment> \<open>\<open>envconfig.Process("ANEXIA", _)\<close>\<close>
  ce_new_options :: "go_error option \<times> string option" \<comment> \<open>\<open>NewCloudControllerManagerOptions\<close>\<close>

text \<open>\<open>GetManagerOptions\<close>: the options are created once and kept in a variable of the package.\<close>

definition GetManagerOptions :: "config_env \<Rightarrow> string option \<Rightarrow> (go_error option \<times> string option) \<times> string option" where
  "GetManagerOptions E managerOptions =
     (case managerOptions of
        Some opts \<Rightarrow> ((None, Some opts), managerOptions)
      | None \<Rightarrow> (ce_new_options E, snd (ce_new_options E)))"

definition applyCliFlagsToProviderConfig ::
  "config_env \<Rightarrow> config \<Rightarrow> string option \<Rightarrow> go_error option \<times> config \<times> string option" where
  "applyCliFlagsToProviderConfig E c managerOptions =
     (case GetManagerOptions E managerOptions of
        ((Some e, _), mo) \<Rightarrow> (Some e, c, mo)
      | ((None, None), mo) \<Rightarrow> (Some (Panic ''nil pointer dereference: managerOptions''), c, mo)
      | ((None, Some sharedConfigClusterName), mo) \<Rightarrow>
          (None,
           (if sharedConfigClusterName \<noteq> ''kubernetes'' then c\<lparr>cf_ClusterName := sharedConfigClusterName\<rparr> else c),
           mo))"

text \<open>\<open>reader\<close> is \<open>None\<close> for a nil reader, else what \<open>io.ReadAll\<close> returns.\<close>

definition NewProviderConfig ::
  "config_env \<Rightarrow> (go_error + string) option \<Rightarrow> string option \<Rightarrow> (go_error option \<times> config) \<times> string option" where
  "NewProviderConfig E reader managerOptions =
     (let env_and_flags = (\<lambda>c.
            (case ce_process E c of
               (Some e, _) \<Rightarrow> ((Some e, zero_config), managerOptions)
             | (None, c2) \<Rightarrow>
                 (case applyCliFlagsToProviderConfig E c2 managerOptions of
                    (err, c3, mo) \<Rightarrow> ((err, c3), mo)))) in
      case reader of
        None \<Rightarrow> env_and_flags zero_config
      | Some (Inl e) \<Rightarrow> ((Some e, zero_config), managerOptions)
      | Some (Inr file) \<Rightarrow>
          (case ce_unmarshal E file zero_config of
             (Some e, _) \<Rightarrow> ((Some e, zero_config), managerOptions)
           | (None, c1) \<Rightarrow> env_and_flags c1))"

section \<open>Which value wins\<close>

text \<open>
  What \<open>envconfig\<close> documents of two fields with a \<open>default\<close> tag: the variable's value when it is
  set, else the default, whatever the field holds. \<open>env\<close> are the variables; fields without a
  default keep their value when their variable is not set.
\<close>

definition envconfig_contract :: "(string \<rightharpoonup> string) \<Rightarrow> config_env \<Rightarrow> bool" where
  "envconfig_contract env E \<longleftrightarrow>
     (\<forall>c c'. ce_process E c = (None, c') \<longrightarrow>
        cf_AutoDiscoveryTagPrefix c' =
          (case env ''ANEXIA_AUTO_DISCOVERY_TAG_PREFIX'' of Some v \<Rightarrow> v | None \<Rightarrow> ''anxkube-ccm-lb'') \<and>
        (env ''ANEXIA_LOADBALANCERBACKOFFSTEPS'' = None \<longrightarrow> cf_LoadBalancerBackoffSteps c' = 30) \<and>
        cf_ClusterName c' =
          (case env ''ANEXIA_CLUSTER_NAME'' of Some v \<Rightarrow> v | None \<Rightarrow> cf_ClusterName c))"


text \<open>A file that sets the prefix, the name and the steps; only the name is kept.\<close>

definition sample_env :: config_env where
  "sample_env =
     \<lparr>ce_unmarshal = (\<lambda>file c. (None, c\<lparr>cf_ClusterName := ''from-file'', cf_AutoDiscoveryTagPrefix := ''my-prefix'',
                                         cf_LoadBalancerBackoffSteps := 5\<rparr>)),
      ce_process = (\<lambda>c. (None, c\<lparr>cf_AutoDiscoveryTagPrefix := ''anxkube-ccm-lb'', cf_LoadBalancerBackoffSteps := 30\<rparr>)),
      ce_new_options = (None, Some ''kubernetes'')\<rparr>"

lemma sample_env_contract: "envconfig_contract Map.empty sample_env"
  by (simp add: envconfig_contract_def sample_env_def)


end
