(* ===== verification/MultiRecon.thy ===== *)
theory MultiRecon
  imports DestroyProps
begin

text \<open>
  \<open>multirecon.go\<close>: several reconciliations at once. \<open>ReconcileCheck\<close>, \<open>Reconcile\<close> and
  \<open>Status\<close> start a goroutine per member, wait for all of them with a \<open>WaitGroup\<close>, close the
  channel of results and drain it. The protocol is a step relation; what is done with the drained
  results is a function of the list the channel holds.
\<close>

section \<open>The members\<close>

text \<open>\<open>multirecon\<close>; \<open>'r\<close> stands for a \<open>Reconciliation\<close>. A nil slice is the empty list.\<close>

record 'r multirecon =
  recons :: "'r list"

definition Multi :: "'r list \<Rightarrow> 'r multirecon" where
  "Multi rs = \<lparr>recons = rs\<rparr>"

lemma recons_Multi [simp]: "recons (Multi rs) = rs"
  by (simp add: Multi_def)

definition multi_Add :: "'r \<Rightarrow> 'r multirecon \<Rightarrow> 'r multirecon" where
  "multi_Add r mr = mr\<lparr>recons := recons mr @ [r]\<rparr>"

section \<open>The goroutines\<close>

text \<open>
  A goroutine calls its member, sends the result, and runs the deferred \<open>wg.Done\<close>. The channel has
  the capacity given to \<open>make\<close>; a send to a full channel waits, a send to a closed one panics, as
  does a \<open>Done\<close> on a zero counter.
\<close>

datatype 'r goroutine = Calling | Sending 'r | Sent 'r | Finished 'r

record 'r fanout =
  routines :: "'r goroutine list"
  wg :: nat
  channel :: "'r list"
  capacity :: nat
  closed :: bool

definition fan_start :: "nat \<Rightarrow> 'r fanout" where
  "fan_start n = \<lparr>routines = replicate n Calling, wg = n, channel = [], capacity = n, closed = False\<rparr>"

text \<open>\<open>ok i r\<close>: member \<open>i\<close> may return \<open>r\<close>.\<close>

inductive fan_step :: "(nat \<Rightarrow> 'r \<Rightarrow> bool) \<Rightarrow> 'r fanout \<Rightarrow> 'r fanout \<Rightarrow> bool" for ok where
  fan_return: "i < length (routines s) \<Longrightarrow> routines s ! i = Calling \<Longrightarrow> ok i r \<Longrightarrow>
    fan_step ok s (s\<lparr>routines := (routines s)[i := Sending r]\<rparr>)"
| fan_send: "i < length (routines s) \<Longrightarrow> routines s ! i = Sending r \<Longrightarrow> \<not> closed s \<Longrightarrow>
    length (channel s) < capacity s \<Longrightarrow>
    fan_step ok s (s\<lparr>routines := (routines s)[i := Sent r], channel := channel s @ [r]\<rparr>)"
| fan_done: "i < length (routines s) \<Longrightarrow> routines s ! i = Sent r \<Longrightarrow> 0 < wg s \<Longrightarrow>
    fan_step ok s (s\<lparr>routines := (routines s)[i := Finished r], wg := wg s - 1\<rparr>)"
| fan_close: "wg s = 0 \<Longrightarrow> \<not> closed s \<Longrightarrow> fan_step ok s (s\<lparr>closed := True\<rparr>)"

inductive_cases fan_stepE: "fan_step ok s s'"

inductive fan_reach :: "(nat \<Rightarrow> 'r \<Rightarrow> bool) \<Rightarrow> nat \<Rightarrow> 'r fanout \<Rightarrow> bool" for ok n where
  fan_init: "fan_reach ok n (fan_start n)"
| fan_next: "fan_reach ok n s \<Longrightarrow> fan_step ok s s' \<Longrightarrow> fan_reach ok n s'"

definition fan_panics :: "'r fanout \<Rightarrow> bool" where
  "fan_panics s \<longleftrightarrow>
     (\<exists>i<length (routines s). \<exists>r. routines s ! i = Sending r \<and> closed s) \<or>
     (\<exists>i<length (routines s). \<exists>r. routines s ! i = Sent r \<and> wg s = 0)"

section \<open>Draining the channel\<close>

type_synonym check_result = "go_error + object list \<times> object list"

fun drain_check :: "check_result list \<Rightarrow> object list \<Rightarrow> object list \<Rightarrow> check_result" where
  "drain_check [] toCreate toDestroy = Inr (toCreate, toDestroy)"
| "drain_check (Inl e # rs) toCreate toDestroy = Inl e"
| "drain_check (Inr (c, d) # rs) toCreate toDestroy = drain_check rs (toCreate @ c) (toDestroy @ d)"

fun drain_errors :: "go_error option list \<Rightarrow> go_error option" where
  "drain_errors [] = None"
| "drain_errors (Some e # rs) = Some e"
| "drain_errors (None # rs) = drain_errors rs"

type_synonym port_status = "string \<rightharpoonup> 16 word list"

fun drain_status :: "(go_error + port_status) list \<Rightarrow> port_status list \<Rightarrow> go_error + port_status list" where
  "drain_status [] status = Inr status"
| "drain_status (Inl e # rs) status = Inl e"
| "drain_status (Inr s # rs) status = drain_status rs (status @ [s])"

text \<open>\<open>mergeReconStatus\<close>: \<open>orders\<close> are the orders in which the maps are visited.\<close>

fun count_ports :: "16 word list \<Rightarrow> (16 word \<rightharpoonup> int) \<Rightarrow> (16 word \<rightharpoonup> int)" where
  "count_ports [] m = m"
| "count_ports (p # ps) m = count_ports ps (m(p \<mapsto> (case m p of None \<Rightarrow> 0 | Some c \<Rightarrow> c) + 1))"

fun count_addresses :: "(string \<times> 16 word list) list \<Rightarrow> (string \<rightharpoonup> 16 word \<rightharpoonup> int) \<Rightarrow> (string \<rightharpoonup> 16 word \<rightharpoonup> int)" where
  "count_addresses [] m = m"
| "count_addresses ((a, ps) # xs) m =
     (let m' = (if m a = None then m(a \<mapsto> Map.empty) else m)
      in count_addresses xs (m'(a \<mapsto> count_ports ps (the (m' a)))))"

fun count_status :: "(string \<times> 16 word list) list list \<Rightarrow> (string \<rightharpoonup> 16 word \<rightharpoonup> int) \<Rightarrow> (string \<rightharpoonup> 16 word \<rightharpoonup> int)" where
  "count_status [] m = m"
| "count_status (xs # xss) m = count_status xss (count_addresses xs m)"

fun max_count :: "(16 word \<times> int) list \<Rightarrow> int \<Rightarrow> int" where
  "max_count [] mx = mx"
| "max_count ((p, c) # xs) mx = max_count xs (if c > mx then c else mx)"

fun merge_loop :: "int \<Rightarrow> (string \<Rightarrow> (16 word \<times> int) list) \<Rightarrow> (string \<times> (16 word \<rightharpoonup> int)) list \<Rightarrow> port_status \<Rightarrow> port_status" where
  "merge_loop n inner [] ret = ret"
| "merge_loop n inner ((addr, portCount) # xs) ret =
     merge_loop n inner xs
       (if max_count (inner addr) 0 = n
        then ret(addr \<mapsto> map fst (filter (\<lambda>(p, c). c = n) (inner addr))) else ret)"

record merge_orders =
  status_orders :: "(string \<times> 16 word list) list list"
  count_order :: "(string \<times> (16 word \<rightharpoonup> int)) list"
  port_orders :: "string \<Rightarrow> (16 word \<times> int) list"

definition merge_orders_ok :: "port_status list \<Rightarrow> merge_orders \<Rightarrow> bool" where
  "merge_orders_ok status ord \<longleftrightarrow>
     list_all2 range_of status (status_orders ord) \<and>
     range_of (count_status (status_orders ord) Map.empty) (count_order ord) \<and>
     (\<forall>(addr, portCount)\<in>set (count_order ord). range_of portCount (port_orders ord addr))"

definition mergeReconStatus :: "port_status list \<Rightarrow> merge_orders \<Rightarrow> port_status" where
  "mergeReconStatus status ord =
     merge_loop (int (length status)) (port_orders ord) (count_order ord) Map.empty"

section \<open>The operations of a Multi\<close>

text \<open>
  An operation ends in a state of the protocol whose channel is closed; its result is computed from
  the results in the channel.
\<close>

definition multi_ReconcileCheck :: "(nat \<Rightarrow> check_result \<Rightarrow> bool) \<Rightarrow> 'r multirecon \<Rightarrow> check_result \<Rightarrow> bool" where
  "multi_ReconcileCheck ok mr res \<longleftrightarrow>
     (\<exists>s. fan_reach ok (length (recons mr)) s \<and> closed s \<and> res = drain_check (channel s) [] [])"

definition multi_Reconcile :: "(nat \<Rightarrow> go_error option \<Rightarrow> bool) \<Rightarrow> 'r multirecon \<Rightarrow> go_error option \<Rightarrow> bool" where
  "multi_Reconcile ok mr res \<longleftrightarrow>
     (\<exists>s. fan_reach ok (length (recons mr)) s \<and> closed s \<and> res = drain_errors (channel s))"

definition multi_Status ::
  "(nat \<Rightarrow> go_error + port_status \<Rightarrow> bool) \<Rightarrow> 'r multirecon \<Rightarrow> go_error + port_status \<Rightarrow> bool" where
  "multi_Status ok mr res \<longleftrightarrow>
     (\<exists>s. fan_reach ok (length (recons mr)) s \<and> closed s \<and>
        (case drain_status (channel s) [] of
           Inl e \<Rightarrow> res = Inl e
         | Inr status \<Rightarrow> \<exists>ord. merge_orders_ok status ord \<and> res = Inr (mergeReconStatus status ord)))"

section \<open>The protocol\<close>

fun sent :: "'r goroutine \<Rightarrow> 'r list" where
  "sent (Sent r) = [r]" | "sent (Finished r) = [r]" | "sent _ = []"

fun finished :: "'r goroutine \<Rightarrow> bool" where
  "finished (Finished r) = True" | "finished _ = False"

fun returned :: "'r goroutine \<Rightarrow> 'r option" where
  "returned Calling = None" | "returned (Sending r) = Some r" | "returned (Sent r) = Some r" | "returned (Finished r) = Some r"

definition fan_inv :: "(nat \<Rightarrow> 'r \<Rightarrow> bool) \<Rightarrow> nat \<Rightarrow> 'r fanout \<Rightarrow> bool" where
  "fan_inv ok n s \<longleftrightarrow>
     length (routines s) = n \<and> capacity s = n \<and>
     wg s = length (filter (\<lambda>g. \<not> finished g) (routines s)) \<and>
     mset (channel s) = mset (concat (map sent (routines s))) \<and>
     (\<forall>i<n. \<forall>r. returned (routines s ! i) = Some r \<longrightarrow> ok i r) \<and>
     (closed s \<longrightarrow> wg s = 0)"

lemma mset_concat_update:
  "i < length xs \<Longrightarrow> mset (concat (map f (xs[i := y]))) + mset (f (xs ! i)) = mset (concat (map f xs)) + mset (f y)"
  by (induction xs arbitrary: i) (auto split: nat.splits simp: nth_Cons)

lemma filter_update_length:
  "i < length xs \<Longrightarrow> length (filter P (xs[i := y])) + (if P (xs ! i) then 1 else 0) =
     length (filter P xs) + (if P y then 1 else 0)"
proof (induction xs arbitrary: i)
  case (Cons x xs)
  show ?case
  proof (cases i)
    case (Suc k)
    with Cons.prems have "k < length xs" by simp
    from Cons.IH [OF this] Suc show ?thesis by auto
  qed simp
qed simp

lemma fan_inv_step:
  assumes "fan_inv ok n s" and "fan_step ok s s'"
  shows "fan_inv ok n s'"
  using assms(2)
proof (cases rule: fan_step.cases)
  case (fan_return i r)
  then show ?thesis
    using assms(1) mset_concat_update [of i "routines s" sent "Sending r"]
      filter_update_length [of i "routines s" "\<lambda>g. \<not> finished g" "Sending r"]
    by (auto simp: fan_inv_def nth_list_update split: if_splits)
next
  case (fan_send i r)
  then show ?thesis
    using assms(1) mset_concat_update [of i "routines s" sent "Sent r"]
      filter_update_length [of i "routines s" "\<lambda>g. \<not> finished g" "Sent r"]
    by (auto simp: fan_inv_def nth_list_update split: if_splits)
next
  case (fan_done i r)
  then show ?thesis
    using assms(1) mset_concat_update [of i "routines s" sent "Finished r"]
      filter_update_length [of i "routines s" "\<lambda>g. \<not> finished g" "Finished r"]
    by (auto simp: fan_inv_def nth_list_update split: if_splits)
next
  case fan_close
  then show ?thesis using assms(1) by (simp add: fan_inv_def)
qed

lemma fan_inv_start: "fan_inv ok n (fan_start n)"
proof -
  have "filter (\<lambda>g. \<not> finished g) (replicate n Calling) = replicate n Calling" by (simp add: filter_id_conv)
  then show ?thesis by (simp add: fan_inv_def fan_start_def map_replicate_const)
qed

lemma fan_reach_inv: "fan_reach ok n s \<Longrightarrow> fan_inv ok n s"
  by (induction rule: fan_reach.induct) (auto intro: fan_inv_start fan_inv_step)

lemma all_finished: "length (filter (\<lambda>g. \<not> finished g) gs) = 0 \<Longrightarrow> i < length gs \<Longrightarrow> \<exists>r. gs ! i = Finished r"
proof -
  assume "length (filter (\<lambda>g. \<not> finished g) gs) = 0" and i: "i < length gs"
  then have "finished (gs ! i)" by (auto simp: filter_empty_conv)
  then show ?thesis by (cases "gs ! i") auto
qed

lemma concat_sent_finished: "\<forall>g\<in>set gs. finished g \<Longrightarrow> length (concat (map sent gs)) = length gs \<and>
    (\<forall>i<length gs. returned (gs ! i) = Some (concat (map sent gs) ! i))"
proof (induction gs)
  case (Cons g gs)
  then obtain r where "g = Finished r" by (cases g) auto
  with Cons show ?case by (auto simp: nth_Cons split: nat.split)
qed simp

lemma fan_inv_sent_length:
  assumes "fan_inv ok n s"
  shows "length (channel s) = length (concat (map sent (routines s)))"
  using assms by (metis fan_inv_def size_mset)

lemma sent_length: "length (concat (map sent gs)) + length (filter (\<lambda>g. sent g = []) gs) = length gs"
proof (induction gs)
  case (Cons g gs)
  then show ?case by (cases g) auto
qed simp

lemma fan_room:
  assumes "fan_inv ok n s" and "i < n" and "routines s ! i = Sending r"
  shows "length (channel s) < capacity s"
proof -
  have len: "length (routines s) = n" and cap: "capacity s = n" using assms(1) unfolding fan_inv_def by blast+
  have "routines s ! i \<in> set (routines s)" using assms(2) len by (metis nth_mem)
  then have "routines s ! i \<in> set (filter (\<lambda>g. sent g = []) (routines s))" using assms(3) by simp
  then have "0 < length (filter (\<lambda>g. sent g = []) (routines s))" by (metis length_pos_if_in_set)
  with sent_length [of "routines s"] fan_inv_sent_length [OF assms(1)] len cap show ?thesis by linarith
qed

text \<open>
  C22. The fan-out of \<open>Multi\<close> is safe, whatever the scheduling: no goroutine sends on the closed
  channel, no \<open>Done\<close> meets a zero counter, no send has to wait for room, and the channel is closed
  only after all members have returned; then it holds exactly one result of each member.
\<close>

theorem multi_fanout_safe:
  assumes "fan_reach ok n s"
  shows "\<not> fan_panics s \<and>
    (\<forall>i<n. \<forall>r. routines s ! i = Sending r \<longrightarrow> length (channel s) < capacity s) \<and>
    (closed s \<longrightarrow> (\<exists>rs. length rs = n \<and> (\<forall>i<n. ok i (rs ! i)) \<and> mset (channel s) = mset rs))"
proof (intro conjI)
  have inv: "fan_inv ok n s" by (rule fan_reach_inv [OF assms])
  then have len: "length (routines s) = n" and wg: "wg s = length (filter (\<lambda>g. \<not> finished g) (routines s))"
    and cl: "closed s \<longrightarrow> wg s = 0" and cap: "capacity s = n"
    unfolding fan_inv_def by blast+
  have zero: "\<exists>r. routines s ! i = Finished r" if "wg s = 0" "i < n" for i
    using all_finished [of "routines s" i] that wg len by simp
  show "\<not> fan_panics s"
    using zero cl len by (fastforce simp: fan_panics_def)
  show "\<forall>i<n. \<forall>r. routines s ! i = Sending r \<longrightarrow> length (channel s) < capacity s"
    using fan_room [OF inv] by blast
  show "closed s \<longrightarrow> (\<exists>rs. length rs = n \<and> (\<forall>i<n. ok i (rs ! i)) \<and> mset (channel s) = mset rs)"
  proof
    assume "closed s"
    with cl have "wg s = 0" by simp
    then have "\<forall>g\<in>set (routines s). finished g" using wg by (auto simp: filter_empty_conv)
    from concat_sent_finished [OF this] inv len
    show "\<exists>rs. length rs = n \<and> (\<forall>i<n. ok i (rs ! i)) \<and> mset (channel s) = mset rs"
      by (intro exI [of _ "concat (map sent (routines s))"]) (auto simp: fan_inv_def)
  qed
qed

text \<open>A closed run for two members whose second one returns first.\<close>

lemma fan_run_two:
  assumes "ok 0 a" and "ok 1 b"
  shows "fan_reach ok 2 \<lparr>routines = [Finished a, Finished b], wg = 0, channel = [b, a], capacity = 2, closed = True\<rparr>"
proof -
  define st where "st gs w c cl = \<lparr>routines = gs, wg = w, channel = c, capacity = 2, closed = cl\<rparr>"
    for gs :: "'a goroutine list" and w c cl
  have "fan_reach ok 2 (st [Calling, Calling] 2 [] False)"
    using fan_init [of ok 2] by (simp add: fan_start_def st_def numeral_2_eq_2)
  then have "fan_reach ok 2 (st [Calling, Sending b] 2 [] False)"
    using fan_step.fan_return [of 1 "st [Calling, Calling] 2 [] False" ok b] assms
    by (auto simp: st_def intro: fan_next)
  then have "fan_reach ok 2 (st [Calling, Sent b] 2 [b] False)"
    using fan_step.fan_send [of 1 "st [Calling, Sending b] 2 [] False" b ok]
    by (auto simp: st_def intro: fan_next)
  then have "fan_reach ok 2 (st [Sending a, Sent b] 2 [b] False)"
    using fan_step.fan_return [of 0 "st [Calling, Sent b] 2 [b] False" ok a] assms
    by (auto simp: st_def intro: fan_next)
  then have "fan_reach ok 2 (st [Sent a, Sent b] 2 [b, a] False)"
    using fan_step.fan_send [of 0 "st [Sending a, Sent b] 2 [b] False" a ok]
    by (auto simp: st_def intro: fan_next)
  then have "fan_reach ok 2 (st [Finished a, Sent b] 1 [b, a] False)"
    using fan_step.fan_done [of 0 "st [Sent a, Sent b] 2 [b, a] False" a ok]
    by (auto simp: st_def intro: fan_next)
  then have "fan_reach ok 2 (st [Finished a, Finished b] 0 [b, a] False)"
    using fan_step.fan_done [of 1 "st [Finished a, Sent b] 1 [b, a] False" b ok]
    by (auto simp: st_def intro: fan_next)
  then have "fan_reach ok 2 (st [Finished a, Finished b] 0 [b, a] True)"
    using fan_step.fan_close [of "st [Finished a, Finished b] 0 [b, a] False" ok]
    by (auto simp: st_def intro: fan_next)
  then show ?thesis by (simp add: st_def)
qed

theorem multi_fanout_safe_witness:
  "\<exists>s. fan_reach (\<lambda>i r. r = i) 2 s \<and> closed s \<and> \<not> fan_panics s \<and> channel s = [1, 0]"
proof -
  let ?s = "\<lparr>routines = [Finished 0, Finished 1], wg = 0, channel = [1, 0], capacity = 2, closed = True\<rparr>"
  have "fan_reach (\<lambda>i r. r = i) 2 ?s" by (rule fan_run_two) simp_all
  with multi_fanout_safe [OF this] show ?thesis by (intro exI [of _ ?s]) simp
qed

text \<open>Every step makes progress, so a run is finite.\<close>

fun goroutine_rest :: "'r goroutine \<Rightarrow> nat" where
  "goroutine_rest Calling = 3" | "goroutine_rest (Sending r) = 2" | "goroutine_rest (Sent r) = 1" | "goroutine_rest (Finished r) = 0"

definition fan_rest :: "'r fanout \<Rightarrow> nat" where
  "fan_rest s = sum_list (map goroutine_rest (routines s)) + (if closed s then 0 else 1)"

lemma rest_update:
  "i < length gs \<Longrightarrow> goroutine_rest y < goroutine_rest (gs ! i) \<Longrightarrow>
   sum_list (map goroutine_rest (gs[i := y])) < sum_list (map goroutine_rest gs)"
proof (induction gs arbitrary: i)
  case (Cons g gs)
  then show ?case by (cases i) auto
qed simp

text \<open>
  C23. The fan-out of \<open>Multi\<close> ends: every step lowers a measure of at most \<open>3 n + 1\<close>, and until
  the channel is closed some step is possible, provided that every member returns. There is no
  deadlock between the \<open>WaitGroup\<close>, the channel and the goroutines.
\<close>

theorem multi_fanout_terminates:
  assumes "fan_reach ok n s" and "\<forall>i<n. \<exists>r. ok i r"
  shows "fan_rest (fan_start n :: 'r fanout) = 3 * n + 1 \<and> (\<forall>s'. fan_step ok s s' \<longrightarrow> fan_rest s' < fan_rest s) \<and>
    (closed s \<or> (\<exists>s'. fan_step ok s s'))"
proof (intro conjI allI impI)
  show "fan_rest (fan_start n :: 'r fanout) = 3 * n + 1"
    by (simp add: fan_rest_def fan_start_def map_replicate_const sum_list_replicate)
  have inv: "fan_inv ok n s" by (rule fan_reach_inv [OF assms(1)])
  fix s' assume "fan_step ok s s'"
  then show "fan_rest s' < fan_rest s"
    by (cases rule: fan_step.cases) (use rest_update in \<open>fastforce simp: fan_rest_def\<close>)+
next
  have inv: "fan_inv ok n s" by (rule fan_reach_inv [OF assms(1)])
  show "closed s \<or> (\<exists>s'. fan_step ok s s')"
  proof (cases "closed s \<or> wg s = 0")
    case True
    then show ?thesis using fan_step.fan_close by blast
  next
    case False
    then obtain i where i: "i < n" "\<not> finished (routines s ! i)"
      using inv by (auto simp: fan_inv_def filter_empty_conv in_set_conv_nth)
    have len: "length (routines s) = n" using inv by (simp add: fan_inv_def)
    show ?thesis
    proof (cases "routines s ! i")
      case Calling
      then show ?thesis using assms(2) i(1) len fan_step.fan_return by metis
    next
      case (Sending r)
      moreover have "length (channel s) < capacity s"
        using fan_room [OF inv i(1)] Sending by blast
      ultimately show ?thesis using fan_step.fan_send [of i s r] i(1) len False by blast
    next
      case (Sent r)
      then show ?thesis using fan_step.fan_done [of i s r] i(1) len False by blast
    next
      case (Finished r)
      with i show ?thesis by simp
    qed
  qed
qed

theorem multi_fanout_terminates_witness:
  "fan_rest (fan_start 2 :: nat fanout) = 7 \<and> (\<exists>s'. fan_step (\<lambda>i r. r = i) (fan_start 2 :: nat fanout) s')"
proof -
  have "fan_reach (\<lambda>i r. r = i) 2 (fan_start 2 :: nat fanout)" by (rule fan_init)
  from multi_fanout_terminates [OF this] show ?thesis by (auto simp: fan_start_def)
qed

section \<open>The results\<close>

lemma closed_results:
  assumes "fan_reach ok n s" and "closed s"
  obtains rs where "length rs = n" and "\<forall>i<n. ok i (rs ! i)" and "mset (channel s) = mset rs"
proof -
  have inv: "fan_inv ok n s" by (rule fan_reach_inv [OF assms(1)])
  then have "\<forall>g\<in>set (routines s). finished g" and len: "length (routines s) = n"
    and ok: "\<forall>i<n. \<forall>r. returned (routines s ! i) = Some r \<longrightarrow> ok i r"
    and m: "mset (channel s) = mset (concat (map sent (routines s)))"
    using assms(2) by (auto simp: fan_inv_def filter_empty_conv)
  from concat_sent_finished [OF this(1)] ok m len show ?thesis
    by (intro that [of "concat (map sent (routines s))"]) auto
qed

lemma drain_check_ok:
  "drain_check rs c d = Inr (cr, de) \<longleftrightarrow>
     (\<forall>r\<in>set rs. \<exists>x y. r = Inr (x, y)) \<and>
     cr = c @ concat (map (\<lambda>r. case r of Inl e \<Rightarrow> [] | Inr (x, y) \<Rightarrow> x) rs) \<and>
     de = d @ concat (map (\<lambda>r. case r of Inl e \<Rightarrow> [] | Inr (x, y) \<Rightarrow> y) rs)"
  by (induction rs c d rule: drain_check.induct) auto

lemma drain_check_error: "drain_check rs c d = Inl e \<Longrightarrow> Inl e \<in> set rs"
  by (induction rs c d rule: drain_check.induct) auto

lemma drain_errors_none: "drain_errors rs = None \<longleftrightarrow> set rs \<subseteq> {None}"
  by (induction rs rule: drain_errors.induct) auto

lemma drain_errors_some: "drain_errors rs = Some e \<Longrightarrow> Some e \<in> set rs"
  by (induction rs rule: drain_errors.induct) auto

lemma mset_concat_map: "mset (concat (map f xs)) = \<Sum>\<^sub># (image_mset (\<lambda>x. mset (f x)) (mset xs))"
  by (induction xs) simp_all

text \<open>
  \<open>Reconcile\<close> of a Multi returns nil exactly when every member returned nil; otherwise it
  returns the error of one of them.
\<close>

theorem multi_Reconcile_result:
  assumes "multi_Reconcile ok mr res"
  shows "\<exists>rs. length rs = length (recons mr) \<and> (\<forall>i<length (recons mr). ok i (rs ! i)) \<and>
    (res = None \<longleftrightarrow> (\<forall>r\<in>set rs. r = None)) \<and> (\<forall>e. res = Some e \<longrightarrow> Some e \<in> set rs)"
proof -
  obtain s where s: "fan_reach ok (length (recons mr)) s" "closed s" and res: "res = drain_errors (channel s)"
    using assms by (auto simp: multi_Reconcile_def)
  obtain rs where rs: "length rs = length (recons mr)" "\<forall>i<length (recons mr). ok i (rs ! i)"
    and m: "mset (channel s) = mset rs"
    by (rule closed_results [OF s])
  have "set (channel s) = set rs" by (rule mset_eq_setD [OF m])
  then show ?thesis using rs res drain_errors_none [of "channel s"] drain_errors_some [of "channel s"]
    by (intro exI [of _ rs]) auto
qed

theorem multi_Reconcile_result_witness:
  "\<exists>rs. length rs = 2 \<and> Some ErrResourcesNotDestroyable \<in> set rs \<and>
     multi_Reconcile (\<lambda>i r. r = (if i = 0 then Some ErrResourcesNotDestroyable else None)) (Multi [(), ()])
       (Some ErrResourcesNotDestroyable)"
proof -
  let ?ok = "\<lambda>(i::nat) r. r = (if i = 0 then Some ErrResourcesNotDestroyable else None)"
  let ?s = "\<lparr>routines = [Finished (Some ErrResourcesNotDestroyable), Finished None], wg = 0,
     channel = [None, Some ErrResourcesNotDestroyable], capacity = 2, closed = True\<rparr>"
  have "fan_reach ?ok 2 ?s" by (rule fan_run_two) simp_all
  then have run: "multi_Reconcile ?ok (Multi [(), ()]) (Some ErrResourcesNotDestroyable)"
    unfolding multi_Reconcile_def
    by (intro exI [of _ ?s]) (simp add: Multi_def numeral_2_eq_2)
  from multi_Reconcile_result [OF this] obtain rs where "length rs = 2" "Some ErrResourcesNotDestroyable \<in> set rs"
    by (fastforce simp: Multi_def)
  with run show ?thesis by blast
qed

lemma multi_check_parts:
  assumes "multi_ReconcileCheck ok mr res"
  shows "\<exists>rs. length rs = length (recons mr) \<and> (\<forall>i<length (recons mr). ok i (rs ! i)) \<and>
    (case res of
       Inl e \<Rightarrow> Inl e \<in> set rs
     | Inr (cr, de) \<Rightarrow> \<exists>cs ds. rs = map Inr (zip cs ds) \<and> length cs = length rs \<and> length ds = length rs \<and>
         mset cr = mset (concat cs) \<and> mset de = mset (concat ds))"
proof -
  obtain s where s: "fan_reach ok (length (recons mr)) s" "closed s" and res: "res = drain_check (channel s) [] []"
    using assms by (auto simp: multi_ReconcileCheck_def)
  obtain rs where rs: "length rs = length (recons mr)" "\<forall>i<length (recons mr). ok i (rs ! i)"
    and m: "mset (channel s) = mset rs"
    by (rule closed_results [OF s])
  have eq: "set (channel s) = set rs" by (rule mset_eq_setD [OF m])
  show ?thesis
  proof (cases res)
    case (Inl e)
    have "Inl e \<in> set rs" using drain_check_error [of "channel s" "[]" "[]" e] res Inl eq by simp
    then show ?thesis using Inl rs by (intro exI [of _ rs]) simp
  next
    case (Inr p)
    obtain cr de where p: "p = (cr, de)" by fastforce
    let ?f = "\<lambda>r :: check_result. case r of Inl e \<Rightarrow> [] | Inr (x, y) \<Rightarrow> x"
    let ?g = "\<lambda>r :: check_result. case r of Inl e \<Rightarrow> [] | Inr (x, y) \<Rightarrow> y"
    have all: "\<forall>r\<in>set rs. \<exists>x y. r = Inr (x, y)" and cr: "cr = concat (map ?f (channel s))"
      and de: "de = concat (map ?g (channel s))"
      using res Inr p eq drain_check_ok [of "channel s" "[]" "[]" cr de] by auto
    have "rs = map Inr (zip (map ?f rs) (map ?g rs))"
      using all by (induction rs) auto
    moreover have "mset cr = mset (concat (map ?f rs))" "mset de = mset (concat (map ?g rs))"
      unfolding cr de mset_concat_map m by simp_all
    ultimately show ?thesis using Inr p rs by (intro exI [of _ rs]) fastforce
  qed
qed

text \<open>
  \<open>ReconcileCheck\<close> of a Multi returns lists exactly when all members do, and then every
  operation of every member once, nothing else; otherwise it returns the error of a member.
\<close>

theorem multi_ReconcileCheck_result:
  assumes "multi_ReconcileCheck ok mr res"
  shows "\<exists>rs. length rs = length (recons mr) \<and> (\<forall>i<length (recons mr). ok i (rs ! i)) \<and>
    (case res of
       Inl e \<Rightarrow> Inl e \<in> set rs
     | Inr (cr, de) \<Rightarrow> \<exists>cs ds. rs = map Inr (zip cs ds) \<and> length cs = length rs \<and> length ds = length rs \<and>
         mset cr = mset (concat cs) \<and> mset de = mset (concat ds))"
  by (rule multi_check_parts [OF assms])

theorem multi_ReconcileCheck_result_witness:
  "\<exists>cr. multi_ReconcileCheck (\<lambda>i r. r = (if i = 0 then Inr ([OLoadBalancer ''a''], []) else Inr ([OLoadBalancer ''b''], [])))
     (Multi [(), ()]) (Inr (cr, [])) \<and> mset cr = {#OLoadBalancer ''a'', OLoadBalancer ''b''#}"
proof -
  let ?a = "Inr ([OLoadBalancer ''a''], []) :: check_result" and ?b = "Inr ([OLoadBalancer ''b''], []) :: check_result"
  let ?ok = "\<lambda>(i::nat) r. r = (if i = 0 then ?a else ?b)"
  let ?s = "\<lparr>routines = [Finished ?a, Finished ?b], wg = 0, channel = [?b, ?a], capacity = 2, closed = True\<rparr>"
  have "fan_reach ?ok 2 ?s" by (rule fan_run_two) simp_all
  then have run: "multi_ReconcileCheck ?ok (Multi [(), ()]) (Inr ([OLoadBalancer ''b'', OLoadBalancer ''a''], []))"
    unfolding multi_ReconcileCheck_def by (intro exI [of _ ?s]) (simp add: Multi_def numeral_2_eq_2)
  from multi_ReconcileCheck_result [OF run] obtain rs cs ds where len: "length rs = 2"
    and rs: "\<forall>i<2. rs ! i = (if i = 0 then ?a else ?b)"
    and z: "rs = map Inr (zip cs ds)" "length cs = length rs" "length ds = length rs"
    and m: "mset [OLoadBalancer ''b'', OLoadBalancer ''a''] = mset (concat cs)"
    unfolding sum.case prod.case by (metis (no_types, lifting) Multi_def list.size(3,4) multirecon.select_convs(1) one_add_one plus_1_eq_Suc add.right_neutral add_Suc_right)
  have "Inr (cs ! i, ds ! i) = (if i = 0 then ?a else ?b)" if "i < 2" for i
  proof -
    have i: "i < length cs" "i < length ds" using that z(2,3) len by simp_all
    then have "rs ! i = Inr (cs ! i, ds ! i)" by (subst z(1)) simp
    with rs that show ?thesis by simp
  qed
  from this [of 0] this [of 1] have "cs = [[OLoadBalancer ''a''], [OLoadBalancer ''b'']]"
    using z(2) len by (intro nth_equalityI) (auto simp: less_Suc_eq numeral_2_eq_2)
  with m run show ?thesis by (intro exI conjI) auto
qed

section \<open>A contract single and multiple reconciliations share\<close>

text \<open>
  What the callers of the \<open>Reconciliation\<close> interface rely on: when \<open>ReconcileCheck\<close> has nothing to
  do, reconciliation is complete. \<open>checks s res\<close> says that a check that returned \<open>res\<close> ended
  in \<open>s\<close>.
\<close>

locale reconciliation_interface =
  fixes checks :: "'s \<Rightarrow> check_result \<Rightarrow> bool"
    and complete :: "'s \<Rightarrow> bool"
  assumes quiet_complete: "checks s (Inr ([], [])) \<Longrightarrow> complete s"
begin

text \<open>The members of a Multi after their checks, with what the Multi returns.\<close>

definition multi_checks :: "'s list \<Rightarrow> check_result \<Rightarrow> bool" where
  "multi_checks ss res \<longleftrightarrow> multi_ReconcileCheck (\<lambda>i r. checks (ss ! i) r) (Multi ss) res"

lemma multi_quiet_complete:
  assumes "multi_checks ss (Inr ([], []))"
  shows "list_all complete ss"
proof -
  note parts = multi_check_parts [OF assms [unfolded multi_checks_def], unfolded recons_Multi sum.case prod.case]
  from parts obtain rs cs ds where rs: "length rs = length ss" "\<forall>i<length ss. checks (ss ! i) (rs ! i)"
    and z: "rs = map Inr (zip cs ds)" "length cs = length rs" "length ds = length rs"
    and m: "mset [] = mset (concat cs)" "mset [] = mset (concat ds)" by blast
  from m have nil: "\<forall>c\<in>set cs. c = []" "\<forall>d\<in>set ds. d = []" by simp_all
  have "rs ! i = Inr ([], [])" if "i < length ss" for i
  proof -
    have i: "i < length cs" "i < length ds" using that z(2,3) rs(1) by simp_all
    then have "rs ! i = Inr (cs ! i, ds ! i)" by (subst z(1)) simp
    moreover have "cs ! i = []" "ds ! i = []" using nil i nth_mem by blast+
    ultimately show ?thesis by simp
  qed
  then show ?thesis using rs(2) quiet_complete by (auto simp: list_all_length)
qed

end

text \<open>A single reconciliation after a check, and a Multi of them, meet the contract.\<close>

definition checked :: "lib \<times> 'w st \<Rightarrow> check_result \<Rightarrow> bool" where
  "checked x res \<longleftrightarrow>
     lib_contract (fst x) \<and> frontends_complete (rcn (snd x)) \<and>
     (\<exists>A rngs s. (\<forall>k. ranges_ok (rcn s) (rngs k)) \<and> ReconcileCheck (fst x) A rngs s = (res, snd x))"

definition check_complete :: "lib \<times> 'w st \<Rightarrow> bool" where
  "check_complete x = reconciled (fst x) (rcn (snd x))"

interpretation single: reconciliation_interface "checked :: lib \<times> 'w st \<Rightarrow> check_result \<Rightarrow> bool" check_complete
  by unfold_locales
    (use quiet_check_reconciled in \<open>fastforce simp: checked_def check_complete_def\<close>)

interpretation multi: reconciliation_interface
    "reconciliation_interface.multi_checks (checked :: lib \<times> 'w st \<Rightarrow> check_result \<Rightarrow> bool)" "list_all check_complete"
  by unfold_locales (rule single.multi_quiet_complete)

text \<open>
  Reconciliation of a Multi is complete when its \<open>ReconcileCheck\<close> has nothing to do: then
  every member has reached its documented final result.
\<close>

theorem multi_done_all_reconciled:
  assumes "multi_ReconcileCheck (\<lambda>i r. checked (ss ! i) r) (Multi ss) (Inr ([], []))"
  shows "\<forall>x\<in>set ss. reconciled (fst x) (rcn (snd x))"
  using single.multi_quiet_complete [of ss] assms
  by (simp add: single.multi_checks_def check_complete_def list_all_iff)

theorem multi_done_all_reconciled_witness:
  "\<exists>ss :: (lib \<times> ref_world st) list. length ss = 2 \<and> (\<forall>x\<in>set ss. reconciled (fst x) (rcn (snd x)))"
proof -
  let ?x = "(ref_lib, snd (run_check http_ports wanted_world))"
  let ?nil = "Inr ([], []) :: check_result"
  have quiet: "fst (run_check http_ports wanted_world) = ?nil" by code_simp
  have "frontends_complete (rcn (snd (run_check http_ports wanted_world)))" by code_simp
  then have ok: "checked ?x ?nil"
    using ref_lib_contract ranges_const [OF http_distinct(1), of wanted_world] run_check_pair [OF quiet]
    unfolding checked_def fst_conv snd_conv by (intro conjI exI) assumption+
  let ?s = "\<lparr>routines = [Finished ?nil, Finished ?nil], wg = 0, channel = [?nil, ?nil], capacity = 2, closed = True\<rparr>"
  have "fan_reach (\<lambda>i r. checked ([?x, ?x] ! i) r) 2 ?s" by (rule fan_run_two) (simp_all only: nth_Cons_0 nth_Cons_Suc One_nat_def ok)
  then have "multi_ReconcileCheck (\<lambda>i r. checked ([?x, ?x] ! i) r) (Multi [?x, ?x]) ?nil"
    unfolding multi_ReconcileCheck_def by (intro exI [of _ ?s]) (simp add: numeral_2_eq_2)
  from multi_done_all_reconciled [OF this] show ?thesis by (intro exI [of _ "[?x, ?x]"]) simp
qed

section \<open>Merging the states\<close>

definition occurrences :: "string \<Rightarrow> 16 word \<Rightarrow> (string \<times> 16 word list) list \<Rightarrow> int" where
  "occurrences a p xs = (\<Sum>(b, ps)\<leftarrow>xs. if b = a then int (count_list ps p) else 0)"

definition counted :: "(string \<rightharpoonup> 16 word \<rightharpoonup> int) \<Rightarrow> string \<Rightarrow> 16 word \<Rightarrow> int" where
  "counted m a p = (case m a of None \<Rightarrow> 0 | Some c \<Rightarrow> (case c p of None \<Rightarrow> 0 | Some k \<Rightarrow> k))"

definition counts_positive :: "(string \<rightharpoonup> 16 word \<rightharpoonup> int) \<Rightarrow> bool" where
  "counts_positive m \<longleftrightarrow> (\<forall>a c p k. m a = Some c \<longrightarrow> c p = Some k \<longrightarrow> 0 < k)"

lemma count_ports_value:
  "(case count_ports ps m p of None \<Rightarrow> 0 | Some k \<Rightarrow> k) = (case m p of None \<Rightarrow> 0 | Some k \<Rightarrow> k) + int (count_list ps p)"
  by (induction ps arbitrary: m) (auto split: option.split)

lemma count_ports_positive: "\<forall>p k. m p = Some k \<longrightarrow> 0 < k \<Longrightarrow> \<forall>p k. count_ports ps m p = Some k \<longrightarrow> 0 < k"
proof (induction ps arbitrary: m)
  case (Cons q ps)
  have "0 < (case m q of None \<Rightarrow> 0 | Some c \<Rightarrow> c) + (1::int)"
    using Cons.prems [rule_format, of q] by (cases "m q") fastforce+
  then have "\<forall>p k. (m(q \<mapsto> (case m q of None \<Rightarrow> 0 | Some c \<Rightarrow> c) + 1)) p = Some k \<longrightarrow> 0 < k"
    using Cons.prems by simp
  from Cons.IH [OF this] show ?case unfolding count_ports.simps .
qed simp

lemma count_addresses_value:
  "counts_positive m \<Longrightarrow> counts_positive (count_addresses xs m) \<and>
   counted (count_addresses xs m) a p = counted m a p + occurrences a p xs"
proof (induction xs arbitrary: m)
  case (Cons x xs)
  obtain b ps where x: "x = (b, ps)" by fastforce
  let ?m' = "if m b = None then m(b \<mapsto> Map.empty) else m"
  define m2 where "m2 = ?m'(b \<mapsto> count_ports ps (the (?m' b)))"
  have "\<forall>p k. the (?m' b) p = Some k \<longrightarrow> 0 < k"
    using Cons.prems by (auto simp: counts_positive_def)
  from count_ports_positive [OF this] have pos: "counts_positive m2"
    using Cons.prems by (auto simp: counts_positive_def m2_def)
  have "counted m2 a p = counted m a p + (if b = a then int (count_list ps p) else 0)"
    using count_ports_value [of ps "the (?m' b)" p] by (auto simp: counted_def m2_def split: option.splits)
  moreover have "count_addresses (x # xs) m = count_addresses xs m2"
    by (simp add: x m2_def Let_def)
  ultimately show ?case using Cons.IH [OF pos] x by (simp add: occurrences_def)
qed (simp add: occurrences_def)

lemma count_status_value:
  "counts_positive m \<Longrightarrow> counts_positive (count_status xss m) \<and>
   counted (count_status xss m) a p = counted m a p + (\<Sum>xs\<leftarrow>xss. occurrences a p xs)"
proof (induction xss arbitrary: m)
  case (Cons xs xss)
  note c = count_addresses_value [OF Cons.prems, of xs a p]
  then show ?case using Cons.IH [OF c [THEN conjunct1]] by simp
qed simp

text \<open>The visited order of one status does not matter: only the lists of its map count.\<close>

lemma occurrences_range:
  assumes "range_of s xs"
  shows "occurrences a p xs = (case s a of None \<Rightarrow> 0 | Some ps \<Rightarrow> int (count_list ps p))"
proof -
  have "distinct (map fst xs) \<Longrightarrow>
      occurrences a p xs = (case map_of xs a of None \<Rightarrow> 0 | Some ps \<Rightarrow> int (count_list ps p))"
  proof (induction xs)
    case (Cons x xs)
    obtain b ps where "x = (b, ps)" by fastforce
    moreover have "map_of xs b = None" using Cons.prems calculation by (simp add: map_of_eq_None_iff)
    ultimately show ?case using Cons by (auto simp: occurrences_def)
  qed (simp add: occurrences_def)
  then show ?thesis using assms by (simp add: range_of_def)
qed

definition port_count :: "port_status list \<Rightarrow> string \<Rightarrow> 16 word \<Rightarrow> int" where
  "port_count status a p = (\<Sum>s\<leftarrow>status. case s a of None \<Rightarrow> 0 | Some ps \<Rightarrow> int (count_list ps p))"

lemma count_status_map:
  assumes "list_all2 range_of status xss"
  shows "counted (count_status xss Map.empty) a p = port_count status a p"
    and "counts_positive (count_status xss Map.empty)"
proof -
  have "(\<Sum>xs\<leftarrow>xss. occurrences a p xs) = port_count status a p"
    using assms by (induction rule: list_all2_induct) (simp_all add: port_count_def occurrences_range)
  moreover have "counts_positive Map.empty" by (simp add: counts_positive_def)
  ultimately show "counted (count_status xss Map.empty) a p = port_count status a p"
      "counts_positive (count_status xss Map.empty)"
    using count_status_value [of Map.empty xss a p] by (auto simp: counted_def)
qed

lemma max_count_ge: "mx \<le> max_count xs mx \<and> (\<forall>(p, c)\<in>set xs. c \<le> max_count xs mx)"
  by (induction xs mx rule: max_count.induct) (auto split: if_splits)

lemma max_count_in: "max_count xs mx = mx \<or> (\<exists>p. (p, max_count xs mx) \<in> set xs)"
  by (induction xs mx rule: max_count.induct) auto

lemma merge_loop_value:
  "distinct (map fst xs) \<Longrightarrow> merge_loop n inner xs ret a =
     (if a \<in> fst ` set xs \<and> max_count (inner a) 0 = n
      then Some (map fst (filter (\<lambda>(p, c). c = n) (inner a))) else ret a)"
proof (induction n inner xs ret rule: merge_loop.induct)
  case (2 n inner addr portCount xs ret)
  then show ?case by (auto simp: image_iff)
qed simp

text \<open>
  The exact meaning of \<open>mergeReconStatus\<close>, in any order of the maps: an address is kept when
  the largest number of occurrences of one of its ports, over all lists, is the number of states;
  the ports kept are those with that number of occurrences. Repetitions within one list count.
\<close>

lemma mergeReconStatus_counts:
  assumes "merge_orders_ok status ord" and "status \<noteq> []"
  shows "case mergeReconStatus status ord a of
      None \<Rightarrow> (\<forall>p. port_count status a p < int (length status)) \<or> (\<exists>p. int (length status) < port_count status a p)
    | Some ps \<Rightarrow> distinct ps \<and> ps \<noteq> [] \<and> set ps = {p. port_count status a p = int (length status)} \<and>
        (\<forall>p. port_count status a p \<le> int (length status))"
proof -
  let ?C = "count_status (status_orders ord) Map.empty" and ?n = "int (length status)"
  have st: "list_all2 range_of status (status_orders ord)" and co: "range_of ?C (count_order ord)"
    and po: "\<And>addr pc. (addr, pc) \<in> set (count_order ord) \<Longrightarrow> range_of pc (port_orders ord addr)"
    using assms(1) by (auto simp: merge_orders_ok_def)
  note cnt = count_status_map [OF st]
  have n: "0 < ?n" using assms(2) by simp
  have merged: "mergeReconStatus status ord a =
     (if a \<in> fst ` set (count_order ord) \<and> max_count (port_orders ord a) 0 = ?n
      then Some (map fst (filter (\<lambda>(p, c). c = ?n) (port_orders ord a))) else None)"
    using merge_loop_value [of "count_order ord" ?n "port_orders ord" Map.empty a] co
    by (simp add: mergeReconStatus_def range_of_def)
  show ?thesis
  proof (cases "?C a")
    case None
    then have "a \<notin> fst ` set (count_order ord)" using range_of_keys [OF co] by auto
    moreover have "port_count status a p = 0" for p using cnt(1) [of a p] None by (simp add: counted_def)
    ultimately show ?thesis using merged n by simp
  next
    case (Some pc)
    then have mem: "(a, pc) \<in> set (count_order ord)" using range_of_mem [OF co] by blast
    then have key: "a \<in> fst ` set (count_order ord)" by force
    let ?xs = "port_orders ord a"
    have xs: "(p, k) \<in> set ?xs \<longleftrightarrow> pc p = Some k" for p k using range_of_mem [OF po [OF mem]] .
    have pcnt: "port_count status a p = (case pc p of None \<Rightarrow> 0 | Some k \<Rightarrow> k)" for p
      using cnt(1) [of a p] Some by (simp add: counted_def)
    have in_xs: "(p, k) \<in> set ?xs \<longleftrightarrow> port_count status a p = k \<and> 0 < k" for p k
    proof -
      have "pc p = Some k \<Longrightarrow> 0 < k" for k using cnt(2) Some unfolding counts_positive_def by blast
      then show ?thesis unfolding xs pcnt by (cases "pc p") auto
    qed
    have set: "set (map fst (filter (\<lambda>(p, c). c = ?n) ?xs)) = {p. port_count status a p = ?n}"
      using in_xs n by force
    have dist: "distinct (map fst (filter (\<lambda>(p, c). c = ?n) ?xs))"
      using po [OF mem] by (auto simp: range_of_def intro: distinct_map_filter)
    have le: "port_count status a p \<le> max_count ?xs 0" for p
    proof (cases "0 < port_count status a p")
      case True
      then have "(p, port_count status a p) \<in> set ?xs" using in_xs by blast
      then show ?thesis using max_count_ge [of 0 ?xs] by auto
    next
      case False
      then show ?thesis using max_count_ge [of 0 ?xs] by simp
    qed
    show ?thesis
    proof (cases "max_count ?xs 0 = ?n")
      case True
      then obtain p where "(p, ?n) \<in> set ?xs" using max_count_in [of ?xs 0] n by auto
      then have "p \<in> set (map fst (filter (\<lambda>(p, c). c = ?n) ?xs))" unfolding set using in_xs by simp
      then have "map fst (filter (\<lambda>(p, c). c = ?n) ?xs) \<noteq> []" by (metis empty_iff empty_set)
      then show ?thesis using merged key True set dist le by simp
    next
      case False
      then have none: "mergeReconStatus status ord a = None" using merged by simp
      show ?thesis
      proof (cases "max_count ?xs 0 < ?n")
        case True
        then have "\<forall>p. port_count status a p < ?n" using le by (meson order.strict_trans1)
        then show ?thesis using none by simp
      next
        case gt: False
        with False have big: "?n < max_count ?xs 0" by simp
        then obtain p where "(p, max_count ?xs 0) \<in> set ?xs" using max_count_in [of ?xs 0] n by auto
        then have "?n < port_count status a p" using in_xs big by auto
        then show ?thesis using none by auto
      qed
    qed
  qed
qed

lemma count_list_distinct: "distinct xs \<Longrightarrow> count_list xs p = (if p \<in> set xs then 1 else 0)"
  by (induction xs) auto

lemma port_count_distinct:
  assumes "\<forall>s\<in>set status. \<forall>ps. s a = Some ps \<longrightarrow> distinct ps"
  shows "port_count status a p \<le> int (length status) \<and>
    (port_count status a p = int (length status) \<longleftrightarrow> (\<forall>s\<in>set status. \<exists>ps. s a = Some ps \<and> p \<in> set ps))"
  using assms
proof (induction status)
  case (Cons s status)
  have "(case s a of None \<Rightarrow> 0 | Some ps \<Rightarrow> int (count_list ps p)) =
      (if \<exists>ps. s a = Some ps \<and> p \<in> set ps then 1 else 0)"
    using Cons.prems by (auto simp: count_list_distinct split: option.split)
  with Cons show ?case by (auto simp: port_count_def)
qed (simp add: port_count_def)

text \<open>
  C30. The merged status, for states that list no port twice: an address is kept exactly when some
  port of it is in every state, with exactly the ports that are in every state, in any order of the
  maps. This is what the documentation of \<open>Multi\<close> promises.
\<close>

theorem mergeReconStatus_intersection:
  assumes "merge_orders_ok status ord" and "status \<noteq> []"
    and "\<forall>s\<in>set status. \<forall>a ps. s a = Some ps \<longrightarrow> distinct ps"
  shows "case mergeReconStatus status ord a of
      None \<Rightarrow> \<not> (\<exists>p. \<forall>s\<in>set status. \<exists>ps. s a = Some ps \<and> p \<in> set ps)
    | Some ps \<Rightarrow> distinct ps \<and> ps \<noteq> [] \<and> set ps = {p. \<forall>s\<in>set status. \<exists>qs. s a = Some qs \<and> p \<in> set qs}"
proof -
  have cnt: "port_count status a p \<le> int (length status)"
      "port_count status a p = int (length status) \<longleftrightarrow> (\<forall>s\<in>set status. \<exists>ps. s a = Some ps \<and> p \<in> set ps)" for p
    using port_count_distinct [of status a p] assms(3) by blast+
  show ?thesis
  proof (cases "mergeReconStatus status ord a")
    case None
    then have "\<not> (\<exists>p. port_count status a p = int (length status))"
      using mergeReconStatus_counts [OF assms(1,2), of a] cnt(1) by (simp, metis less_irrefl not_less)
    then show ?thesis using None cnt(2) by simp
  next
    case (Some ps)
    then show ?thesis using mergeReconStatus_counts [OF assms(1,2), of a] cnt(2) by simp
  qed
qed

definition sample_orders :: merge_orders where
  "sample_orders =
     \<lparr>status_orders = [[(''8.8.8.8'', [80, 443])], [(''8.8.8.8'', [443]), (''9.9.9.9'', [53])]],
      count_order = [(''9.9.9.9'', [53 \<mapsto> 1]), (''8.8.8.8'', [80 \<mapsto> 1, 443 \<mapsto> 2])],
      port_orders = (\<lambda>a. if a = ''8.8.8.8'' then [(443, 2), (80, 1)] else [(53, 1)])\<rparr>"

lemma sample_orders_ok: "merge_orders_ok [[''8.8.8.8'' \<mapsto> [80, 443]], [''8.8.8.8'' \<mapsto> [443], ''9.9.9.9'' \<mapsto> [53]]] sample_orders"
  by (auto simp: merge_orders_ok_def sample_orders_def range_of_def fun_eq_iff)

theorem mergeReconStatus_intersection_witness:
  "\<exists>ps. mergeReconStatus [[''8.8.8.8'' \<mapsto> [80, 443]], [''8.8.8.8'' \<mapsto> [443], ''9.9.9.9'' \<mapsto> [53]]] sample_orders ''8.8.8.8'' = Some ps \<and>
     set ps = {443}"
proof -
  let ?st = "[[''8.8.8.8'' \<mapsto> [80, 443]], [''8.8.8.8'' \<mapsto> [443], ''9.9.9.9'' \<mapsto> [53]]] :: port_status list"
  have "mergeReconStatus ?st sample_orders ''8.8.8.8'' = Some [443]"
    by (simp add: mergeReconStatus_def sample_orders_def)
  moreover have "\<forall>s\<in>set ?st. \<forall>a ps. s a = Some ps \<longrightarrow> distinct ps" by (auto split: if_splits)
  ultimately show ?thesis
    using mergeReconStatus_intersection [OF sample_orders_ok, of "''8.8.8.8''"] by auto
qed

definition doubled_orders :: "16 word \<Rightarrow> int \<Rightarrow> (string \<times> 16 word list) list list \<Rightarrow> merge_orders" where
  "doubled_orders p k xss =
     \<lparr>status_orders = xss, count_order = [(''8.8.8.8'', [p \<mapsto> k])], port_orders = (\<lambda>a. [(p, k)])\<rparr>"

text \<open>
  Repeated ports are counted per occurrence, not per state: a port the one member lists twice
  (two binds at the same address and port) and the other not at all is reported as configured
  everywhere, and a port both members list twice is dropped with its address. \<open>Status\<close> of a
  single reconciliation does list such a port twice.
\<close>

theorem mergeReconStatus_duplicates:
  "(\<exists>ord. merge_orders_ok [[''8.8.8.8'' \<mapsto> [80, 80]], Map.empty] ord \<and>
      mergeReconStatus [[''8.8.8.8'' \<mapsto> [80, 80]], Map.empty] ord ''8.8.8.8'' = Some [80]) \<and>
   (\<exists>ord. merge_orders_ok [[''8.8.8.8'' \<mapsto> [80, 80]], [''8.8.8.8'' \<mapsto> [80, 80]]] ord \<and>
      mergeReconStatus [[''8.8.8.8'' \<mapsto> [80, 80]], [''8.8.8.8'' \<mapsto> [80, 80]]] ord ''8.8.8.8'' = None) \<and>
   status_loop [wanted_bind, wanted_bind\<lparr>bi_id := ''i2''\<rparr>] Map.empty = [''8.8.8.8'' \<mapsto> [80, 80]]"
proof (intro conjI)
  show "\<exists>ord. merge_orders_ok [[''8.8.8.8'' \<mapsto> [80, 80]], Map.empty] ord \<and>
      mergeReconStatus [[''8.8.8.8'' \<mapsto> [80, 80]], Map.empty] ord ''8.8.8.8'' = Some [80]"
    by (intro exI [of _ "doubled_orders 80 2 [[(''8.8.8.8'', [80, 80])], []]"])
       (simp add: merge_orders_ok_def doubled_orders_def range_of_def mergeReconStatus_def fun_eq_iff)
  show "\<exists>ord. merge_orders_ok [[''8.8.8.8'' \<mapsto> [80, 80]], [''8.8.8.8'' \<mapsto> [80, 80]]] ord \<and>
      mergeReconStatus [[''8.8.8.8'' \<mapsto> [80, 80]], [''8.8.8.8'' \<mapsto> [80, 80]]] ord ''8.8.8.8'' = None"
    by (intro exI [of _ "doubled_orders 80 4 [[(''8.8.8.8'', [80, 80])], [(''8.8.8.8'', [80, 80])]]"])
       (simp add: merge_orders_ok_def doubled_orders_def range_of_def mergeReconStatus_def fun_eq_iff)
  show "status_loop [wanted_bind, wanted_bind\<lparr>bi_id := ''i2''\<rparr>] Map.empty = [''8.8.8.8'' \<mapsto> [80, 80]]"
    by (simp add: wanted_bind_def fun_eq_iff)
qed

end
