(* ===== verification/LoadBalancer.thy ===== *)
theory LoadBalancer
  imports Address Discovery Config MultiRecon DestroyProps
begin

text \<open>
  The LoadBalancer manager (\<open>loadbalancer/loadbalancer.go\<close>): its construction from the
  configuration, \<open>GetLoadBalancer\<close>, \<open>EnsureLoadBalancer\<close>, \<open>EnsureLoadBalancerDeleted\<close>,
  the collision check and the translation of the status. Loggers and contexts are left out.

  The manager's fields that never change after \<open>New\<close> are the record \<open>mgr\<close>, with the clients as
  parameters. The world, the address manager behind its pointer and the metrics are the state. What
  Go leaves open (the order of map ranges, the clock) is the record \<open>choices\<close>. The goroutines of the
  Multi are run one after the other here; that this is one of the runs of the protocol of
  \<open>MultiRecon\<close> is a lemma. The mutex of the manager is modelled with the other locks.
\<close>

section \<open>State and errors\<close>

record 'w mgr =
  m_lib :: lib
  m_api :: "'w api"
  m_ipam :: "'w ipam"                            \<comment> \<open>\<open>legacyClient\<close>\<close>
  m_backoff :: "'w backoff"
  m_clusterName :: string
  m_k8s :: "'w service_lister option"
  m_loadBalancers :: "string list"
  m_backoffSteps :: int

record 'w mgr_state =
  ms_world :: 'w
  ms_addressManager :: "amgr option"              \<comment> \<open>\<open>None\<close>: nil\<close>
  ms_metrics :: recon_metrics

record choices =
  ch_now :: "nat \<Rightarrow> int \<times> int"                  \<comment> \<open>clock of the address manager\<close>
  ch_retry :: int                                 \<comment> \<open>clock of \<open>handleRateLimitError\<close>\<close>
  ch_ports :: "nat \<Rightarrow> nat \<Rightarrow> nat \<Rightarrow> port_range"   \<comment> \<open>member, round, step\<close>
  ch_merge :: "port_status list \<Rightarrow> merge_orders"
  ch_first :: "port_status \<Rightarrow> (string \<times> 16 word list) list"
  ch_second :: "port_status \<Rightarrow> (string \<times> 16 word list) list"

definition ErrNoLoadBalancers :: go_error where
  "ErrNoLoadBalancers = Sentinel ''no LoadBalancers configured or found via AutoDiscovery''"
definition ErrPortNameNotUnique :: go_error where
  "ErrPortNameNotUnique = Sentinel ''port name not unique''"
definition ErrNoUsableNodeAddress :: go_error where
  "ErrNoUsableNodeAddress = Sentinel ''node lacks usable address''"
definition ErrSingleVIPConflict :: go_error where
  "ErrSingleVIPConflict = Sentinel ''only a single LoadBalancer can be used in Anexia Kubernetes Service beta, but found another service using the external IP already''"
definition AKEAnnotationHostname :: string where
  "AKEAnnotationHostname = ''lbaas.anx.io/load-balancer-proxy-pass-hostname''"

text \<open>A rate limit anywhere in the chain becomes a request to retry after the rest of its time.\<close>

definition handleRateLimitError :: "int \<Rightarrow> go_error \<Rightarrow> go_error" where
  "handleRateLimitError now err =
     (case as_rate_limit err of
        Some retryAfter \<Rightarrow> RetryError ''rate limiting by engine'' (retryAfter - now)
      | None \<Rightarrow> err)"

section \<open>Construction\<close>

text \<open>
  \<open>New\<close>: the clients and the configuration give the manager and its address manager. Without
  prefixes and without auto-discovery the address manager stays nil.
\<close>

definition configureLoadBalancers :: "config \<Rightarrow> 'w mgr \<Rightarrow> 'w \<Rightarrow> (go_error + 'w mgr) \<times> 'w" where
  "configureLoadBalancers config m w =
     (let (found, w1) =
            (if cf_AutoDiscoverLoadBalancer config
             then DiscoverLoadBalancers (m_api m) (cf_AutoDiscoveryTagPrefix config @ ''-'' @ m_clusterName m) w
             else (Inr [cf_LoadBalancerIdentifier config], w)) in
      case found of
        Inl e \<Rightarrow> (Inl e, w1)
      | Inr lbs \<Rightarrow> (if length lbs = 0 then Inl ErrNoLoadBalancers else Inr (m\<lparr>m_loadBalancers := lbs\<rparr>), w1))"

definition configurePrefixes :: "config \<Rightarrow> 'w mgr \<Rightarrow> 'w \<Rightarrow> (go_error + amgr option) \<times> 'w" where
  "configurePrefixes config m w =
     (if length (cf_LoadBalancerPrefixIdentifiers config) > 0 then
        (case NewWithPrefixes (m_api m) (m_ipam m) (cf_LoadBalancerPrefixIdentifiers config) w of
           (Inl e, w1) \<Rightarrow> (Inl e, w1)
         | (Inr am, w1) \<Rightarrow> (Inr (Some am), w1))
      else if cf_AutoDiscoverLoadBalancer config then (Inr (Some (NewWithAutoDiscovery (m_clusterName m))), w)
      else (Inr None, w))"

definition lb_New ::
  "config \<Rightarrow> lib \<Rightarrow> 'w backoff \<Rightarrow> 'w service_lister option \<Rightarrow> 'w api \<Rightarrow> 'w ipam \<Rightarrow> 'w \<Rightarrow>
   (go_error + 'w mgr \<times> amgr option) \<times> 'w" where
  "lb_New config L B k8sClient apiClient legacyClient w =
     (let m = \<lparr>m_lib = L, m_api = apiClient, m_ipam = legacyClient, m_backoff = B,
               m_clusterName = cf_ClusterName config, m_k8s = k8sClient, m_loadBalancers = [],
               m_backoffSteps = cf_LoadBalancerBackoffSteps config\<rparr> in
      case configureLoadBalancers config m w of
        (Inl e, w1) \<Rightarrow> (Inl (wrap_error ''error configuring LoadBalancers'' e), w1)
      | (Inr m1, w1) \<Rightarrow>
          (case configurePrefixes config m1 w1 of
             (Inl e, w2) \<Rightarrow> (Inl (wrap_error ''error configuring LoadBalancer Prefixes'' e), w2)
           | (Inr am, w2) \<Rightarrow> (Inr (m1, am), w2)))"

section \<open>Names and node addresses\<close>

text \<open>\<open>prepare\<close>, without the logger: the cluster name given by Kubernetes is not used.\<close>

definition prepare :: "'w mgr \<Rightarrow> string \<Rightarrow> service \<Rightarrow> string" where
  "prepare m clusterName svc = m_clusterName m"

definition GetLoadBalancerName :: "'w mgr \<Rightarrow> string \<Rightarrow> service \<Rightarrow> string" where
  "GetLoadBalancerName m clusterName svc =
     (let clusterName = prepare m clusterName svc
      in join_with ''.'' [svc_name svc, svc_namespace svc, clusterName])"

text \<open>The loop of \<open>getNodeEndpointAddress\<close>: the last internal and external address.\<close>

fun endpoint_loop :: "(string \<times> string) list \<Rightarrow> ip \<Rightarrow> ip \<Rightarrow> ip \<times> ip" where
  "endpoint_loop [] internalIP externalIP = (internalIP, externalIP)"
| "endpoint_loop ((ty, a) # addrs) internalIP externalIP =
     (let ip = parseIP a in
      if isUnspecified ip then endpoint_loop addrs internalIP externalIP
      else if ty = NodeInternalIP then endpoint_loop addrs ip externalIP
      else if ty = NodeExternalIP then endpoint_loop addrs internalIP ip
      else endpoint_loop addrs internalIP externalIP)"

definition getNodeEndpointAddress :: "node \<Rightarrow> go_error + ip" where
  "getNodeEndpointAddress n =
     (case endpoint_loop (node_addresses n) [] [] of (internalIP, externalIP) \<Rightarrow>
        if length externalIP \<noteq> 0 then Inr externalIP
        else if length internalIP \<noteq> 0 then Inr internalIP
        else Inl ErrNoUsableNodeAddress)"

section \<open>The reconciliation of a service\<close>

fun ports_loop :: "service_port list \<Rightarrow> (string \<rightharpoonup> port) \<Rightarrow> go_error + (string \<rightharpoonup> port)" where
  "ports_loop [] pts = Inr pts"
| "ports_loop (p # ps) pts =
     (if pts (sp_name p) \<noteq> None then Inl ErrPortNameNotUnique
      else ports_loop ps (pts(sp_name p \<mapsto> \<lparr>external = ucast (sp_port p), internal = ucast (sp_nodePort p)\<rparr>)))"

fun servers_loop :: "node list \<Rightarrow> server_spec list \<Rightarrow> go_error + server_spec list" where
  "servers_loop [] svs = Inr svs"
| "servers_loop (n # ns) svs =
     (case getNodeEndpointAddress n of
        Inl e \<Rightarrow> Inl (wrap_error ''error retrieving node endpoint address for node'' e)
      | Inr addr \<Rightarrow> servers_loop ns (svs @ [\<lparr>sv_name = node_name n, sv_address = addr\<rparr>]))"

fun ingress_loop :: "ip \<Rightarrow> ingress list \<Rightarrow> go_error option" where
  "ingress_loop ip [] = None"
| "ingress_loop ip (ing # ings) =
     (if ip_equal (parseIP (ing_ip ing)) ip then Some ErrSingleVIPConflict else ingress_loop ip ings)"

fun collision_loop :: "ip \<Rightarrow> service \<Rightarrow> service list \<Rightarrow> go_error option" where
  "collision_loop ip svc [] = None"
| "collision_loop ip svc (s # ss) =
     (if svc_namespace s = svc_namespace svc \<and> svc_name s = svc_name svc then collision_loop ip svc ss
      else if svc_type s \<noteq> ServiceTypeLoadBalancer then collision_loop ip svc ss
      else (case ingress_loop ip (svc_ingress s) of
              Some e \<Rightarrow> Some e
            | None \<Rightarrow> collision_loop ip svc ss))"

definition checkIPCollision :: "'w mgr \<Rightarrow> ip \<Rightarrow> service \<Rightarrow> 'w \<Rightarrow> go_error option \<times> 'w" where
  "checkIPCollision m ip svc w =
     (case m_k8s m of
        None \<Rightarrow> (None, w)
      | Some list \<Rightarrow>
          (case list w of
             (Inl e, w1) \<Rightarrow> (Some (wrap_error ''error listing services to check if the VIP is already in use'' e), w1)
           | (Inr svcs, w1) \<Rightarrow> (collision_loop ip svc svcs, w1)))"

fun external_loop :: "'w mgr \<Rightarrow> service \<Rightarrow> string list \<Rightarrow> ip list \<Rightarrow> 'w \<Rightarrow> (go_error + ip list) \<times> 'w" where
  "external_loop m svc [] acc w = (Inr acc, w)"
| "external_loop m svc (a # as) acc w =
     (let ip = parseIP a in
      if isUnspecified ip then external_loop m svc as acc w
      else (case checkIPCollision m ip svc w of
              (Some e, w1) \<Rightarrow> (Inl e, w1)
            | (None, w1) \<Rightarrow> external_loop m svc as (acc @ [ip]) w1))"

fun members_loop ::
  "'w mgr \<Rightarrow> string \<Rightarrow> service \<Rightarrow> ip list \<Rightarrow> (string \<rightharpoonup> port) \<Rightarrow> server_spec list \<Rightarrow> string list \<Rightarrow>
   recon multirecon \<Rightarrow> 'w \<Rightarrow> (go_error + recon multirecon) \<times> 'w" where
  "members_loop m clusterName svc eas pts svs [] mrecon w = (Inr mrecon, w)"
| "members_loop m clusterName svc eas pts svs (lb # lbs) mrecon w =
     (case recon_New (m_api m) (GetLoadBalancerName m clusterName svc) lb (svc_uid svc) eas pts svs
             (m_backoffSteps m) w of
        (Inl e, w1) \<Rightarrow> (Inl e, w1)
      | (Inr r, w1) \<Rightarrow> members_loop m clusterName svc eas pts svs lbs (multi_Add r mrecon) w1)"

text \<open>What the service wants: ports, servers and external addresses; nothing when it is being deleted.\<close>

definition wanted_for ::
  "'w mgr \<Rightarrow> choices \<Rightarrow> service \<Rightarrow> node list \<Rightarrow> 'w mgr_state \<Rightarrow>
   (go_error + (string \<rightharpoonup> port) \<times> server_spec list \<times> ip list) \<times> 'w mgr_state" where
  "wanted_for m ch svc nodes s =
     (if \<not> svc_deletion svc then
        (case ports_loop (svc_ports svc) Map.empty of
           Inl e \<Rightarrow> (Inl e, s)
         | Inr pts \<Rightarrow>
             (case servers_loop nodes [] of
                Inl e \<Rightarrow> (Inl e, s)
              | Inr svs \<Rightarrow>
                  (case ms_addressManager s of
                     None \<Rightarrow> (Inl (Panic ''nil pointer dereference: m.addressManager''), s)
                   | Some am \<Rightarrow>
                       (case AllocateAddresses (m_api m) (m_ipam m) (ch_now ch) svc am (ms_world s) of
                          (Inl e, am1, w1) \<Rightarrow> (Inl e, s\<lparr>ms_world := w1, ms_addressManager := Some am1\<rparr>)
                        | (Inr ea, am1, w1) \<Rightarrow>
                            (case external_loop m svc ea [] w1 of
                               (Inl e, w2) \<Rightarrow> (Inl e, s\<lparr>ms_world := w2, ms_addressManager := Some am1\<rparr>)
                             | (Inr eas, w2) \<Rightarrow>
                                 (Inr (pts, svs, eas), s\<lparr>ms_world := w2, ms_addressManager := Some am1\<rparr>))))))
      else (Inr (Map.empty, [], []), s))"

definition reconciliationForService ::
  "'w mgr \<Rightarrow> choices \<Rightarrow> string \<Rightarrow> service \<Rightarrow> node list \<Rightarrow> 'w mgr_state \<Rightarrow>
   (go_error + recon multirecon \<times> ip list) \<times> 'w mgr_state" where
  "reconciliationForService m ch clusterName svc nodes s =
     (case wanted_for m ch svc nodes s of
        (Inl e, s1) \<Rightarrow> (Inl e, s1)
      | (Inr (pts, svs, eas), s1) \<Rightarrow>
          (case members_loop m clusterName svc eas pts svs (m_loadBalancers m) (Multi []) (ms_world s1) of
             (Inl e, w2) \<Rightarrow> (Inl e, s1\<lparr>ms_world := w2\<rparr>)
           | (Inr mrecon, w2) \<Rightarrow> (Inr (mrecon, eas), s1\<lparr>ms_world := w2\<rparr>)))"

section \<open>Running the members\<close>

text \<open>
  The methods of the Multi with the goroutines run one after the other and their results put into
  the channel in that order. A panic ends the process: nothing after it runs, and it is the outcome.
\<close>

definition is_panic :: "go_error \<Rightarrow> bool" where
  "is_panic e \<longleftrightarrow> (case e of Panic p \<Rightarrow> True | _ \<Rightarrow> False)"

record ('r, 'w) members_run =
  mr_results :: "'r list"
  mr_recons :: "recon list"
  mr_world :: 'w
  mr_metrics :: recon_metrics

fun reconcile_members ::
  "'w mgr \<Rightarrow> (nat \<Rightarrow> nat \<Rightarrow> nat \<Rightarrow> port_range) \<Rightarrow> nat \<Rightarrow> recon list \<Rightarrow> 'w \<Rightarrow> recon_metrics \<Rightarrow>
   (go_error + (go_error option, 'w) members_run) option" where
  "reconcile_members m rngs i [] w mt = Some (Inr \<lparr>mr_results = [], mr_recons = [], mr_world = w, mr_metrics = mt\<rparr>)"
| "reconcile_members m rngs i (r # rs) w mt =
     (case Reconcile (m_lib m) (m_api m) (m_backoff m) (rngs i) \<lparr>world = w, rcn = r, met = mt\<rparr> of
        None \<Rightarrow> None
      | Some (err, s1) \<Rightarrow>
          if err \<noteq> None \<and> is_panic (the err) then Some (Inl (the err))
          else
            (case reconcile_members m rngs (Suc i) rs (world s1) (met s1) of
               None \<Rightarrow> None
             | Some (Inl p) \<Rightarrow> Some (Inl p)
             | Some (Inr run) \<Rightarrow>
                 Some (Inr (run\<lparr>mr_results := err # mr_results run, mr_recons := rcn s1 # mr_recons run\<rparr>))))"

fun status_members ::
  "'w mgr \<Rightarrow> recon list \<Rightarrow> 'w \<Rightarrow> recon_metrics \<Rightarrow> go_error + (go_error + port_status, 'w) members_run" where
  "status_members m [] w mt = Inr \<lparr>mr_results = [], mr_recons = [], mr_world = w, mr_metrics = mt\<rparr>"
| "status_members m (r # rs) w mt =
     (case recon_Status (m_lib m) (m_api m) \<lparr>world = w, rcn = r, met = mt\<rparr> of
        (res, s1) \<Rightarrow>
          (case res of
             Inl (Panic p) \<Rightarrow> Inl (Panic p)
           | _ \<Rightarrow>
               (case status_members m rs (world s1) (met s1) of
                  Inl p \<Rightarrow> Inl p
                | Inr run \<Rightarrow>
                    Inr (run\<lparr>mr_results := res # mr_results run, mr_recons := rcn s1 # mr_recons run\<rparr>))))"

definition run_Reconcile ::
  "'w mgr \<Rightarrow> choices \<Rightarrow> recon multirecon \<Rightarrow> 'w mgr_state \<Rightarrow>
   (go_error option \<times> recon multirecon \<times> 'w mgr_state) option" where
  "run_Reconcile m ch mrecon s =
     (case reconcile_members m (ch_ports ch) 0 (recons mrecon) (ms_world s) (ms_metrics s) of
        None \<Rightarrow> None
      | Some (Inl p) \<Rightarrow> Some (Some p, mrecon, s)
      | Some (Inr run) \<Rightarrow>
          Some (drain_errors (mr_results run), Multi (mr_recons run),
                s\<lparr>ms_world := mr_world run, ms_metrics := mr_metrics run\<rparr>))"

definition run_Status ::
  "'w mgr \<Rightarrow> choices \<Rightarrow> recon multirecon \<Rightarrow> 'w mgr_state \<Rightarrow> (go_error + port_status) \<times> 'w mgr_state" where
  "run_Status m ch mrecon s =
     (case status_members m (recons mrecon) (ms_world s) (ms_metrics s) of
        Inl p \<Rightarrow> (Inl p, s)
      | Inr run \<Rightarrow>
          ((case drain_status (mr_results run) [] of
              Inl e \<Rightarrow> Inl e
            | Inr sts \<Rightarrow> Inr (mergeReconStatus sts (ch_merge ch sts))),
           s\<lparr>ms_world := mr_world run, ms_metrics := mr_metrics run\<rparr>))"

section \<open>The status of a service\<close>

text \<open>\<open>strings.ToLower\<close> on ASCII; the annotation is a host name.\<close>

definition to_lower :: "string \<Rightarrow> string" where
  "to_lower s = map (\<lambda>c. let n = (of_char c :: nat) in if 65 \<le> n \<and> n \<le> 90 then char_of (n + 32) else c) s"

fun port_numbers_loop :: "(string \<times> 16 word list) list \<Rightarrow> 32 word list \<Rightarrow> 32 word list" where
  "port_numbers_loop [] nums = nums"
| "port_numbers_loop ((a, ps) # rest) nums = port_numbers_loop rest (nums @ map ucast ps)"

text \<open>\<open>slices.Sort\<close> orders \<open>int32\<close> values as signed numbers.\<close>

definition sort_int32 :: "32 word list \<Rightarrow> 32 word list" where
  "sort_int32 xs = sort_key sint xs"

fun port_status_loop :: "32 word list \<Rightarrow> portStatus list \<Rightarrow> portStatus list" where
  "port_status_loop [] pts = pts"
| "port_status_loop (p # ps) pts =
     (if p = 0 then port_status_loop ps pts
      else port_status_loop ps (pts @ [\<lparr>ps_port = p, ps_protocol = ProtocolTCP\<rparr>]))"

fun ingresses_loop :: "portStatus list \<Rightarrow> (string \<times> 16 word list) list \<Rightarrow> ingress list \<Rightarrow> ingress list" where
  "ingresses_loop pts [] ings = ings"
| "ingresses_loop pts ((externalIP, x) # rest) ings =
     ingresses_loop pts rest (ings @ [\<lparr>ing_ip = externalIP, ing_hostname = [], ing_ports = pts\<rparr>])"

text \<open>\<open>first\<close> and \<open>second\<close> are the orders of the two ranges over the map.\<close>

definition lbStatusFromReconcileStatus ::
  "(string \<times> 16 word list) list \<Rightarrow> (string \<times> 16 word list) list \<Rightarrow> service \<Rightarrow> ingress list" where
  "lbStatusFromReconcileStatus first second svc =
     (let portNumbers = compact (sort_int32 (port_numbers_loop first []));
          pts = port_status_loop portNumbers [];
          hostname = to_lower (case svc_annotations svc AKEAnnotationHostname of None \<Rightarrow> [] | Some h \<Rightarrow> h)
      in if hostname \<noteq> [] then [\<lparr>ing_ip = [], ing_hostname = hostname, ing_ports = pts\<rparr>]
         else ingresses_loop pts second [])"

definition reconciliationStatus ::
  "'w mgr \<Rightarrow> choices \<Rightarrow> recon multirecon \<Rightarrow> service \<Rightarrow> 'w mgr_state \<Rightarrow> (go_error + ingress list) \<times> 'w mgr_state" where
  "reconciliationStatus m ch mrecon svc s =
     (case run_Status m ch mrecon s of
        (Inl e, s1) \<Rightarrow> (Inl e, s1)
      | (Inr st, s1) \<Rightarrow> (Inr (lbStatusFromReconcileStatus (ch_first ch st) (ch_second ch st) svc), s1))"

section \<open>The interface of \<open>cloudprovider.LoadBalancer\<close>\<close>

fun port_found :: "16 word list \<Rightarrow> 32 word \<Rightarrow> bool" where
  "port_found [] p = False"
| "port_found (c # cs) p = (if ucast c = p then True else port_found cs p)"

fun ports_found :: "16 word list \<Rightarrow> service_port list \<Rightarrow> bool" where
  "ports_found cs [] = True"
| "ports_found cs (p # ps) = (if \<not> port_found cs (sp_port p) then False else ports_found cs ps)"

fun created_loop :: "port_status \<Rightarrow> service \<Rightarrow> ip list \<Rightarrow> bool \<Rightarrow> bool" where
  "created_loop st svc [] created = created"
| "created_loop st svc (ea # eas) created =
     (case st (ip_string ea) of
        None \<Rightarrow> False
      | Some cs \<Rightarrow> created_loop st svc eas (if ports_found cs (svc_ports svc) then created else False))"

definition GetLoadBalancer ::
  "'w mgr \<Rightarrow> choices \<Rightarrow> string \<Rightarrow> service \<Rightarrow> 'w mgr_state \<Rightarrow> (go_error + ingress list \<times> bool) \<times> 'w mgr_state" where
  "GetLoadBalancer m ch clusterName svc s =
     (case reconciliationForService m ch (prepare m clusterName svc) svc [] s of
        (Inl e, s1) \<Rightarrow> (Inl e, s1)
      | (Inr (mrecon, eas), s1) \<Rightarrow>
          (case run_Status m ch mrecon s1 of
             (Inl e, s2) \<Rightarrow> (Inl e, s2)
           | (Inr st, s2) \<Rightarrow>
               (Inr (lbStatusFromReconcileStatus (ch_first ch st) (ch_second ch st) svc,
                     created_loop st svc eas True), s2)))"

definition EnsureLoadBalancer ::
  "'w mgr \<Rightarrow> choices \<Rightarrow> string \<Rightarrow> service \<Rightarrow> node list \<Rightarrow> 'w mgr_state \<Rightarrow>
   ((go_error + ingress list) \<times> 'w mgr_state) option" where
  "EnsureLoadBalancer m ch clusterName svc nodes s =
     (case reconciliationForService m ch (prepare m clusterName svc) svc nodes s of
        (Inl e, s1) \<Rightarrow> Some (Inl (handleRateLimitError (ch_retry ch) e), s1)
      | (Inr (mrecon, _), s1) \<Rightarrow>
          (case run_Reconcile m ch mrecon s1 of
             None \<Rightarrow> None
           | Some (Some e, _, s2) \<Rightarrow> Some (Inl (handleRateLimitError (ch_retry ch) e), s2)
           | Some (None, mrecon', s2) \<Rightarrow>
               (case reconciliationStatus m ch mrecon' svc s2 of
                  (Inl e, s3) \<Rightarrow> Some (Inl (handleRateLimitError (ch_retry ch) e), s3)
                | (Inr st, s3) \<Rightarrow> Some (Inr st, s3))))"

definition UpdateLoadBalancer ::
  "'w mgr \<Rightarrow> choices \<Rightarrow> string \<Rightarrow> service \<Rightarrow> node list \<Rightarrow> 'w mgr_state \<Rightarrow> (go_error option \<times> 'w mgr_state) option" where
  "UpdateLoadBalancer m ch clusterName svc nodes s =
     map_option (\<lambda>(res, s1). (case res of Inl e \<Rightarrow> Some e | Inr _ \<Rightarrow> None, s1))
       (EnsureLoadBalancer m ch clusterName svc nodes s)"

definition EnsureLoadBalancerDeleted ::
  "'w mgr \<Rightarrow> choices \<Rightarrow> string \<Rightarrow> service \<Rightarrow> 'w mgr_state \<Rightarrow> (go_error option \<times> 'w mgr_state) option" where
  "EnsureLoadBalancerDeleted m ch clusterName svc s =
     map_option (\<lambda>(res, s1). (case res of Inl e \<Rightarrow> Some e | Inr _ \<Rightarrow> None, s1))
       (EnsureLoadBalancer m ch clusterName svc [] s)"

end
