(* ===== verification/BalancerProps.thy ===== *)
theory BalancerProps
  imports LoadBalancer
begin

text \<open>
  The properties of the LoadBalancer manager: which services are accepted, what the members of the
  Multi are given, the collision check, the status written to the service and the errors returned.
\<close>

section \<open>Ports, servers and endpoints\<close>

definition port_of :: "service_port \<Rightarrow> port" where
  "port_of p = \<lparr>external = ucast (sp_port p), internal = ucast (sp_nodePort p)\<rparr>"

lemma ports_loop_result:
  "ports_loop ps pm =
     (if distinct (map sp_name ps) \<and> (\<forall>p\<in>set ps. pm (sp_name p) = None)
      then Inr (pm ++ map_of (map (\<lambda>p. (sp_name p, port_of p)) ps)) else Inl ErrPortNameNotUnique)"
proof (induction ps arbitrary: pm)
  case (Cons p ps)
  let ?m = "map_of (map (\<lambda>p. (sp_name p, port_of p)) ps)"
  show ?case
  proof (cases "pm (sp_name p) = None \<and> sp_name p \<notin> sp_name ` set ps")
    case True
    then have new: "?m (sp_name p) = None" by (force simp: map_of_eq_None_iff)
    have "pm(sp_name p \<mapsto> port_of p) ++ ?m = pm ++ map_of (map (\<lambda>p. (sp_name p, port_of p)) (p # ps))"
      using new by (auto simp: fun_eq_iff map_add_def split: option.split)
    moreover have "(\<forall>q\<in>set ps. (pm(sp_name p \<mapsto> port_of p)) (sp_name q) = None) \<longleftrightarrow> (\<forall>q\<in>set ps. pm (sp_name q) = None)"
      by (intro ball_cong refl) (use True in \<open>auto simp: image_iff\<close>)
    ultimately show ?thesis using True unfolding ports_loop.simps Cons.IH port_of_def [symmetric]
      by (simp del: list.map(2) add: list.map(2) [of sp_name])
  next
    case False
    then consider "pm (sp_name p) \<noteq> None" | q where "pm (sp_name p) = None" "q \<in> set ps" "sp_name q = sp_name p" by force
    then show ?thesis
      by cases (auto simp: Cons.IH intro: rev_image_eqI)
  qed
qed simp

lemma servers_loop_result:
  "servers_loop ns acc =
     (case List.find (\<lambda>n. \<exists>e. getNodeEndpointAddress n = Inl e) ns of
        Some n \<Rightarrow> (case getNodeEndpointAddress n of
                     Inl e \<Rightarrow> Inl (wrap_error ''error retrieving node endpoint address for node'' e))
      | None \<Rightarrow> Inr (acc @ map (\<lambda>n. \<lparr>sv_name = node_name n, sv_address = projr (getNodeEndpointAddress n)\<rparr>) ns))"
  by (induction ns arbitrary: acc) (auto split: sum.splits option.splits)

text \<open>The usable addresses of a type; an address that does not parse counts as nil and not as unspecified.\<close>

definition addresses_of :: "string \<Rightarrow> node \<Rightarrow> ip list" where
  "addresses_of ty n =
     filter (\<lambda>ip. \<not> isUnspecified ip) (map (\<lambda>(t, a). parseIP a) (filter (\<lambda>(t, a). t = ty) (node_addresses n)))"

definition last_of :: "ip list \<Rightarrow> ip \<Rightarrow> ip" where
  "last_of xs d = (if xs = [] then d else last xs)"

lemma node_types [simp]: "NodeInternalIP \<noteq> NodeExternalIP" "NodeExternalIP \<noteq> NodeInternalIP"
  by (simp_all add: NodeInternalIP_def NodeExternalIP_def)

lemma endpoint_loop_last:
  "endpoint_loop addrs i e =
     (last_of (addresses_of NodeInternalIP (n\<lparr>node_addresses := addrs\<rparr>)) i,
      last_of (addresses_of NodeExternalIP (n\<lparr>node_addresses := addrs\<rparr>)) e)"
proof (induction addrs arbitrary: i e)
  case (Cons ta addrs)
  obtain t a where ta: "ta = (t, a)" by fastforce
  have l: "last_of (x # xs) d = last_of xs x" for x xs d by (simp add: last_of_def)
  show ?case
    by (cases "isUnspecified (parseIP a)"; cases "t = NodeInternalIP"; cases "t = NodeExternalIP")
       (simp_all add: ta Let_def Cons.IH addresses_of_def l)
qed (simp add: addresses_of_def last_of_def)

text \<open>
  The endpoint of a node is the last external address that is not unspecified, else the last
  internal one, else \<open>ErrNoUsableNodeAddress\<close>. An address that does not parse takes part: as the last
  of its type it hides the good addresses before it.
\<close>

theorem getNodeEndpointAddress_prefers_external:
  "getNodeEndpointAddress n =
     (let ext = last_of (addresses_of NodeExternalIP n) []; int = last_of (addresses_of NodeInternalIP n) [] in
      if ext \<noteq> [] then Inr ext else if int \<noteq> [] then Inr int else Inl ErrNoUsableNodeAddress)"
proof -
  have "n\<lparr>node_addresses := node_addresses n\<rparr> = n" by simp
  then show ?thesis by (simp add: getNodeEndpointAddress_def endpoint_loop_last [where n = n] Let_def)
qed

section \<open>Collisions of external addresses\<close>

lemma ingress_loop_iff: "ingress_loop ip ings =
    (if \<exists>ing\<in>set ings. ip_equal (parseIP (ing_ip ing)) ip then Some ErrSingleVIPConflict else None)"
  by (induction ings) auto

text \<open>The services another service's address is compared with.\<close>

definition rivals :: "service \<Rightarrow> service list \<Rightarrow> service list" where
  "rivals svc ss =
     filter (\<lambda>s. (svc_namespace s \<noteq> svc_namespace svc \<or> svc_name s \<noteq> svc_name svc) \<and>
                 svc_type s = ServiceTypeLoadBalancer) ss"

definition holds_ip :: "ip \<Rightarrow> service \<Rightarrow> bool" where
  "holds_ip ip s \<longleftrightarrow> (\<exists>ing\<in>set (svc_ingress s). ip_equal (parseIP (ing_ip ing)) ip)"

lemma collision_loop_iff:
  "collision_loop ip svc ss = (if \<exists>s\<in>set (rivals svc ss). holds_ip ip s then Some ErrSingleVIPConflict else None)"
  by (induction ss) (auto simp: rivals_def holds_ip_def ingress_loop_iff)

text \<open>
  C27. The collision check fails with \<open>ErrSingleVIPConflict\<close> exactly when another service of type
  LoadBalancer has an ingress with an equal address in its status.
\<close>

theorem checkIPCollision_iff:
  assumes "m_k8s m = Some list" and "list w = (Inr svcs, w')"
  shows "checkIPCollision m ip svc w =
    (if \<exists>s\<in>set svcs. svc_type s = ServiceTypeLoadBalancer \<and> (svc_namespace s, svc_name s) \<noteq> (svc_namespace svc, svc_name svc) \<and>
          (\<exists>ing\<in>set (svc_ingress s). ip_equal (parseIP (ing_ip ing)) ip)
     then Some ErrSingleVIPConflict else None, w')"
proof -
  have "(\<exists>s\<in>set (rivals svc svcs). holds_ip ip s) \<longleftrightarrow>
    (\<exists>s\<in>set svcs. svc_type s = ServiceTypeLoadBalancer \<and> (svc_namespace s, svc_name s) \<noteq> (svc_namespace svc, svc_name svc) \<and>
          (\<exists>ing\<in>set (svc_ingress s). ip_equal (parseIP (ing_ip ing)) ip))"
    by (auto simp: rivals_def holds_ip_def)
  then show ?thesis using assms by (simp add: checkIPCollision_def collision_loop_iff)
qed

section \<open>The status\<close>

lemma port_numbers_loop_concat:
  "port_numbers_loop xs nums = nums @ map ucast (concat (map snd xs))"
  by (induction xs arbitrary: nums) (auto simp: map_concat comp_def)

lemma port_status_loop_map:
  "port_status_loop ps pts = pts @ map (\<lambda>p. \<lparr>ps_port = p, ps_protocol = ProtocolTCP\<rparr>) (filter (\<lambda>p. p \<noteq> 0) ps)"
  by (induction ps arbitrary: pts) simp_all

lemma ingresses_loop_map:
  "ingresses_loop pts xs ings = ings @ map (\<lambda>(a, x). \<lparr>ing_ip = a, ing_hostname = [], ing_ports = pts\<rparr>) xs"
  by (induction pts xs ings rule: ingresses_loop.induct) simp_all

lemma map_sort_key: "map f (sort_key f xs) = sort (map f xs)"
  by (rule properties_for_sort [symmetric]) simp_all

lemma map_compact: "inj f \<Longrightarrow> map f (compact xs) = compact (map f xs)"
  by (induction xs rule: compact.induct) (simp_all add: inj_eq)

lemma sorted_list_of_set_mono_image:
  assumes "finite S" and "\<And>x y. x < y \<Longrightarrow> f x < f y"
  shows "map f (sorted_list_of_set S) = sorted_list_of_set (f ` S)"
proof -
  have "sorted_wrt (<) (map f (sorted_list_of_set S))"
    using assms(2) sorted_wrt_mono_rel [OF _ strict_sorted_list_of_set [of S]] by (simp add: sorted_wrt_map)
  moreover have "set (map f (sorted_list_of_set S)) = f ` S" using assms(1) by simp
  ultimately show ?thesis by (metis sorted_list_of_set.idem_if_sorted_distinct strict_sorted_iff)
qed

lemma filter_sorted_list_of_set:
  "finite S \<Longrightarrow> filter P (sorted_list_of_set S) = sorted_list_of_set {x \<in> S. P x}"
  using sorted_wrt_filter [OF strict_sorted_list_of_set, of P S]
  by (metis List.set_filter set_sorted_list_of_set sorted_list_of_set.idem_if_sorted_distinct strict_sorted_iff)

lemma sint_ucast_port: "sint (ucast (p :: 16 word) :: 32 word) = uint p"
proof -
  have "uint p < 2 ^ 16" using uint_lt2p [of p] by simp
  moreover have "- (2 ^ 31) \<le> uint p" by (rule order_trans [OF _ uint_nonnegative]) simp
  ultimately have "signed_take_bit 31 (uint p) = uint p" by (intro signed_take_bit_int_eq_self) simp_all
  then show ?thesis using \<open>uint p < 2 ^ 16\<close> by (simp add: sint_uint unsigned_ucast_eq take_bit_int_eq_self)
qed

lemma ucast_port_0: "(ucast (p :: 16 word) :: 32 word) = 0 \<longleftrightarrow> p = 0"
  by (metis sint_ucast_port sint_0 uint_0_iff ucast_0)

text \<open>The sorted and compacted port numbers, whatever the order of the map.\<close>

lemma port_numbers_sorted:
  "compact (sort_int32 (map ucast (qs :: 16 word list))) = map ucast (sorted_list_of_set (set qs))"
proof -
  have inj: "inj (sint :: 32 word \<Rightarrow> int)" by (rule injI) (rule signed_word_eqI)
  have "map sint (compact (sort_int32 (map ucast qs))) = compact (sort (map sint (map ucast qs :: 32 word list)))"
    unfolding map_compact [OF inj] sort_int32_def by (simp add: map_sort_key)
  also have "\<dots> = sorted_list_of_set (uint ` set qs)"
    by (simp add: compact_sort image_image sint_ucast_port comp_def)
  also have "\<dots> = map uint (sorted_list_of_set (set qs))"
    by (rule sorted_list_of_set_mono_image [symmetric]) (simp_all add: word_less_def)
  also have "\<dots> = map sint (map ucast (sorted_list_of_set (set qs)) :: 32 word list)"
    by (simp add: sint_ucast_port)
  finally show ?thesis by (rule injD [OF inj_mapI [OF inj]])
qed

definition open_ports :: "port_status \<Rightarrow> 16 word set" where
  "open_ports st = {p. p \<noteq> 0 \<and> (\<exists>a ps. st a = Some ps \<and> p \<in> set ps)}"

definition status_ports :: "port_status \<Rightarrow> portStatus list" where
  "status_ports st = map (\<lambda>p. \<lparr>ps_port = ucast p, ps_protocol = ProtocolTCP\<rparr>) (sorted_list_of_set (open_ports st))"

definition proxy_hostname :: "service \<Rightarrow> string" where
  "proxy_hostname svc = to_lower (case svc_annotations svc AKEAnnotationHostname of None \<Rightarrow> [] | Some h \<Rightarrow> h)"

lemma status_ports_loop:
  assumes "range_of st first"
  shows "port_status_loop (compact (sort_int32 (port_numbers_loop first []))) [] = status_ports st"
proof -
  let ?qs = "concat (map snd first)"
  have "set ?qs = {p. \<exists>a ps. st a = Some ps \<and> p \<in> set ps}"
    using range_of_mem [OF assms] by force
  then have "{p \<in> set ?qs. p \<noteq> 0} = open_ports st" by (auto simp: open_ports_def)
  then have "filter (\<lambda>p. p \<noteq> 0) (map ucast (sorted_list_of_set (set ?qs)) :: 32 word list) =
      map ucast (sorted_list_of_set (open_ports st))"
    by (simp add: filter_map comp_def filter_sorted_list_of_set ucast_port_0)
  then show ?thesis
    by (simp add: port_numbers_loop_concat port_numbers_sorted port_status_loop_map status_ports_def comp_def)
qed

text \<open>
  C26. The status of a service has the same ports at every ingress: the port numbers of all addresses
  without zero, in increasing order and once each. With the host name annotation there is exactly one
  ingress, with the name in lower case and no address; without it one ingress per address of the
  load balancers, without a name. The order of the map does not matter.
\<close>

theorem lbStatus_result:
  assumes "range_of st first" and "range_of st second"
  shows "let ings = lbStatusFromReconcileStatus first second svc in
    (\<forall>ing\<in>set ings. ing_ports ing = map (\<lambda>p. \<lparr>ps_port = ucast p, ps_protocol = ''TCP''\<rparr>)
       (sorted_list_of_set {p. p \<noteq> 0 \<and> (\<exists>a ps. st a = Some ps \<and> p \<in> set ps)})) \<and>
    (if proxy_hostname svc \<noteq> [] then map (\<lambda>i. (ing_ip i, ing_hostname i)) ings = [([], proxy_hostname svc)]
     else distinct (map ing_ip ings) \<and> ing_ip ` set ings = dom st \<and> (\<forall>ing\<in>set ings. ing_hostname ing = []))"
proof -
  have pts: "map (\<lambda>p. \<lparr>ps_port = ucast p, ps_protocol = ''TCP''\<rparr>)
       (sorted_list_of_set {p. p \<noteq> 0 \<and> (\<exists>a ps. st a = Some ps \<and> p \<in> set ps)}) = status_ports st"
    by (simp add: status_ports_def open_ports_def ProtocolTCP_def)
  have ings: "lbStatusFromReconcileStatus first second svc =
      (if proxy_hostname svc \<noteq> [] then [\<lparr>ing_ip = [], ing_hostname = proxy_hostname svc, ing_ports = status_ports st\<rparr>]
       else map (\<lambda>(a, x). \<lparr>ing_ip = a, ing_hostname = [], ing_ports = status_ports st\<rparr>) second)"
    by (simp add: lbStatusFromReconcileStatus_def Let_def status_ports_loop [OF assms(1)] ingresses_loop_map
        proxy_hostname_def)
  let ?l = "map (\<lambda>(a, x). \<lparr>ing_ip = a, ing_hostname = [], ing_ports = status_ports st\<rparr>) second"
  have ips: "map ing_ip ?l = map fst second" by (simp add: comp_def case_prod_beta)
  have "distinct (map ing_ip ?l)" unfolding ips by (rule range_of_distinct [OF assms(2)])
  moreover have "ing_ip ` set ?l = dom st"
    using arg_cong [OF ips, of set] range_of_keys [OF assms(2)] by (simp only: set_map)
  moreover have "\<forall>ing\<in>set ?l. ing_ports ing = status_ports st \<and> ing_hostname ing = []" by auto
  ultimately show ?thesis unfolding Let_def pts ings by simp
qed

section \<open>Has the load balancer been created\<close>

lemma port_found_iff: "port_found cs p \<longleftrightarrow> (\<exists>c\<in>set cs. ucast c = p)"
  by (induction cs) auto

lemma ports_found_iff: "ports_found cs ps \<longleftrightarrow> (\<forall>p\<in>set ps. \<exists>c\<in>set cs. ucast c = sp_port p)"
  by (induction ps) (auto simp: port_found_iff)

lemma created_loop_iff:
  "created_loop st svc eas created \<longleftrightarrow>
     (\<forall>ea\<in>set eas. st (ip_string ea) \<noteq> None) \<and>
     created \<and> (\<forall>ea\<in>set eas. \<forall>cs. st (ip_string ea) = Some cs \<longrightarrow> ports_found cs (svc_ports svc))"
  by (induction eas arbitrary: created) (auto split: option.splits)

text \<open>
  C29. \<open>GetLoadBalancer\<close> reports the load balancer as existing exactly when every external address of
  the service has every port of the service in the merged status of the load balancers; for a service
  that is being deleted it always does.
\<close>

theorem GetLoadBalancer_created_iff:
  assumes "GetLoadBalancer m ch cn svc s = (Inr (ings, created), s')"
  shows "\<exists>mrecon eas s1 st. reconciliationForService m ch (prepare m cn svc) svc [] s = (Inr (mrecon, eas), s1) \<and>
    run_Status m ch mrecon s1 = (Inr st, s') \<and> (svc_deletion svc \<longrightarrow> created) \<and>
    (created \<longleftrightarrow> (\<forall>ea\<in>set eas. \<exists>cs. st (ip_string ea) = Some cs \<and> (\<forall>p\<in>set (svc_ports svc). \<exists>c\<in>set cs. ucast c = sp_port p)))"
proof -
  obtain mrecon eas s1 where rf: "reconciliationForService m ch (prepare m cn svc) svc [] s = (Inr (mrecon, eas), s1)"
    using assms by (auto simp: GetLoadBalancer_def split: prod.splits sum.splits)
  then obtain st where st: "run_Status m ch mrecon s1 = (Inr st, s')"
    and c: "created = created_loop st svc eas True"
    using assms by (auto simp: GetLoadBalancer_def split: prod.splits sum.splits)
  have "svc_deletion svc \<Longrightarrow> eas = []"
    using rf by (auto simp: reconciliationForService_def wanted_for_def split: prod.splits sum.splits)
  moreover have "created \<longleftrightarrow> (\<forall>ea\<in>set eas. \<exists>cs. st (ip_string ea) = Some cs \<and> (\<forall>p\<in>set (svc_ports svc). \<exists>c\<in>set cs. ucast c = sp_port p))"
    unfolding c created_loop_iff ports_found_iff by auto
  ultimately show ?thesis using rf st by auto
qed

section \<open>Errors\<close>

lemma handleRateLimitError_no_limit: "as_rate_limit (handleRateLimitError now e) = None"
  by (simp add: handleRateLimitError_def split: option.split)

lemma EnsureLoadBalancer_error_handled:
  "EnsureLoadBalancer m ch cn svc nodes s = Some (Inl e, s') \<Longrightarrow> \<exists>e0. e = handleRateLimitError (ch_retry ch) e0"
  by (auto simp: EnsureLoadBalancer_def split: prod.splits sum.splits option.splits)

end
