(* ===== verification/EnsureProps.thy ===== *)
theory EnsureProps
  imports BalancerProps
begin

text \<open>
  The composition: \<open>EnsureLoadBalancer\<close> and \<open>EnsureLoadBalancerDeleted\<close> with the address manager,
  the reconciliations and the Engine. What a success means for the Engine, what a deletion removes,
  and which configurations end in a panic.
\<close>

section \<open>An Engine with complete frontends\<close>

definition complete_engine :: "'w api \<Rightarrow> bool" where
  "complete_engine A \<longleftrightarrow>
     (\<forall>i w obj w'. api_get A (OFrontend (blank_frontend i)) w = (None, obj, w') \<longrightarrow>
        fe_backend (frontend_of (blank_frontend i) obj) \<noteq> None)"

lemma complete_engineD:
  "complete_engine A \<Longrightarrow> api_get A (OFrontend (blank_frontend i)) w = (None, obj, w') \<Longrightarrow>
   \<exists>y. fe_backend (frontend_of (blank_frontend i) obj) = Some y"
  unfolding complete_engine_def by blast

lemma typed_retrieve_complete:
  assumes "complete_engine A" and "frontends_complete (g_recon g)" and "typed_retrieve L A res g = (None, g')"
  shows "frontends_complete (g_recon g')"
proof -
  have "get_frontend L A i g = (None, g') \<Longrightarrow> frontends_complete (g_recon g')" for i
    using complete_engineD [OF assms(1)] assms(2)
    by (auto simp: get_frontend_def Let_def frontends_complete_def split: prod.splits option.splits if_splits)
  moreover have "get_backend L A i g = (None, g') \<Longrightarrow> frontends_complete (g_recon g')" for i
    using assms(2)
    by (auto simp: get_backend_def Let_def frontends_complete_def split: prod.splits option.splits if_splits)
  moreover have "get_bind A i g = (None, g') \<Longrightarrow> frontends_complete (g_recon g')" for i
    using assms(2) by (auto simp: get_bind_def split: prod.splits option.splits)
  moreover have "get_server A i g = (None, g') \<Longrightarrow> frontends_complete (g_recon g')" for i
    using assms(2) by (auto simp: get_server_def split: prod.splits option.splits)
  ultimately show ?thesis using assms(2,3) by (auto simp: typed_retrieve_def split: if_splits)
qed

lemma retrieve_loop_complete:
  "complete_engine A \<Longrightarrow> frontends_complete (g_recon g) \<Longrightarrow> retrieve_loop L A rts g = (None, g') \<Longrightarrow>
   frontends_complete (g_recon g')"
proof (induction rts arbitrary: g)
  case (Cons rt rts)
  obtain x w where rt: "rt (g_world g) = (x, w)" by fastforce
  with Cons.prems(3) obtain res where x: "x = Inr res" by (cases x) auto
  obtain e g1 where t: "typed_retrieve L A res (g\<lparr>g_world := w\<rparr>) = (e, g1)" by fastforce
  with Cons.prems(3) rt x have e: "e = None" and rest: "retrieve_loop L A rts g1 = (None, g')"
    by (auto split: option.splits)
  have "frontends_complete (g_recon g1)"
    using typed_retrieve_complete [OF Cons.prems(1) _ t [unfolded e]] Cons.prems(2) by simp
  from Cons.IH [OF Cons.prems(1) this rest] show ?case .
qed simp

lemma retrieveState_complete:
  assumes L: "lib_contract L" and "complete_engine A" and ret: "retrieveState L A s = (None, s')"
  shows "frontends_complete (rcn s')"
proof -
  let ?r0 = "reset_recon (rcn s)"
  have r0: "frontends_complete ?r0" by (simp add: frontends_complete_def reset_recon_def)
  obtain le oc w where list: "api_list A True (tags ?r0) (world s) = (le, oc, w)"
    by (cases "api_list A True (tags ?r0) (world s)") auto
  show ?thesis
  proof (cases le)
    case (Some e)
    with ret list r0 show ?thesis by (auto simp: retrieveState_def retrieveResources_def split: if_splits)
  next
    case None
    let ?g0 = "\<lparr>g_world = w, g_recon = ?r0, allBinds = [], allServers = []\<rparr>"
    obtain re g where loop: "retrieve_loop L A oc ?g0 = (re, g)" by fastforce
    from ret list None loop obtain bs r1 where re: "re = None"
      and fb: "filterBinds L (allBinds g) [] (g_recon g) = (Inr bs, r1)"
      by (auto simp: retrieveState_def retrieveResources_def split: option.splits prod.splits sum.splits)
    from ret list None loop re fb obtain ss r2 where
      fs: "filterServers L (allServers g) [] (r1\<lparr>binds := bs\<rparr>) = (Inr ss, r2)" and r': "rcn s' = r2\<lparr>servers := ss\<rparr>"
      by (auto simp: retrieveState_def retrieveResources_def Let_def split: option.splits prod.splits sum.splits)
    have "frontends_complete (g_recon g)"
      using retrieve_loop_complete [OF assms(2) _ loop [unfolded re]] r0 by simp
    moreover have "frontends r1 = frontends (g_recon g)" "frontends r2 = frontends r1"
      using filterBinds_eq [OF L fb] filterServers_eq [OF L fs] by auto
    ultimately show ?thesis by (simp add: r' frontends_complete_def)
  qed
qed

text \<open>What a nil from \<open>Reconcile\<close> means on such an Engine.\<close>

lemma Reconcile_nil:
  assumes L: "lib_contract L" and A: "complete_engine A" and rg: "\<forall>n k. ranges_ok (rcn s) (orders n k)"
    and run: "Reconcile L A B orders s = Some (None, s')"
  shows "ended_waiting L A B orders s' \<or> same_config (rcn s) (rcn s') \<and> reconciled L (rcn s') \<and> owned (rcn s')"
  using Reconcile_ends [OF L run]
proof
  assume "\<exists>m s0 s1. same_config (rcn s) (rcn s0) \<and> ReconcileCheck L A (orders m) s0 = (Inr ([], []), s1) \<and> rcn s' = rcn s1"
  then obtain m s0 s1 where cfg: "same_config (rcn s) (rcn s0)" and eq: "rcn s' = rcn s1"
    and chk: "ReconcileCheck L A (orders m) s0 = (Inr ([], []), s1)" by blast
  obtain s2 where ret: "retrieveState L A s0 = (None, s2)" and st: "reconcile_steps L (orders m) (rcn s2) = (Inr ([], []), rcn s1)"
    using ReconcileCheck_steps [OF chk] by blast
  have "frontends_complete (rcn s1)"
    using retrieveState_complete [OF L A ret] same_objects_fields [OF reconcile_steps_objects [OF st]] by simp
  moreover have "\<forall>k. ranges_ok (rcn s0) (orders m k)" using rg ranges_config [OF cfg] by simp
  moreover have "same_config (rcn s) (rcn s1)" using check_retrieved [OF L chk] cfg same_config_trans by blast
  ultimately show ?thesis using quiet_check_reconciled [OF L _ chk] eq by simp
qed simp

section \<open>The members\<close>

lemma recon_New_fields:
  assumes "recon_New A suffix lb uid eas pts svs steps w = (Inr r, w')"
  shows "resourceNameSuffix r = suffix" and "tags r = [''anxccm-svc-uid='' @ uid]" and "ports r = pts"
    and "targetServers r = svs" and "externalAddresses r = eas"
  using assms by (auto simp: recon_New_def split: prod.splits option.splits)

definition new_member ::
  "'w mgr \<Rightarrow> string \<Rightarrow> service \<Rightarrow> ip list \<Rightarrow> (string \<rightharpoonup> port) \<Rightarrow> server_spec list \<Rightarrow> string \<Rightarrow> recon \<Rightarrow> bool" where
  "new_member m cn svc eas pts svs lb r \<longleftrightarrow>
     (\<exists>w w'. recon_New (m_api m) (GetLoadBalancerName m cn svc) lb (svc_uid svc) eas pts svs (m_backoffSteps m) w = (Inr r, w'))"

lemma members_loop_ok:
  "members_loop m cn svc eas pts svs lbs mrecon w = (Inr mrecon', w') \<Longrightarrow>
   \<exists>rs. recons mrecon' = recons mrecon @ rs \<and> list_all2 (new_member m cn svc eas pts svs) lbs rs"
proof (induction lbs arbitrary: mrecon w)
  case (Cons lb lbs)
  obtain x w1 where new: "recon_New (m_api m) (GetLoadBalancerName m cn svc) lb (svc_uid svc) eas pts svs (m_backoffSteps m) w = (x, w1)"
    by fastforce
  with Cons.prems obtain r where x: "x = Inr r" by (cases x) auto
  with Cons.prems new have "members_loop m cn svc eas pts svs lbs (multi_Add r mrecon) w1 = (Inr mrecon', w')" by simp
  from Cons.IH [OF this] obtain rs where rs: "recons mrecon' = recons (multi_Add r mrecon) @ rs"
    "list_all2 (new_member m cn svc eas pts svs) lbs rs" by blast
  have "new_member m cn svc eas pts svs lb r" unfolding new_member_def using new x by blast
  with rs show ?case by (intro exI [of _ "r # rs"]) (simp add: multi_Add_def)
qed simp

text \<open>Each member is run once, from its own state to its own result.\<close>

lemma reconcile_members_each:
  "reconcile_members m rngs i rs w mt = Some (Inr run) \<Longrightarrow>
   length (mr_results run) = length rs \<and> length (mr_recons run) = length rs \<and>
   (\<forall>k<length rs. \<exists>s s'. rcn s = rs ! k \<and>
      Reconcile (m_lib m) (m_api m) (m_backoff m) (rngs (i + k)) s = Some (mr_results run ! k, s') \<and>
      rcn s' = mr_recons run ! k)"
proof (induction rs arbitrary: i w mt run)
  case (Cons r rs)
  let ?s = "\<lparr>world = w, rcn = r, met = mt\<rparr>"
  from Cons.prems obtain err s1 run1 where
    rec: "Reconcile (m_lib m) (m_api m) (m_backoff m) (rngs i) ?s = Some (err, s1)"
    and rest: "reconcile_members m rngs (Suc i) rs (world s1) (met s1) = Some (Inr run1)"
    and run: "run = run1\<lparr>mr_results := err # mr_results run1, mr_recons := rcn s1 # mr_recons run1\<rparr>"
    by (auto split: option.splits prod.splits sum.splits if_splits)
  note IH = Cons.IH [OF rest]
  have "\<exists>s s'. rcn s = (r # rs) ! k \<and>
      Reconcile (m_lib m) (m_api m) (m_backoff m) (rngs (i + k)) s = Some (mr_results run ! k, s') \<and>
      rcn s' = mr_recons run ! k" if "k < length (r # rs)" for k
  proof (cases k)
    case 0
    show ?thesis by (rule exI [of _ ?s], rule exI [of _ s1]) (simp add: 0 run rec)
  next
    case (Suc j)
    with that have "j < length rs" by simp
    with IH obtain s s' where "rcn s = rs ! j"
      "Reconcile (m_lib m) (m_api m) (m_backoff m) (rngs (Suc i + j)) s = Some (mr_results run1 ! j, s')"
      "rcn s' = mr_recons run1 ! j" by blast
    then show ?thesis by (intro exI [of _ s] exI [of _ s']) (simp add: Suc run)
  qed
  with IH show ?case by (simp add: run)
qed simp

section \<open>A successful EnsureLoadBalancer\<close>

text \<open>The wanted state of a member.\<close>

definition member_wants ::
  "'w mgr \<Rightarrow> service \<Rightarrow> (string \<rightharpoonup> port) \<Rightarrow> server_spec list \<Rightarrow> ip list \<Rightarrow> recon \<Rightarrow> bool" where
  "member_wants m svc pts svs eas r \<longleftrightarrow>
     resourceNameSuffix r = join_with ''.'' [svc_name svc, svc_namespace svc, m_clusterName m] \<and>
     tags r = [''anxccm-svc-uid='' @ svc_uid svc] \<and> ports r = pts \<and> targetServers r = svs \<and> externalAddresses r = eas"

lemma new_member_wants: "new_member m cn svc eas pts svs lb r \<Longrightarrow> member_wants m svc pts svs eas r"
  by (auto simp: new_member_def member_wants_def GetLoadBalancerName_def prepare_def Let_def dest: recon_New_fields)

lemma member_wants_config: "member_wants m svc pts svs eas r \<Longrightarrow> same_config r r' \<Longrightarrow> member_wants m svc pts svs eas r'"
  by (simp add: member_wants_def same_config_def)

text \<open>The final state of the \<open>k\<close>-th member: reconciled, or the wait for progressing objects ended it.\<close>

definition member_done ::
  "'w mgr \<Rightarrow> choices \<Rightarrow> service \<Rightarrow> (string \<rightharpoonup> port) \<Rightarrow> server_spec list \<Rightarrow> ip list \<Rightarrow> nat \<Rightarrow> recon \<Rightarrow> bool" where
  "member_done m ch svc pts svs eas k r \<longleftrightarrow>
     reconciled (m_lib m) r \<and> owned r \<and> member_wants m svc pts svs eas r \<or>
     (\<exists>s. ended_waiting (m_lib m) (m_api m) (m_backoff m) (ch_ports ch k) s \<and> rcn s = r)"

lemma run_Reconcile_nil:
  assumes L: "lib_contract (m_lib m)" and A: "complete_engine (m_api m)"
    and new: "list_all2 (new_member m cn svc eas pts svs) lbs (recons mrecon)"
    and run: "run_Reconcile m ch mrecon s = Some (None, mrecon', s')"
    and orders: "\<forall>k n j i. range_of pts (ch_ports ch k n j i)"
  shows "length (recons mrecon') = length lbs \<and> (\<forall>k<length lbs. member_done m ch svc pts svs eas k (recons mrecon' ! k))
    \<and> ms_addressManager s' = ms_addressManager s"
proof -
  obtain r where mem: "reconcile_members m (ch_ports ch) 0 (recons mrecon) (ms_world s) (ms_metrics s) = Some (Inr r)"
    and res: "drain_errors (mr_results r) = None" and m': "mrecon' = Multi (mr_recons r)"
    and s': "s' = s\<lparr>ms_world := mr_world r, ms_metrics := mr_metrics r\<rparr>"
    using run by (auto simp: run_Reconcile_def split: option.splits sum.splits)
  note each = reconcile_members_each [OF mem, simplified]
  have len: "length (recons mrecon) = length lbs" using new by (simp add: list_all2_lengthD)
  have "member_done m ch svc pts svs eas k (mr_recons r ! k)" if k: "k < length lbs" for k
  proof -
    obtain t t' where t: "rcn t = recons mrecon ! k" "rcn t' = mr_recons r ! k"
      and rec: "Reconcile (m_lib m) (m_api m) (m_backoff m) (ch_ports ch k) t = Some (mr_results r ! k, t')"
      using each k len by auto
    have "mr_results r ! k \<in> set (mr_results r)" using each k len by simp
    then have none: "mr_results r ! k = None" using res drain_errors_none by blast
    have "new_member m cn svc eas pts svs (lbs ! k) (recons mrecon ! k)" using list_all2_nthD [OF new k] .
    then have w: "member_wants m svc pts svs eas (rcn t)" using new_member_wants t by simp
    then have "\<forall>n j. ranges_ok (rcn t) (ch_ports ch k n j)" using orders by (simp add: ranges_ok_def member_wants_def)
    from Reconcile_nil [OF L A this rec [unfolded none]] member_wants_config [OF w, of "rcn t'"]
    show ?thesis unfolding member_done_def t(2) [symmetric] by blast
  qed
  with each len m' s' show ?thesis by simp
qed

lemma reconciliationForService_parts:
  assumes "reconciliationForService m ch cn svc nodes s = (Inr (mrecon, eas), s1)"
  shows "\<exists>pts svs s0. wanted_for m ch svc nodes s = (Inr (pts, svs, eas), s0) \<and>
    list_all2 (new_member m cn svc eas pts svs) (m_loadBalancers m) (recons mrecon) \<and>
    ms_addressManager s1 = ms_addressManager s0"
proof -
  obtain pts svs s0 w2 where w: "wanted_for m ch svc nodes s = (Inr (pts, svs, eas), s0)"
    and mem: "members_loop m cn svc eas pts svs (m_loadBalancers m) (Multi []) (ms_world s0) = (Inr mrecon, w2)"
    and s1: "s1 = s0\<lparr>ms_world := w2\<rparr>"
    using assms by (auto simp: reconciliationForService_def split: prod.splits sum.splits)
  from members_loop_ok [OF mem] w s1 show ?thesis by auto
qed

lemma ensure_success:
  assumes L: "lib_contract (m_lib m)" and A: "complete_engine (m_api m)"
    and run: "EnsureLoadBalancer m ch cn svc nodes s = Some (Inr st, s')"
    and orders: "\<forall>pts svs eas s1. wanted_for m ch svc nodes s = (Inr (pts, svs, eas), s1) \<longrightarrow>
                   (\<forall>k n j i. range_of pts (ch_ports ch k n j i))"
  shows "\<exists>pts svs eas s0 mrecon s1 rs s2. wanted_for m ch svc nodes s = (Inr (pts, svs, eas), s0) \<and>
    reconciliationForService m ch (prepare m cn svc) svc nodes s = (Inr (mrecon, eas), s1) \<and>
    run_Reconcile m ch mrecon s1 = Some (None, Multi rs, s2) \<and>
    reconciliationStatus m ch (Multi rs) svc s2 = (Inr st, s') \<and>
    length rs = length (m_loadBalancers m) \<and> (\<forall>k<length rs. member_done m ch svc pts svs eas k (rs ! k))"
proof -
  obtain mrecon eas s1 where rf: "reconciliationForService m ch (prepare m cn svc) svc nodes s = (Inr (mrecon, eas), s1)"
    using run by (auto simp: EnsureLoadBalancer_def split: prod.splits sum.splits)
  then obtain mrecon' s2 where rr: "run_Reconcile m ch mrecon s1 = Some (None, mrecon', s2)"
    and st: "reconciliationStatus m ch mrecon' svc s2 = (Inr st, s')"
    using run by (auto simp: EnsureLoadBalancer_def split: prod.splits sum.splits option.splits)
  obtain pts svs s0 where w: "wanted_for m ch svc nodes s = (Inr (pts, svs, eas), s0)"
    and new: "list_all2 (new_member m (prepare m cn svc) svc eas pts svs) (m_loadBalancers m) (recons mrecon)"
    using reconciliationForService_parts [OF rf] by blast
  have "\<forall>k n j i. range_of pts (ch_ports ch k n j i)" using orders w by blast
  note nil = run_Reconcile_nil [OF L A new rr this]
  have "mrecon' = Multi (recons mrecon')" by (simp add: Multi_def)
  then show ?thesis using w rf rr st nil by metis
qed

lemma reconciled_without_ports: "reconciled L r \<Longrightarrow> ports r = Map.empty \<Longrightarrow> managed r = {}"
  by (auto simp: reconciled_def managed_def)

lemma deleted_nil:
  assumes "EnsureLoadBalancerDeleted m ch cn svc s = Some (None, s')"
  shows "\<exists>st. EnsureLoadBalancer m ch cn svc [] s = Some (Inr st, s')"
proof -
  obtain x where x: "EnsureLoadBalancer m ch cn svc [] s = Some x"
    using assms by (cases "EnsureLoadBalancer m ch cn svc [] s") (simp_all add: EnsureLoadBalancerDeleted_def)
  with assms show ?thesis by (cases x; cases "fst x") (simp_all add: EnsureLoadBalancerDeleted_def)
qed

text \<open>What the load balancer still serves for a list of ports and addresses.\<close>

definition serves :: "service_port list \<Rightarrow> ip list \<Rightarrow> recon \<Rightarrow> bool" where
  "serves ps eas r \<longleftrightarrow>
     (\<forall>p\<in>set ps.
        (\<exists>b\<in>set (backends r). be_name b = makeResourceName r [sp_name p]) \<and>
        (\<exists>f\<in>set (frontends r). fe_name f = makeResourceName r [sp_name p] \<and>
           (\<forall>a\<in>set eas. \<exists>bi\<in>set (binds r). bi_frontend bi = fe_id f \<and> bi_address bi = ip_string a)))"

lemma reconciled_serves:
  assumes "reconciled L r" and "\<forall>p\<in>set ps. ports r (sp_name p) \<noteq> None" and "externalAddresses r = eas"
  shows "serves ps eas r"
proof -
  from assms(1) obtain pb pf where
    each: "\<forall>name p. ports r name = Some p \<longrightarrow>
         pb name \<in> set (backends r) \<and> backend_for L r name (pb name) \<and>
         pf name \<in> set (frontends r) \<and> frontend_for L r name (pb name) (pf name) \<and>
         (\<forall>a\<in>set (externalAddresses r). \<exists>bi\<in>set (binds r). bind_for r a name p (pf name) bi) \<and>
         (\<forall>sv\<in>set (targetServers r). \<exists>s\<in>set (servers r). server_for r sv name p (pb name) s)"
    unfolding reconciled_def by (elim exE conjE) (rule that)
  show ?thesis unfolding serves_def
  proof
    fix p assume "p \<in> set ps"
    with assms(2) obtain q where "ports r (sp_name p) = Some q" by blast
    note parts = each [rule_format, OF this, unfolded assms(3)]
    then have "be_name (pb (sp_name p)) = makeResourceName r [sp_name p]"
      and "fe_name (pf (sp_name p)) = makeResourceName r [sp_name p]"
      and "\<forall>a\<in>set eas. \<exists>bi\<in>set (binds r). bi_frontend bi = fe_id (pf (sp_name p)) \<and> bi_address bi = ip_string a"
      unfolding backend_for_def frontend_for_def bind_for_def by blast+
    with parts show "(\<exists>b\<in>set (backends r). be_name b = makeResourceName r [sp_name p]) \<and>
        (\<exists>f\<in>set (frontends r). fe_name f = makeResourceName r [sp_name p] \<and>
           (\<forall>a\<in>set eas. \<exists>bi\<in>set (binds r). bi_frontend bi = fe_id f \<and> bi_address bi = ip_string a))"
      by blast
  qed
qed

lemma reconciled_without_servers: "reconciled L r \<Longrightarrow> targetServers r = [] \<Longrightarrow> servers r = []"
  by (cases "servers r") (auto simp: reconciled_def)

section \<open>A manager for the witnesses\<close>

text \<open>An Engine that refuses to give out a frontend without a backend.\<close>

definition strict_api :: "ref_world api" where
  "strict_api = ref_api\<lparr>api_get := (\<lambda>obj w. case ref_get obj w of (e, x, w') \<Rightarrow>
     (case x of
        OFrontend f \<Rightarrow> if fe_backend f = None then (Some (HTTPError 500), obj, w') else (e, x, w')
      | _ \<Rightarrow> (e, x, w')))\<rparr>"

lemma ref_get_frontend:
  "ref_get (OFrontend f) w = (None, x, w') \<Longrightarrow> \<exists>g. x = OFrontend g"
  by (cases x) (auto simp: ref_get_def find_Some_iff split: option.splits)

lemma strict_api_complete: "complete_engine strict_api"
proof -
  have "fe_backend (frontend_of (blank_frontend i) obj) \<noteq> None"
    if "api_get strict_api (OFrontend (blank_frontend i)) w = (None, obj, w')" for i w obj w'
  proof -
    obtain e x v where get: "ref_get (OFrontend (blank_frontend i)) w = (e, x, v)" by (metis prod_cases3)
    with that have e: "e = None" by (auto simp: strict_api_def split: object.splits if_splits)
    with ref_get_frontend get obtain g where "x = OFrontend g" by blast
    with that get e show ?thesis by (auto simp: strict_api_def split: if_splits)
  qed
  then show ?thesis unfolding complete_engine_def by blast
qed

definition sample_mgr :: "ref_world mgr" where
  "sample_mgr =
     \<lparr>m_lib = ref_lib, m_api = strict_api, m_ipam = sample_ipam, m_backoff = ref_backoff, m_clusterName = ''cluster'',
      m_k8s = None, m_loadBalancers = [''lb-1''], m_backoffSteps = 3\<rparr>"

definition sample_choices :: "port_range \<Rightarrow> (string \<times> 16 word list) list \<Rightarrow> choices" where
  "sample_choices rng st =
     \<lparr>ch_now = (\<lambda>k. (0, 0)), ch_retry = 0, ch_ports = (\<lambda>k n j. rng),
      ch_merge = (\<lambda>sts. \<lparr>status_orders = [st], count_order = map (\<lambda>(a, ps). (a, map_of (map (\<lambda>p. (p, 1)) ps))) st,
         port_orders = (\<lambda>a. case map_of st a of None \<Rightarrow> [] | Some ps \<Rightarrow> map (\<lambda>p. (p, 1)) ps)\<rparr>),
      ch_first = (\<lambda>m. st), ch_second = (\<lambda>m. st)\<rparr>"

definition svc_service :: "bool \<Rightarrow> service" where
  "svc_service deletion =
     \<lparr>svc_name = ''svc'', svc_namespace = ''ns'', svc_uid = ''uid'', svc_deletion = deletion,
      svc_type = ''LoadBalancer'', svc_ports = [\<lparr>sp_name = ''http'', sp_port = 80, sp_nodePort = 42037\<rparr>],
      svc_families = [''IPv4''], svc_annotations = Map.empty,
      svc_ingress = [\<lparr>ing_ip = ''8.8.8.8'', ing_hostname = [], ing_ports = []\<rparr>]\<rparr>"

definition sample_node :: node where
  "sample_node = \<lparr>node_name = ''node-1'', node_providerID = [], node_addresses = [(''InternalIP'', ''10.244.0.4'')]\<rparr>"

definition with_lb :: "ref_world \<Rightarrow> ref_world" where
  "with_lb w = w\<lparr>re_objects := (''lb-1'', OLoadBalancer ''lb-1'') # re_objects w\<rparr>"

definition sample_state :: "ref_world \<Rightarrow> ref_world mgr_state" where
  "sample_state w = \<lparr>ms_world = with_lb w, ms_addressManager = Some sample_amgr, ms_metrics = zero_metrics\<rparr>"

abbreviation one_port :: "(string \<times> 16 word list) list" where
  "one_port \<equiv> [(''8.8.8.8'', [80])]"

definition run_ensure :: "service \<Rightarrow> node list \<Rightarrow> ref_world \<Rightarrow> ((go_error + ingress list) \<times> ref_world mgr_state) option" where
  "run_ensure svc nodes w =
     EnsureLoadBalancer sample_mgr (sample_choices (\<lambda>i. if svc_deletion svc then [] else http_ports)
       (if svc_deletion svc then [] else one_port)) ''kubernetes'' svc nodes (sample_state w)"

lemma sample_mgr_parts: "lib_contract (m_lib sample_mgr)" "complete_engine (m_api sample_mgr)"
  by (simp_all add: sample_mgr_def ref_lib_contract strict_api_complete)

lemma sample_orders:
  "wanted_for sample_mgr (sample_choices (\<lambda>i. http_ports) st) (svc_service False) nodes s = (Inr (pts, svs, eas), s1) \<Longrightarrow>
   range_of pts (ch_ports (sample_choices (\<lambda>i. http_ports) st) k n j i)"
  by (auto simp: wanted_for_def svc_service_def sample_choices_def http_ports_def range_of_def
      split: sum.splits option.splits prod.splits)

section \<open>What success means\<close>







end
