(* ===== verification/EnsureConverges.thy ===== *)
theory EnsureConverges
  imports Convergence EnsureProps
begin

text \<open>
  The whole path on an Engine that serves every call: the members of a Multi work one after the other
  on the objects of their own LoadBalancers, so \<open>EnsureLoadBalancer\<close> returns a status with every
  LoadBalancer as documented, and a deletion removes everything of the service and nothing else.
\<close>

section \<open>Members of different LoadBalancers do not meet\<close>

definition ours_from :: "recon \<Rightarrow> object set \<Rightarrow> object set" where
  "ours_from r T = {x \<in> T.
     case x of
       OBackend b \<Rightarrow> be_lb b = lb_identifier r
     | OFrontend f \<Rightarrow> fe_lb f = Some (lb_identifier r)
     | OBind bi \<Rightarrow> (\<exists>f. OFrontend f \<in> T \<and> fe_lb f = Some (lb_identifier r) \<and> fe_id f = bi_frontend bi)
     | OServer s \<Rightarrow> (\<exists>b. OBackend b \<in> T \<and> be_lb b = lb_identifier r \<and> be_id b = se_backend s)
     | _ \<Rightarrow> False}"

lemma ours_from_tagged: "ours r v = ours_from r (tagged_objects r v)"
  by (simp add: ours_def ours_from_def)

lemma ours_from_without:
  assumes "ours_from r T \<inter> X = {}"
  shows "ours_from r (T - X) = ours_from r T"
proof (rule antisym)
  show "ours_from r (T - X) \<subseteq> ours_from r T" unfolding ours_from_def by (auto split: object.split)
  have n: "x \<notin> X" if "x \<in> ours_from r T" for x using assms that by blast
  show "ours_from r T \<subseteq> ours_from r (T - X)"
  proof
    fix x assume x: "x \<in> ours_from r T"
    show "x \<in> ours_from r (T - X)"
    proof (cases x)
      case (OBind bi)
      with x obtain f where f: "OFrontend f \<in> T" "fe_lb f = Some (lb_identifier r)" "fe_id f = bi_frontend bi"
        by (auto simp: ours_from_def)
      then have "OFrontend f \<in> ours_from r T" by (simp add: ours_from_def)
      with f n [OF this] n [OF x] x OBind show ?thesis by (auto simp: ours_from_def)
    next
      case (OServer s)
      with x obtain b where b: "OBackend b \<in> T" "be_lb b = lb_identifier r" "be_id b = se_backend s"
        by (auto simp: ours_from_def)
      then have "OBackend b \<in> ours_from r T" by (simp add: ours_from_def)
      with b n [OF this] n [OF x] x OServer show ?thesis by (auto simp: ours_from_def)
    qed (use x n [OF x] in \<open>simp_all add: ours_from_def\<close>)
  qed
qed

lemma identified_eq:
  assumes "identified v" and "x \<in> ours r v" and "y \<in> ours r' v" and "ref_identifier x = ref_identifier y"
  shows "x = y"
proof -
  have "ev_store v (ref_identifier x) = Some x" "ev_store v (ref_identifier y) = Some y"
    using ours_tagged [OF assms(2)] ours_tagged [OF assms(3)] by (simp_all add: tagged_iff [OF assms(1)])
  then have "Some x = Some y" unfolding assms(4) by (rule trans [OF sym])
  then show ?thesis by (rule option.inject [THEN iffD1])
qed

lemma ours_disjoint:
  assumes ids: "identified v" and ne: "lb_identifier r \<noteq> lb_identifier r'"
  shows "ours r v \<inter> ours r' v = {}"
proof -
  have top: "OBackend b \<notin> ours r v \<or> OBackend b \<notin> ours r' v" "OFrontend f \<notin> ours r v \<or> OFrontend f \<notin> ours r' v" for b f
    using ne by (auto simp: ours_def)
  have "\<not> (x \<in> ours r v \<and> x \<in> ours r' v)" for x
  proof (cases x)
    case (OBind bi)
    show ?thesis
    proof
      assume "x \<in> ours r v \<and> x \<in> ours r' v"
      then obtain f f' where f: "OFrontend f \<in> ours r v" "OFrontend f' \<in> ours r' v" "fe_id f = fe_id f'"
        unfolding OBind ours_bind by metis
      from identified_eq [OF ids f(1,2)] f top(2) show False by auto
    qed
  next
    case (OServer s)
    show ?thesis
    proof
      assume "x \<in> ours r v \<and> x \<in> ours r' v"
      then obtain b b' where b: "OBackend b \<in> ours r v" "OBackend b' \<in> ours r' v" "be_id b = be_id b'"
        unfolding OServer ours_server by metis
      from identified_eq [OF ids b(1,2)] b top(1) show False by auto
    qed
  qed (use top in auto)
  then show ?thesis by blast
qed

text \<open>The documented result for a configuration, in the Engine.\<close>

definition documented :: "lib \<Rightarrow> recon \<Rightarrow> engine_view \<Rightarrow> bool" where
  "documented L r v \<longleftrightarrow> (\<exists>r'. same_config r r' \<and> managed r' = ours r v \<and> reconciled L r')"

lemma reconciled_frontend:
  assumes "reconciled L r" and "f \<in> set (frontends r)" and "fe_backend f = Some i"
  obtains b where "b \<in> set (backends r)" and "be_id b = i"
proof -
  note wit = that
  obtain pb pf where each: "\<forall>name p. ports r name = Some p \<longrightarrow> pb name \<in> set (backends r) \<and> backend_for L r name (pb name) \<and>
           pf name \<in> set (frontends r) \<and> frontend_for L r name (pb name) (pf name) \<and>
           (\<forall>a\<in>set (externalAddresses r). \<exists>bi\<in>set (binds r). bind_for r a name p (pf name) bi) \<and>
           (\<forall>sv\<in>set (targetServers r). \<exists>s\<in>set (servers r). server_for r sv name p (pb name) s)"
    and fs: "\<forall>f\<in>set (frontends r). \<exists>name\<in>dom (ports r). frontend_for L r name (pb name) f"
    using assms(1) unfolding reconciled_def by (elim exE conjE) (rule that)
  obtain name where name: "name \<in> dom (ports r)" "frontend_for L r name (pb name) f" using fs assms(2) by blast
  then obtain p where "ports r name = Some p" by blast
  from each [rule_format, OF this] have "pb name \<in> set (backends r)" by simp
  moreover have "be_id (pb name) = i" using name(2) assms(3) by (simp add: frontend_for_def)
  ultimately show thesis by (rule wit)
qed

lemma documented_parents:
  assumes doc: "documented L r v" and y: "y \<in> ours r v" and ch: "child_of y x"
  shows "\<exists>p. p \<in> ours r v \<and> ref_identifier p = ref_identifier x"
proof -
  obtain r' where m: "managed r' = ours r v" and rc: "reconciled L r'" using doc by (auto simp: documented_def)
  show ?thesis
  proof (cases y)
    case (OFrontend f)
    with ch obtain b where x: "x = OBackend b" "fe_backend f = Some (be_id b)" by (cases x) auto
    have "f \<in> set (frontends r')" using y OFrontend m managed_mem(2) by metis
    from reconciled_frontend [OF rc this x(2)] obtain b' where "b' \<in> set (backends r')" "be_id b' = be_id b" .
    then have "OBackend b' \<in> ours r v" "be_id b' = be_id b" using m managed_mem(1) by metis+
    then show ?thesis using x by (intro exI [of _ "OBackend b'"]) simp
  next
    case (OBind bi)
    with ch y show ?thesis by (cases x) (auto simp: ours_bind)
  next
    case (OServer s)
    with ch y show ?thesis by (cases x) (auto simp: ours_server)
  qed (use ch in auto)
qed

lemma others_stored:
  assumes "others r v' = others r v" and "x \<notin> ours r v" and "ev_store v i = Some x"
  shows "ev_store v' i = Some x \<and> x \<notin> ours r v' \<and> has_tags v' ts i = has_tags v ts i"
proof -
  have "(i, x, {t. (i, t) \<in> ev_tags v}) \<in> others r v'" using assms by (simp add: others_def)
  then show ?thesis by (auto simp: others_def has_tags_def)
qed

lemma tagged_others:
  assumes "others r v' = others r v"
  shows "tagged_objects r' v - ours r v \<subseteq> tagged_objects r' v' - ours r v'"
proof
  fix x assume x: "x \<in> tagged_objects r' v - ours r v"
  then obtain i where "ev_store v i = Some x" "has_tags v (tags r') i" by (auto simp: tagged_objects_def)
  with others_stored [OF assms _ this(1), of "tags r'"] x show "x \<in> tagged_objects r' v' - ours r v'"
    by (auto simp: tagged_objects_def)
qed

lemma other_balancer:
  assumes ids: "identified v" "identified v'" and ne: "lb_identifier r \<noteq> lb_identifier r'" and tg: "tags r' = tags r"
    and oth: "others r v' = others r v" and T: "tidy r' v" and doc: "documented L r v'"
  shows "ours r' v' = ours r' v" and "tidy r' v'"
proof -
  have keep: "tagged_objects r' v - ours r v = tagged_objects r' v' - ours r v'"
    using tagged_others [OF oth] tagged_others [OF oth [symmetric]] by (rule antisym)
  have dis: "ours r' v \<inter> ours r v = {}" "ours r' v' \<inter> ours r v' = {}"
    using ours_disjoint [OF ids(1) ne] ours_disjoint [OF ids(2) ne] by blast+
  show o: "ours r' v' = ours r' v"
    using keep ours_from_without [OF dis(1) [unfolded ours_from_tagged [of r']]]
      ours_from_without [OF dis(2) [unfolded ours_from_tagged [of r']]] by (simp add: ours_from_tagged [of r'])
  have "y \<in> ours r' v'" if x: "x \<in> ours r' v'" and y: "ev_store v' j = Some y" and ch: "child_of y x" for x j y
  proof (cases "y \<in> ours r v'")
    case True
    from documented_parents [OF doc True ch] obtain p where "p \<in> ours r v'" "ref_identifier p = ref_identifier x" by blast
    with identified_eq [OF ids(2) _ x] dis(2) x show ?thesis by blast
  next
    case False
    from others_stored [OF oth [symmetric] this y] have "ev_store v j = Some y" by blast
    moreover have "closed_under_children v (ours r' v)" using T by (simp add: tidy_def self_contained_def)
    moreover have "x \<in> ours r' v" using x o by simp
    ultimately have "y \<in> ours r' v" using ch unfolding closed_under_children_def by simp
    then show ?thesis using o by simp
  qed
  then have "self_contained r' v'" unfolding self_contained_def closed_under_children_def by simp
  then show "tidy r' v'" using T o by (simp add: tidy_def)
qed

section \<open>All members\<close>

text \<open>The objects that belong to none of the members, with their tags.\<close>

definition unrelated :: "recon set \<Rightarrow> engine_view \<Rightarrow> (string \<times> object \<times> string set) set" where
  "unrelated R v = {(i, x, T). ev_store v i = Some x \<and> (\<forall>r\<in>R. x \<notin> ours r v) \<and> T = {t. (i, t) \<in> ev_tags v}}"

lemma unrelated_others: "unrelated (insert r R) v = {(i, x, T) \<in> others r v. \<forall>r'\<in>R. x \<notin> ours r' v}"
  by (auto simp: unrelated_def others_def)

lemma unrelated_insert: "unrelated (insert r R) v = {(i, x, T) \<in> unrelated R v. x \<notin> ours r v}"
  by (auto simp: unrelated_def)

text \<open>What the members rely on, and what they leave behind.\<close>

definition members_ready :: "string list \<Rightarrow> recon list \<Rightarrow> engine_view \<Rightarrow> bool" where
  "members_ready ts rs v \<longleftrightarrow> distinct (map lb_identifier rs) \<and> (\<forall>r\<in>set rs. tags r = ts \<and> tidy r v)"

definition members_done :: "lib \<Rightarrow> recon list \<Rightarrow> engine_view \<Rightarrow> engine_view \<Rightarrow> bool" where
  "members_done L rs v v' \<longleftrightarrow> (\<forall>r\<in>set rs. documented L r v') \<and> unrelated (set rs) v' = unrelated (set rs) v"

lemma documented_cong: "ours r v' = ours r v \<Longrightarrow> documented L r v \<Longrightarrow> documented L r v'"
  by (simp add: documented_def)

lemma reconcile_members_converge:
  assumes S: "serving (m_lib m) (m_api m) ok V"
  shows "ok w \<Longrightarrow> members_ready ts rs (V w) \<Longrightarrow> \<forall>r\<in>set rs. prompt_backoff (m_backoff m) (backoffSteps r) \<Longrightarrow>
    \<forall>r\<in>set rs. \<forall>k n j. ranges_ok r (rngs k n j) \<Longrightarrow>
    \<exists>run. reconcile_members m rngs i rs w mt = Some (Inr run) \<and> set (mr_results run) \<subseteq> {None} \<and> ok (mr_world run) \<and>
      members_done (m_lib m) rs (V w) (V (mr_world run)) \<and>
      (\<forall>r'. lb_identifier r' \<notin> set (map lb_identifier rs) \<longrightarrow> tags r' = ts \<longrightarrow> tidy r' (V w) \<longrightarrow>
         tidy r' (V (mr_world run)) \<and> ours r' (V (mr_world run)) = ours r' (V w))"
proof (induction rs arbitrary: i w mt)
  case (Cons r rs)
  let ?s = "\<lparr>world = w, rcn = r, met = mt\<rparr>"
  note C = servingD(5) [OF S]
  have T: "tidy r (V w)" "\<forall>r'\<in>set rs. lb_identifier r \<noteq> lb_identifier r' \<and> tags r' = tags r \<and> tidy r' (V w)" "tags r = ts"
    using Cons.prems(2) by (auto simp: members_ready_def)
  have p: "\<forall>n k. ranges_ok r (rngs i n k)" "prompt_backoff (m_backoff m) (backoffSteps r)" using Cons.prems(3,4) by simp_all
  obtain s1 where run1: "Reconcile (m_lib m) (m_api m) (m_backoff m) (rngs i) ?s = Some (None, s1)" and w1: "ok (world s1)"
    and cfg: "same_config r (rcn s1)" and T1': "tidy r (V (world s1))" and oth: "others r (V (world s1)) = others r (V w)"
    and m1: "managed (rcn s1) = ours r (V (world s1))" and rc1: "reconciled (m_lib m) (rcn s1)"
    using Reconcile_from_converges [OF S, of ?s "rngs i" "m_backoff m" 0, simplified, OF Cons.prems(1) p T(1),
        folded Reconcile_def] by (elim exE conjE) (rule that)
  have doc: "documented (m_lib m) r (V (world s1))" unfolding documented_def using cfg m1 rc1 by blast
  note other = other_balancer [OF engine_identified [OF C Cons.prems(1)] engine_identified [OF C w1] _ _ oth _ doc]
  have T1: "\<forall>r'\<in>set rs. ours r' (V (world s1)) = ours r' (V w) \<and> tidy r' (V (world s1))"
    using T(2) other by simp
  have "members_ready ts rs (V (world s1))" using Cons.prems(2) T1 by (simp add: members_ready_def)
  then obtain run where run: "reconcile_members m rngs (Suc i) rs (world s1) (met s1) = Some (Inr run)"
    and res: "set (mr_results run) \<subseteq> {None}" and w2: "ok (mr_world run)"
    and dn: "members_done (m_lib m) rs (V (world s1)) (V (mr_world run))"
    and rest: "\<And>r'. lb_identifier r' \<notin> set (map lb_identifier rs) \<Longrightarrow> tags r' = ts \<Longrightarrow> tidy r' (V (world s1)) \<Longrightarrow>
         tidy r' (V (mr_world run)) \<and> ours r' (V (mr_world run)) = ours r' (V (world s1))"
    using Cons.IH [OF w1, of "Suc i" "met s1"] Cons.prems(3,4) by auto
  have r: "lb_identifier r \<notin> set (map lb_identifier rs)" using T(2) by auto
  note mine = rest [OF r T(3) T1']
  have "documented (m_lib m) r (V (mr_world run))" using documented_cong doc mine by blast
  moreover have "unrelated (insert r (set rs)) (V (mr_world run)) = unrelated (insert r (set rs)) (V w)"
  proof -
    have "unrelated (insert r (set rs)) (V (world s1)) = unrelated (insert r (set rs)) (V w)"
      unfolding unrelated_others oth using T1 by auto
    moreover have "unrelated (insert r (set rs)) (V (mr_world run)) = unrelated (insert r (set rs)) (V (world s1))"
      using dn mine unfolding unrelated_insert members_done_def by auto
    ultimately show ?thesis by simp
  qed
  ultimately have "members_done (m_lib m) (r # rs) (V w) (V (mr_world run))" using dn by (simp add: members_done_def)
  moreover have "tidy r' (V (mr_world run)) \<and> ours r' (V (mr_world run)) = ours r' (V w)"
    if "lb_identifier r' \<notin> set (map lb_identifier (r # rs))" "tags r' = ts" "tidy r' (V w)" for r'
  proof -
    have ne: "lb_identifier r \<noteq> lb_identifier r'" "lb_identifier r' \<notin> set (map lb_identifier rs)" using that(1) by auto
    have "ours r' (V (world s1)) = ours r' (V w)" "tidy r' (V (world s1))"
      using other [OF ne(1) _ that(3)] that(2) T(3) by simp_all
    with rest [OF ne(2) that(2)] show ?thesis by simp
  qed
  moreover have "reconcile_members m rngs i (r # rs) w mt =
      Some (Inr (run\<lparr>mr_results := None # mr_results run, mr_recons := rcn s1 # mr_recons run\<rparr>))"
    using run1 run by simp
  ultimately show ?case using res w2
    by (intro exI [of _ "run\<lparr>mr_results := None # mr_results run, mr_recons := rcn s1 # mr_recons run\<rparr>"]) simp
qed (simp add: members_done_def)

lemma status_members_serve:
  assumes S: "serving (m_lib m) (m_api m) ok V"
  shows "ok w \<Longrightarrow> \<exists>run sts. status_members m rs w mt = Inr run \<and> mr_results run = map Inr sts \<and> ok (mr_world run) \<and> V (mr_world run) = V w"
proof (induction rs arbitrary: w mt)
  case (Cons r rs)
  let ?s = "\<lparr>world = w, rcn = r, met = mt\<rparr>"
  obtain s1 where s1: "retrieveState (m_lib m) (m_api m) ?s = (None, s1)" "ok (world s1)" "V (world s1) = V w"
    using retrieveState_ours [OF servingD(1,5) [OF S], of ?s] Cons.prems by auto
  obtain run sts where "status_members m rs (world s1) (met s1) = Inr run" "mr_results run = map Inr sts" "ok (mr_world run)"
    "V (mr_world run) = V w"
    using Cons.IH [OF s1(2)] s1(3) by metis
  then show ?case using s1(1) by (auto simp: recon_Status_def intro: exI [of _ "_ # sts"])
qed (auto intro: exI [of _ "[]"])

lemma drain_status_inr: "drain_status (map Inr sts) acc = Inr (acc @ sts)"
  by (induction sts arbitrary: acc) simp_all

section \<open>The manager\<close>

text \<open>The new member for a LoadBalancer: what a service wants of it.\<close>

definition member_of :: "'w mgr \<Rightarrow> service \<Rightarrow> (string \<rightharpoonup> port) \<times> server_spec list \<times> ip list \<Rightarrow> string \<Rightarrow> recon" where
  "member_of m svc wants lb =
     (case wants of (pts, svs, eas) \<Rightarrow>
        \<lparr>resourceNameSuffix = join_with ''.'' [svc_name svc, svc_namespace svc, m_clusterName m], lb_identifier = lb,
         externalAddresses = eas, ports = pts, targetServers = svs, tags = [''anxccm-svc-uid='' @ svc_uid svc],
         frontends = [], backends = [], binds = [], servers = [],
         existingFailed = [], existingProgressing = [], existingUpdating = [],
         portBackends = Map.empty, portFrontends = Map.empty, publicAddresses = [], backoffSteps = m_backoffSteps m\<rparr>)"

lemma members_loop_serves:
  assumes C: "engine_contract L (m_api m) ok V"
  shows "ok w \<Longrightarrow> \<forall>lb\<in>set lbs. ev_store (V w) lb = Some (OLoadBalancer lb) \<Longrightarrow>
    \<exists>w'. members_loop m cn svc eas pts svs lbs mrecon w =
      (Inr (Multi (recons mrecon @ map (member_of m svc (pts, svs, eas)) lbs)), w') \<and> ok w' \<and> V w' = V w"
proof (induction lbs arbitrary: mrecon w)
  case (Cons lb lbs)
  obtain w1 where "api_get (m_api m) (OLoadBalancer lb) w = (None, OLoadBalancer lb, w1)" "ok w1" "V w1 = V w"
    using engine_contractD(2) [OF C Cons.prems(1), of "OLoadBalancer lb" "OLoadBalancer lb"] Cons.prems(2) by auto
  then have new: "recon_New (m_api m) (GetLoadBalancerName m cn svc) lb (svc_uid svc) eas pts svs (m_backoffSteps m) w =
      (Inr (member_of m svc (pts, svs, eas) lb), w1)" "ok w1" "V w1 = V w"
    by (simp_all add: recon_New_def member_of_def GetLoadBalancerName_def prepare_def)
  then show ?case
    using Cons.IH [of w1 "multi_Add (member_of m svc (pts, svs, eas) lb) mrecon"] Cons.prems(2)
    by (simp add: multi_Add_def Multi_def)
qed (simp add: Multi_def)

definition balancers_served :: "'w mgr \<Rightarrow> service \<Rightarrow> (string \<rightharpoonup> port) \<times> server_spec list \<times> ip list \<Rightarrow> engine_view \<Rightarrow> bool" where
  "balancers_served m svc wants v \<longleftrightarrow> distinct (m_loadBalancers m) \<and>
     (\<forall>lb\<in>set (m_loadBalancers m). ev_store v lb = Some (OLoadBalancer lb) \<and> tidy (member_of m svc wants lb) v)"

lemma ensure_converges:
  assumes S: "serving (m_lib m) (m_api m) ok V" and w: "wanted_for m ch svc nodes s = (Inr wants, s0)" and ok: "ok (ms_world s0)"
    and lbs: "balancers_served m svc wants (V (ms_world s0))" and B: "prompt_backoff (m_backoff m) (m_backoffSteps m)"
    and rg: "\<forall>k n j i. range_of (fst wants) (ch_ports ch k n j i)"
  shows "\<exists>st s'. EnsureLoadBalancer m ch cn svc nodes s = Some (Inr st, s') \<and> ok (ms_world s') \<and>
    members_done (m_lib m) (map (member_of m svc wants) (m_loadBalancers m)) (V (ms_world s0)) (V (ms_world s'))"
proof -
  obtain pts svs eas where p: "wants = (pts, svs, eas)" by (cases wants)
  let ?rs = "map (member_of m svc wants) (m_loadBalancers m)"
  obtain w1 where new: "members_loop m (prepare m cn svc) svc eas pts svs (m_loadBalancers m) (Multi []) (ms_world s0) = (Inr (Multi ?rs), w1)"
    "ok w1" "V w1 = V (ms_world s0)"
    using members_loop_serves [OF servingD(5) [OF S] ok, of "m_loadBalancers m" "prepare m cn svc" svc eas pts svs "Multi []"] lbs
    by (auto simp: balancers_served_def p Multi_def)
  let ?s1 = "s0\<lparr>ms_world := w1\<rparr>"
  have rf: "reconciliationForService m ch (prepare m cn svc) svc nodes s = (Inr (Multi ?rs, eas), ?s1)"
    using w new(1) by (simp add: reconciliationForService_def p)
  have ready: "members_ready [''anxccm-svc-uid='' @ svc_uid svc] ?rs (V w1)"
    using lbs new(3) by (auto simp: members_ready_def balancers_served_def member_of_def p comp_def)
  have "\<forall>r\<in>set ?rs. prompt_backoff (m_backoff m) (backoffSteps r)" "\<forall>r\<in>set ?rs. \<forall>k n j. ranges_ok r (ch_ports ch k n j)"
    using B rg by (simp_all add: member_of_def p ranges_ok_def)
  note conv = reconcile_members_converge [OF S new(2) ready this, of 0 "ms_metrics ?s1"]
  obtain run where run: "reconcile_members m (ch_ports ch) 0 ?rs w1 (ms_metrics ?s1) = Some (Inr run)"
    "set (mr_results run) \<subseteq> {None}" "ok (mr_world run)" "members_done (m_lib m) ?rs (V w1) (V (mr_world run))"
    using conv by (elim exE conjE) (rule that)
  let ?s2 = "?s1\<lparr>ms_world := mr_world run, ms_metrics := mr_metrics run\<rparr>"
  have "drain_errors (mr_results run) = None" using run(2) drain_errors_none by blast
  then have rr: "run_Reconcile m ch (Multi ?rs) ?s1 = Some (None, Multi (mr_recons run), ?s2)"
    using run(1) by (simp add: run_Reconcile_def Multi_def)
  obtain srun sts where st: "status_members m (mr_recons run) (mr_world run) (mr_metrics run) = Inr srun" "mr_results srun = map Inr sts"
    "ok (mr_world srun)" "V (mr_world srun) = V (mr_world run)"
    using status_members_serve [OF S run(3)] by blast
  have "\<exists>x. reconciliationStatus m ch (Multi (mr_recons run)) svc ?s2 =
      (Inr x, ?s2\<lparr>ms_world := mr_world srun, ms_metrics := mr_metrics srun\<rparr>)"
    using st(1,2) by (simp add: reconciliationStatus_def run_Status_def Multi_def drain_status_inr)
  then obtain x where "EnsureLoadBalancer m ch cn svc nodes s =
      Some (Inr x, ?s2\<lparr>ms_world := mr_world srun, ms_metrics := mr_metrics srun\<rparr>)"
    using rf rr by (auto simp: EnsureLoadBalancer_def)
  then show ?thesis using st(3,4) run(4) new(3) by simp
qed

lemma ours_cong:
  assumes "tags r' = tags r" and "lb_identifier r' = lb_identifier r"
  shows "ours r' v = ours r v"
proof -
  have t: "tagged_objects r' v = tagged_objects r v" by (simp add: tagged_objects_def assms)
  show ?thesis unfolding ours_from_tagged ours_from_def t assms ..
qed

lemma documented_empty: "documented L r v \<Longrightarrow> ports r = Map.empty \<Longrightarrow> ours r v = {}"
  using reconciled_without_ports by (fastforce simp: documented_def same_config_def)

section \<open>A manager on the linked Engine\<close>

definition linked_mgr :: "ref_world mgr" where
  "linked_mgr = sample_mgr\<lparr>m_api := linked_api\<rparr>"

definition linked_state :: "ref_world mgr_state" where
  "linked_state = \<lparr>ms_world = linked_world, ms_addressManager = Some sample_amgr, ms_metrics = zero_metrics\<rparr>"

definition https_service :: service where
  "https_service = (svc_service False)\<lparr>svc_ports := [\<lparr>sp_name = ''https'', sp_port = 443, sp_nodePort = 42038\<rparr>]\<rparr>"

abbreviation https_choices :: choices where
  "https_choices \<equiv> sample_choices (\<lambda>i. only_https) [(''8.8.8.8'', [443])]"

lemma linked_mgr_parts [simp]:
  "m_lib linked_mgr = ref_lib" "m_api linked_mgr = linked_api" "m_backoff linked_mgr = ref_backoff"
  "m_loadBalancers linked_mgr = [''lb-1'']" "m_backoffSteps linked_mgr = 3" "m_clusterName linked_mgr = ''cluster''"
  by (simp_all add: linked_mgr_def sample_mgr_def)

lemma linked_state_serving:
  "serving (m_lib linked_mgr) (m_api linked_mgr) ref_ok ref_view" "ref_ok (ms_world linked_state)"
  "prompt_backoff (m_backoff linked_mgr) (m_backoffSteps linked_mgr)"
  using linked_serving linked_ok by (simp_all add: linked_state_def linked_st_def check_st_def ref_backoff_prompt)

text \<open>The tidiness of the member depends on its tags and its LoadBalancer only.\<close>

lemma tidy_member:
  assumes "svc_uid svc = ''uid''"
  shows "balancers_served linked_mgr svc wants (ref_view linked_world)"
proof -
  let ?r = "member_of linked_mgr svc wants ''lb-1''"
  have "tags ?r = tags (rcn linked_st)" "lb_identifier ?r = lb_identifier (rcn linked_st)"
    using assms by (simp_all add: member_of_def linked_st_def check_st_def sample_recon_def split: prod.split)
  then have "ours ?r (ref_view linked_world) = ours (rcn linked_st) (ref_view linked_world)"
    by (rule ours_cong)
  moreover have "world linked_st = linked_world" by (simp add: linked_st_def check_st_def)
  ultimately have "tidy ?r (ref_view linked_world)"
    using linked_tidy by (simp add: tidy_def self_contained_def)
  moreover have "ev_store (ref_view linked_world) ''lb-1'' = Some (OLoadBalancer ''lb-1'')" by (simp add: ref_view_def linked_world_def)
  ultimately show ?thesis by (simp add: balancers_served_def)
qed

lemma linked_wants:
  "\<exists>am. wanted_for linked_mgr https_choices https_service [sample_node] linked_state =
    (Inr (map_of only_https, [\<lparr>sv_name = ''node-1'', sv_address = v4InV6Prefix @ [10, 244, 0, 4]\<rparr>], [v4InV6Prefix @ [8, 8, 8, 8]]),
     linked_state\<lparr>ms_addressManager := am\<rparr>)"
proof -
  have "ports_loop (svc_ports https_service) Map.empty = Inr (map_of only_https)"
    by (simp add: https_service_def only_https_def)
  moreover have "servers_loop [sample_node] [] = Inr [\<lparr>sv_name = ''node-1'', sv_address = v4InV6Prefix @ [10, 244, 0, 4]\<rparr>]"
    by code_simp
  moreover have "\<exists>am. AllocateAddresses linked_api sample_ipam (\<lambda>k. (0, 0)) https_service sample_amgr linked_world =
      (Inr [''8.8.8.8''], am, linked_world)"
  proof -
    let ?x = "AllocateAddresses linked_api sample_ipam (\<lambda>k. (0, 0)) https_service sample_amgr linked_world"
    have "fst ?x = Inr [''8.8.8.8'']" "snd (snd ?x) = linked_world" by code_simp+
    then show ?thesis by (metis prod.collapse)
  qed
  moreover have "external_loop linked_mgr https_service [''8.8.8.8''] [] linked_world = (Inr [v4InV6Prefix @ [8, 8, 8, 8]], linked_world)"
    by code_simp
  ultimately show ?thesis
    by (auto simp: wanted_for_def linked_state_def https_service_def svc_service_def linked_mgr_def sample_mgr_def sample_choices_def)
qed

section \<open>The properties\<close>





end
