(* ===== verification/TypeSafe.thy ===== *)
theory TypeSafe
  imports DestroyProps
begin

text \<open>
  The run-time checks of the reconciliation never fail: \<open>Reconcile\<close> does not panic (a nil
  dereference, a \<open>must\<close> function of the stringer) and does not report its coding error, as long as
  the Engine and the library do neither and the Engine's frontends have a load balancer.
\<close>

section \<open>Clean errors\<close>

definition coding_error :: go_error where
  "coding_error = OtherError ''coding error: waitForResources called for Object not implementing lbaasv1.StateRetriever''"

definition clean :: "go_error \<Rightarrow> bool" where
  "clean e \<longleftrightarrow> list_all (\<lambda>x. x \<noteq> coding_error \<and> (case x of Panic p \<Rightarrow> False | _ \<Rightarrow> True)) (chain e)"

lemma clean_wrap [simp]: "clean (wrap_error m e) = clean e"
  by (cases e) (simp_all add: clean_def coding_error_def)

lemma clean_sentinel [simp]: "clean (Sentinel m)"
  by (simp add: clean_def coding_error_def)

lemma clean_reconciliation [simp]:
  "clean ErrResourcesNotDestroyable" "clean ErrLBaaSResourceProgressing" "clean ErrLBaaSResourceRecoveryPending"
  "clean ErrLBaaSResourceFailed"
  by (simp_all add: sentinel_defs)

section \<open>A calm Engine and library\<close>

definition calm_op :: "'w api_op \<Rightarrow> bool" where
  "calm_op f \<longleftrightarrow> (\<forall>obj w e x w'. f obj w = (Some e, x, w') \<longrightarrow> clean e)"

definition calm_list :: "'w api \<Rightarrow> bool" where
  "calm_list A \<longleftrightarrow> (\<forall>ts w e rts w'. api_list A True ts w = (e, rts, w') \<longrightarrow>
     (\<forall>err. e = Some err \<longrightarrow> clean err) \<and> (\<forall>rt\<in>set rts. \<forall>v err v'. rt v = (Inl err, v') \<longrightarrow> clean err))"

definition attached_frontends :: "'w api \<Rightarrow> bool" where
  "attached_frontends A \<longleftrightarrow> (\<forall>i w x w'. api_get A (OFrontend (blank_frontend i)) w = (None, x, w') \<longrightarrow>
     fe_lb (frontend_of (blank_frontend i) x) \<noteq> None)"

definition calm_api :: "'w api \<Rightarrow> bool" where
  "calm_api A \<longleftrightarrow> calm_op (api_get A) \<and> calm_op (api_create A) \<and> calm_op (api_update A) \<and> calm_list A \<and> attached_frontends A"

definition calm_compare :: "'a reconciler \<Rightarrow> bool" where
  "calm_compare cmp \<longleftrightarrow> (\<forall>attrs t x e. cmp attrs t x = Inl e \<longrightarrow> clean e)"

definition calm_search :: "'a searcher \<Rightarrow> bool" where
  "calm_search srch \<longleftrightarrow> (\<forall>attrs x xs e. srch attrs x xs = Inl e \<longrightarrow> clean e)"

definition calm_lib :: "lib \<Rightarrow> bool" where
  "calm_lib L \<longleftrightarrow> calm_compare (cmpBackends L) \<and> calm_compare (cmpFrontends L) \<and> calm_compare (cmpBinds L) \<and>
     calm_compare (cmpServers L) \<and> calm_search (searchBackends L) \<and> calm_search (searchFrontends L)"

lemma calm_opD: "calm_op f \<Longrightarrow> f obj w = (Some e, x, w') \<Longrightarrow> clean e"
  unfolding calm_op_def by blast

lemma calm_apiD:
  assumes "calm_api A"
  shows "api_get A obj w = (Some e, x, w') \<Longrightarrow> clean e" and "api_create A obj w = (Some e, x, w') \<Longrightarrow> clean e"
    and "api_update A obj w = (Some e, x, w') \<Longrightarrow> clean e"
    and "api_list A True ts w = (Some e, rts, w') \<Longrightarrow> clean e"
    and "api_list A True ts w = (oe, rts, w') \<Longrightarrow> rt \<in> set rts \<Longrightarrow> rt v = (Inl e, v') \<Longrightarrow> clean e"
    and "api_get A (OFrontend (blank_frontend i)) w = (None, x, w') \<Longrightarrow> fe_lb (frontend_of (blank_frontend i) x) = None \<Longrightarrow> False"
proof -
  have ops: "calm_op (api_get A)" "calm_op (api_create A)" "calm_op (api_update A)" and l: "calm_list A" and f: "attached_frontends A"
    using assms by (simp_all add: calm_api_def)
  show "api_get A obj w = (Some e, x, w') \<Longrightarrow> clean e" by (rule calm_opD [OF ops(1)])
  show "api_create A obj w = (Some e, x, w') \<Longrightarrow> clean e" by (rule calm_opD [OF ops(2)])
  show "api_update A obj w = (Some e, x, w') \<Longrightarrow> clean e" by (rule calm_opD [OF ops(3)])
  show "api_list A True ts w = (Some e, rts, w') \<Longrightarrow> clean e" using l unfolding calm_list_def by blast
  show "api_list A True ts w = (oe, rts, w') \<Longrightarrow> rt \<in> set rts \<Longrightarrow> rt v = (Inl e, v') \<Longrightarrow> clean e"
    using l unfolding calm_list_def by (elim allE [of _ ts] allE [of _ w]) blast
  show "api_get A (OFrontend (blank_frontend i)) w = (None, x, w') \<Longrightarrow> fe_lb (frontend_of (blank_frontend i) x) = None \<Longrightarrow> False"
    using f unfolding attached_frontends_def by simp
qed

section \<open>Retrieval and steps\<close>

lemma typed_retrieve_clean:
  assumes "calm_api A" and "typed_retrieve L A res g = (Some e, g')"
  shows "clean e"
  using assms(2)
  by (auto simp: typed_retrieve_def get_frontend_def get_backend_def get_bind_def get_server_def Let_def
      split: if_splits prod.splits option.splits dest: calm_apiD(1) [OF assms(1)] calm_apiD(6) [OF assms(1)])

lemma retrieve_loop_clean:
  "calm_api A \<Longrightarrow> \<forall>rt\<in>set rts. \<forall>v err v'. rt v = (Inl err, v') \<longrightarrow> clean err \<Longrightarrow>
   retrieve_loop L A rts g = (Some e, g') \<Longrightarrow> clean e"
proof (induction rts arbitrary: g)
  case (Cons rt rts)
  obtain x w where rt: "rt (g_world g) = (x, w)" by fastforce
  show ?case
  proof (cases x)
    case (Inl err)
    with rt Cons.prems(2) have "clean err" by (metis list.set_intros(1))
    then show ?thesis using Cons.prems(3) rt Inl by auto
  next
    case (Inr res)
    with Cons rt show ?thesis by (auto split: prod.splits option.splits dest: typed_retrieve_clean)
  qed
qed simp

lemma filter_clean:
  assumes "calm_lib L"
  shows "filterBinds L bs ret r = (Inl e, r') \<Longrightarrow> clean e" and "filterServers L ss rs r = (Inl e, r') \<Longrightarrow> clean e"
proof -
  have "calm_search (searchFrontends L)" "calm_search (searchBackends L)" using assms by (simp_all add: calm_lib_def)
  then have s: "searchFrontends L a x xs = Inl e \<Longrightarrow> clean e" "searchBackends L a y ys = Inl e \<Longrightarrow> clean e" for a x xs y ys e
    unfolding calm_search_def by blast+
  show "filterBinds L bs ret r = (Inl e, r') \<Longrightarrow> clean e"
    by (induction bs arbitrary: ret r) (auto simp: Let_def split: sum.splits if_splits dest: s)
  show "filterServers L ss rs r = (Inl e, r') \<Longrightarrow> clean e"
    by (induction ss arbitrary: rs r) (auto split: sum.splits if_splits dest: s)
qed

lemma retrieveState_clean:
  assumes "calm_lib L" and A: "calm_api A" and run: "retrieveState L A s = (Some e, s')"
  shows "clean e"
proof -
  let ?s = "s\<lparr>rcn := reset_recon (rcn s)\<rparr>"
  obtain le oc w where l: "api_list A True (tags (rcn ?s)) (world s) = (le, oc, w)" by (metis prod_cases3)
  show ?thesis
  proof (cases le)
    case (Some err)
    with run l calm_apiD(4) [OF A] show ?thesis by (auto simp: retrieveState_def retrieveResources_def split: if_splits)
  next
    case None
    have "\<forall>rt\<in>set oc. \<forall>v err v'. rt v = (Inl err, v') \<longrightarrow> clean err" using calm_apiD(5) [OF A l] by blast
    note loop = retrieve_loop_clean [OF A this]
    from run l None show ?thesis
      by (auto simp: retrieveState_def retrieveResources_def Let_def split: prod.splits option.splits sum.splits
          dest: loop filter_clean [OF assms(1)])
  qed
qed

lemma reconcile_steps_clean:
  assumes "calm_lib L" and run: "reconcile_steps L rngs r = (Inl e, r')"
  shows "clean e"
proof -
  have "calm_compare (cmpBackends L)" "calm_compare (cmpFrontends L)" "calm_compare (cmpBinds L)" "calm_compare (cmpServers L)"
    using assms(1) by (simp_all add: calm_lib_def)
  then have c: "cmpBackends L a1 t1 x1 = Inl e \<Longrightarrow> clean e" "cmpFrontends L a2 t2 x2 = Inl e \<Longrightarrow> clean e"
    "cmpBinds L a3 t3 x3 = Inl e \<Longrightarrow> clean e" "cmpServers L a4 t4 x4 = Inl e \<Longrightarrow> clean e" for a1 t1 x1 a2 t2 x2 a3 t3 x3 a4 t4 x4 e
    unfolding calm_compare_def by blast+
  have "reconcileBackends L rng q = (Inl e, q') \<Longrightarrow> clean e" "reconcileFrontends L rng q = (Inl e, q') \<Longrightarrow> clean e"
    "reconcileBinds L rng q = (Inl e, q') \<Longrightarrow> clean e" "reconcileServers L rng q = (Inl e, q') \<Longrightarrow> clean e" for rng q q' e
    by (auto simp: reconcileBackends_def reconcileFrontends_def reconcileBinds_def reconcileServers_def
        split: sum.splits prod.splits dest: c)
  then show ?thesis using run by (auto simp: reconcile_steps_def split: prod.splits sum.splits)
qed

lemma update_loop_clean: "calm_api A \<Longrightarrow> update_loop A os w = (Some e, w') \<Longrightarrow> clean e"
  by (induction os arbitrary: w) (auto split: prod.splits option.splits dest: calm_apiD(3))

lemma ReconcileCheck_error_clean:
  assumes "calm_lib L" and "calm_api A" and I: "identifier_contract L" and run: "ReconcileCheck L A rngs s = (Inl e, s')"
  shows "clean e"
proof -
  have "updateFailedResources L A t = (Some err, t') \<Longrightarrow> clean err" for t t' err
    using mustStringify_total [OF I, of _ "existingFailed (rcn t)"] update_loop_clean [OF assms(2)]
    by (auto simp: updateFailedResources_def split: sum.splits prod.splits)
  then show ?thesis using run
    by (auto simp: ReconcileCheck_def split: prod.splits option.splits if_splits
        dest: retrieveState_clean [OF assms(1,2)] reconcile_steps_clean [OF assms(1)])
qed

section \<open>Waiting\<close>

text \<open>The objects that \<open>waitForResources\<close> expects: those with a state.\<close>

definition stateful :: "object \<Rightarrow> bool" where
  "stateful x \<longleftrightarrow> object_state x \<noteq> None"

lemma stateful_refreshed [simp]: "stateful (refreshed obj obj') = stateful obj"
  by (simp add: stateful_def)

lemma wait_pass_clean:
  assumes I: "identifier_contract L"
  shows "wait_pass L A first os seen nr fl w = (res, seen', w') \<Longrightarrow> \<forall>x\<in>set os. stateful x \<Longrightarrow>
    \<forall>x\<in>set seen. stateful x \<Longrightarrow> (\<forall>e. res \<noteq> Inl e) \<and> (\<forall>x\<in>set seen'. stateful x)"
proof (induction os arbitrary: seen nr fl w)
  case (Cons obj os)
  have so: "stateful obj" using Cons.prems(2) by simp
  then obtain st where st: "object_state obj = Some st" by (auto simp: stateful_def)
  have go: ?case if "wait_pass L A first os (seen @ [x]) nr' fl' v = (res, seen', w')" "stateful x" for x nr' fl' v
    using Cons.IH [OF that(1)] that(2) Cons.prems(2,3) by simp
  obtain e obj' v where g: "api_get A obj w = (e, obj', v)" by (cases "api_get A obj w")
  let ?cur = "refreshed obj obj'"
  have cur: "stateful ?cur" using so by simp
  obtain str where str: "mustStringifyObject L ?cur = Inr str" using mustStringify_total [OF I] by metis
  show ?case
  proof (cases "stateOK L st \<and> \<not> isResourceUpdating L obj \<and> \<not> first")
    case True
    with Cons.prems(1) st have "wait_pass L A first os (seen @ [obj]) nr fl w = (res, seen', w')" by simp
    then show ?thesis using go so by blast
  next
    case False
    with Cons.prems(1) st g str have "\<exists>nr' fl'. wait_pass L A first os (seen @ [?cur]) nr' fl' v = (res, seen', w')"
      by (cases e) (auto simp: Let_def split: if_splits)
    then show ?thesis using go [OF _ cur] by blast
  qed
qed auto

lemma wait_condition_clean:
  assumes I: "identifier_contract L" and "wait_condition L A s = (res, s')" and "\<forall>x\<in>set (w_objects s). stateful x"
  shows "(\<forall>e. res = Inl e \<longrightarrow> clean e) \<and> (\<forall>x\<in>set (w_objects s'). stateful x)"
proof -
  obtain r seen w where p: "wait_pass L A (firstPass s) (w_objects s) [] [] [] (w_world s) = (r, seen, w)"
    by (cases "wait_pass L A (firstPass s) (w_objects s) [] [] [] (w_world s)")
  have m: "(\<forall>e. r \<noteq> Inl e)" "\<forall>x\<in>set seen. stateful x" using wait_pass_clean [OF I p assms(3)] by simp_all
  have str: "mustStringifyObjects L os \<noteq> Inl e" for os e by (rule mustStringify_total [OF I, of undefined os]) simp
  show ?thesis
    using m p assms(2) by (cases r) (auto simp: wait_condition_def Let_def str split: sum.splits if_splits)
qed

lemma waitForResources_clean:
  assumes I: "identifier_contract L" and B: "backoff_contract timeout B" and "clean timeout"
    and run: "waitForResources L A B objs s = (Some e, s')" and objs: "\<forall>x\<in>set objs. stateful x"
  shows "clean e"
proof -
  let ?s0 = "\<lparr>w_world = world s, w_objects = objs, firstPass = True\<rparr>"
  obtain ws where b: "B (backoffSteps (rcn s)) (wait_condition L A) ?s0 = (Some e, ws)"
    using run by (auto simp: waitForResources_def split: prod.splits)
  then have "polled timeout (wait_condition L A) ?s0 (Some e) ws"
    using B unfolding backoff_contract_def by (metis fst_conv snd_conv)
  moreover have "\<forall>x\<in>set (w_objects t). stateful x \<Longrightarrow> \<forall>e. err = Some e \<longrightarrow> clean e"
    if "polled timeout (wait_condition L A) t err t'" for t err t'
    using that
  proof (induction rule: polled.induct)
    case (polled_again t s1 err t')
    then show ?case using wait_condition_clean [OF I polled_again.hyps(1)] by simp
  next
    case (polled_error t e t')
    then show ?case using wait_condition_clean [OF I polled_error(1)] by simp
  qed (use assms(3) in simp_all)
  ultimately show ?thesis using objs by fastforce
qed

section \<open>Creating and destroying\<close>

lemma create_loop_clean:
  assumes "calm_api A"
  shows "create_loop L A os created s = (err, created', s') \<Longrightarrow> \<forall>x\<in>set os \<union> set created. stateful x \<Longrightarrow>
    (\<forall>e. err = Some e \<longrightarrow> clean e) \<and> (\<forall>x\<in>set created'. stateful x)"
proof (induction os arbitrary: created s)
  case (Cons obj os)
  obtain e obj' w where c: "api_create A obj (world s) = (e, obj', w)" by (cases "api_create A obj (world s)")
  have ref: "stateful (refreshed obj obj')" using Cons.prems(2) by simp
  show ?case
  proof (cases e)
    case (Some err)
    then show ?thesis using Cons.prems c ref calm_apiD(2) [OF assms c [unfolded Some]]
      by auto
  next
    case None
    obtain te s1 where t: "tagResource L A (refreshed obj obj') (s\<lparr>world := w\<rparr>) = (te, s1)" by fastforce
    have te: "clean x" if "te = Some x" for x
    proof -
      have "tag_loop A i ts v = (Some x, v') \<Longrightarrow> clean x" for i ts v v' x
        by (induction ts arbitrary: v) (auto split: prod.splits option.splits dest: calm_apiD(2) [OF assms])
      then show ?thesis using t that by (auto simp: tagResource_def Let_def split: prod.splits)
    qed
    show ?thesis
    proof (cases te)
      case (Some x)
      with Cons.prems c None t ref te [OF Some] show ?thesis by auto
    next
      case no: None
      with Cons.prems(1) c None t have "create_loop L A os (created @ [refreshed obj obj']) (count_created s1) = (err, created', s')"
        by simp
      from Cons.IH [OF this] Cons.prems(2) ref show ?thesis by simp
    qed
  qed
qed simp

lemma destroy_pass_clean:
  assumes I: "identifier_contract L"
  shows "destroy_pass L A os new allow s = (pe, allow', s') \<Longrightarrow> pe \<noteq> PassPanic p"
proof (induction os arbitrary: new allow s)
  case (Cons obj os)
  obtain err obj' w where d: "api_destroy A obj (world s) = (err, obj', w)" by (cases "api_destroy A obj (world s)")
  obtain str where "mustStringifyObject L (refreshed obj obj') = Inr str" using mustStringify_total [OF I] by metis
  with d Cons show ?case
    by (auto simp: handleDestroyError_def Let_def split: option.splits if_splits)
qed auto

lemma destroy_loop_clean:
  assumes I: "identifier_contract L" and run: "destroy_loop L A os allow s = Some y"
  shows "\<forall>p. fst y \<noteq> Inl p"
proof -
  let ?P = "\<lambda>L A os allow s y. identifier_contract L \<longrightarrow> (\<forall>p. fst y \<noteq> Inl p)"
  have "?P L A os allow s y"
  proof (rule destroy_loop.raw_induct [where P = ?P, OF _ run], goal_cases)
    case (1 f L A os allow s y)
    obtain pe allow' s' where p: "destroy_pass L A os [] False s = (pe, allow', s')"
      by (cases "destroy_pass L A os [] False s")
    show ?case using 1(1) [of L A _ allow' s' y] 1(2) p destroy_pass_clean [OF _ p]
      by (cases pe) (auto split: if_splits)
  qed
  with I show ?thesis by blast
qed

section \<open>A round and the loop\<close>

lemma steps_stateful:
  assumes "reconcile_steps L rngs r = (Inr (cr, de), r')" and "x \<in> set cr"
  shows "stateful x"
  using assms by (auto simp: reconcile_steps_def reconcileBackends_def reconcileFrontends_def reconcileBinds_def
      reconcileServers_def stateful_def split: sum.splits prod.splits)

text \<open>The state arrays hold objects with a state, in every outcome of the retrieval.\<close>

definition progress_ok :: "recon \<Rightarrow> bool" where
  "progress_ok r \<longleftrightarrow> (\<forall>x\<in>set (existingProgressing r). stateful x)"

lemma progress_sort [simp]: "progress_ok r \<Longrightarrow> progress_ok (sortObjectIntoStateArray L obj r)"
  by (auto simp: progress_ok_def sortObjectIntoStateArray_def stateful_def split: option.splits)

lemma progress_update [simp]:
  "progress_ok (r\<lparr>frontends := fs\<rparr>) = progress_ok r" "progress_ok (r\<lparr>backends := bs\<rparr>) = progress_ok r"
  "progress_ok (r\<lparr>binds := bis\<rparr>) = progress_ok r" "progress_ok (r\<lparr>servers := ss\<rparr>) = progress_ok r"
  "progress_ok (storePublicAddress a r) = progress_ok r"
  by (simp_all add: progress_ok_def storePublicAddress_def Let_def)

lemma filter_progress:
  "filterBinds L bs ret r = (res, r') \<Longrightarrow> progress_ok r \<Longrightarrow> progress_ok r'"
  "filterServers L ss rs r = (res', r') \<Longrightarrow> progress_ok r \<Longrightarrow> progress_ok r'"
proof -
  show "filterBinds L bs ret r = (res, r') \<Longrightarrow> progress_ok r \<Longrightarrow> progress_ok r'"
  proof (induction bs arbitrary: ret r)
    case (Cons b bs)
    then show ?case by (simp add: Let_def split: sum.splits if_splits)
  qed simp
  show "filterServers L ss rs r = (res', r') \<Longrightarrow> progress_ok r \<Longrightarrow> progress_ok r'"
  proof (induction ss arbitrary: rs r)
    case (Cons s ss)
    then show ?case by (simp split: sum.splits if_splits)
  qed simp
qed

lemma typed_retrieve_progress:
  "typed_retrieve L A res g = (e, g') \<Longrightarrow> progress_ok (g_recon g) \<Longrightarrow> progress_ok (g_recon g')"
  by (auto simp: typed_retrieve_def get_frontend_def get_backend_def get_bind_def get_server_def Let_def
      split: if_splits prod.splits option.splits)

lemma retrieve_loop_progress:
  "retrieve_loop L A rts g = (e, g') \<Longrightarrow> progress_ok (g_recon g) \<Longrightarrow> progress_ok (g_recon g')"
proof (induction rts arbitrary: g)
  case (Cons rt rts)
  obtain x w where rt: "rt (g_world g) = (x, w)" by fastforce
  show ?case
  proof (cases x)
    case (Inl err)
    then show ?thesis using Cons.prems rt by auto
  next
    case (Inr res)
    obtain e1 g1 where t: "typed_retrieve L A res (g\<lparr>g_world := w\<rparr>) = (e1, g1)" by fastforce
    have "progress_ok (g_recon g1)" using typed_retrieve_progress [OF t] Cons.prems(2) by simp
    with Cons rt Inr t show ?thesis by (cases e1) auto
  qed
qed simp

lemma retrieveState_progress: "retrieveState L A s = (e, s') \<Longrightarrow> progress_ok (rcn s')"
proof -
  assume run: "retrieveState L A s = (e, s')"
  have r0: "progress_ok (reset_recon (rcn s))" by (simp add: progress_ok_def reset_recon_def)
  obtain le oc w where l: "api_list A True (tags (reset_recon (rcn s))) (world s) = (le, oc, w)" by (metis prod_cases3)
  let ?g0 = "\<lparr>g_world = w, g_recon = reset_recon (rcn s), allBinds = [], allServers = []\<rparr>"
  obtain re g where loop: "retrieve_loop L A oc ?g0 = (re, g)" by fastforce
  have g: "progress_ok (g_recon g)" using retrieve_loop_progress [OF loop] r0 by simp
  obtain fb r1 where fb: "filterBinds L (allBinds g) [] (g_recon g) = (fb, r1)" by fastforce
  have r1: "progress_ok r1" by (rule filter_progress(1) [OF fb g])
  have srv: "progress_ok r2" if "filterServers L (allServers g) [] (r1\<lparr>binds := bs\<rparr>) = (fs, r2)" for bs fs r2
    using filter_progress(2) [OF that] r1 by simp
  show ?thesis using run l loop fb r0 g r1 srv
    by (auto simp: retrieveState_def retrieveResources_def Let_def split: option.splits prod.splits sum.splits)
qed

lemma ReconcileCheck_progress: "ReconcileCheck L A rngs s = (res, s') \<Longrightarrow> progress_ok (rcn s')"
proof -
  assume run: "ReconcileCheck L A rngs s = (res, s')"
  obtain e s1 where ret: "retrieveState L A s = (e, s1)" by fastforce
  have p: "progress_ok (rcn s1)" by (rule retrieveState_progress [OF ret])
  have u: "rcn t = rcn s1" if "updateFailedResources L A s1 = (e', t)" for e' t
    using that by (auto simp: updateFailedResources_def split: sum.splits prod.splits)
  obtain x r where st: "reconcile_steps L rngs (rcn s1) = (x, r)" by fastforce
  have r: "progress_ok r" using p same_objects_fields(11) [OF reconcile_steps_objects [OF st]] by (simp add: progress_ok_def)
  show ?thesis
  proof (cases e)
    case (Some err)
    with run ret p show ?thesis by (simp add: ReconcileCheck_def)
  next
    case None
    obtain e' t where up: "updateFailedResources L A s1 = (e', t)" by fastforce
    have "progress_ok (rcn t)" using u [OF up] p by simp
    with None run ret p r st up show ?thesis
      by (cases e') (auto simp: ReconcileCheck_def split: if_splits)
  qed
qed

lemma reconcile_round_clean:
  assumes "calm_lib L" and "calm_api A" and I: "identifier_contract L" and "backoff_contract timeout B" and "clean timeout"
    and run: "reconcile_round L A B rngs s = Some (Return (Some e), s')"
  shows "clean e"
proof -
  note wait = waitForResources_clean [OF I assms(4,5)]
  have str: "mustStringifyObjects L os \<noteq> Inl e" for os e by (rule mustStringify_total [OF I, of undefined os]) simp
  obtain res s1 where chk: "ReconcileCheck L A rngs s = (res, s1)" by fastforce
  show ?thesis
  proof (cases res)
    case (Inl err)
    have "\<forall>x\<in>set (existingProgressing (rcn s1)). stateful x"
      using ReconcileCheck_progress [OF chk] by (simp add: progress_ok_def)
    note w = wait [OF _ this]
    have c: "clean err" by (rule ReconcileCheck_error_clean [OF assms(1-3) chk [unfolded Inl]])
    obtain ss where "mustStringifyObjects L (existingProgressing (rcn s1)) = Inr ss"
      using str by (cases "mustStringifyObjects L (existingProgressing (rcn s1))") auto
    with run chk Inl c show ?thesis
      by (auto simp: reconcile_round_def split: if_splits prod.splits option.splits dest: w)
  next
    case (Inr lists)
    obtain cr de where l: "lists = (cr, de)" by fastforce
    have "\<forall>x\<in>set cr. stateful x" using ReconcileCheck_steps [of L A rngs s cr de s1] chk Inr l steps_stateful by blast
    then have "create_branch L A B cr s1 = (Return (Some e), s2) \<Longrightarrow> clean e" for s2
      using create_loop_clean [OF assms(2)] wait
      by (auto simp: create_branch_def str split: prod.splits option.splits sum.splits if_splits)
    moreover have "destroy_branch L A de s1 = Some (Return (Some e), s2) \<Longrightarrow> clean e" for s2
      using destroy_loop_clean [OF I]
      by (fastforce simp: destroy_branch_def Let_def str split: prod.splits option.splits sum.splits if_splits)
    ultimately show ?thesis using run chk Inr l by (auto simp: reconcile_round_def split: if_splits)
  qed
qed

lemma Reconcile_from_clean:
  assumes "calm_lib L" and "calm_api A" and "identifier_contract L" and "backoff_contract timeout B" and "clean timeout"
    and run: "Reconcile_from L A B orders n s = Some y" and err: "fst y = Some e"
  shows "clean e"
proof -
  let ?P = "\<lambda>L A B orders n s y. calm_lib L \<longrightarrow> calm_api A \<longrightarrow> identifier_contract L \<longrightarrow> backoff_contract timeout B \<longrightarrow>
    fst y = Some e \<longrightarrow> clean e"
  have "?P L A B orders n s y"
  proof (rule Reconcile_from.raw_induct [where P = ?P, OF _ run], goal_cases)
    case (1 f L A B orders n s y)
    then obtain c s1 where r: "reconcile_round L A B (orders n) s = Some (c, s1)"
      by (auto split: option.splits)
    show ?case
    proof (intro impI)
      assume h: "calm_lib L" "calm_api A" "identifier_contract L" "backoff_contract timeout B" "fst y = Some e"
      show "clean e"
      proof (cases c)
        case Again
        with 1 r h show ?thesis by auto
      next
        case (Return res)
        with 1(2) r h(5) have "res = Some e" by auto
        with reconcile_round_clean [OF h(1-4) assms(5)] r Return show ?thesis by blast
      qed
    qed
  qed
  with assms show ?thesis by blast
qed

section \<open>The property\<close>

text \<open>
  C7. \<open>Reconcile\<close> does not go wrong: whatever objects and errors the Engine sends (errors that are
  values, frontends with a load balancer, however incomplete otherwise), no run ends in a panic, by a
  nil dereference or by one of the \<open>must\<close> functions, and none in the error for a coding mistake.
\<close>

theorem Reconcile_no_panic:
  assumes "calm_lib L" and "identifier_contract L" and "calm_api A" and "backoff_contract timeout B" and "clean timeout"
    and "Reconcile L A B orders s = Some (Some e, s')"
  shows "clean e"
  using Reconcile_from_clean [OF assms(1,3,2,4,5) assms(6) [unfolded Reconcile_def]] by simp

text \<open>The witness: an Engine that accepts nothing, and gives out no frontend without a load balancer.\<close>

definition guarded_api :: "ref_world api" where
  "guarded_api = ref_api\<lparr>
     api_get := (\<lambda>obj w. case ref_get obj w of (e, x, w') \<Rightarrow>
       (case x of
          OFrontend f \<Rightarrow> if fe_lb f = None then (Some (HTTPError 500), obj, w') else (e, x, w')
        | _ \<Rightarrow> (e, x, w'))),
     api_create := (\<lambda>obj w. (Some (HTTPError 400), obj, w))\<rparr>"

lemma guarded_calm: "calm_api guarded_api"
proof -
  have g: "ref_get obj w = (e, x, w') \<Longrightarrow> (e = None \<and> same_type obj x) \<or> e = Some (HTTPError 404)" for obj w e x w'
    by (auto simp: ref_get_def find_Some_iff split: option.splits)
  have c: "clean (HTTPError n)" for n by (simp add: clean_def coding_error_def)
  have "calm_op (api_get guarded_api)" unfolding calm_op_def
    by (auto simp: guarded_api_def c split: prod.splits object.splits if_splits dest: g)
  moreover have "calm_op (api_create guarded_api)" "calm_op (api_update guarded_api)"
    by (auto simp: calm_op_def guarded_api_def ref_api_def ref_update_def c)
  moreover have "calm_list guarded_api"
    by (auto simp: calm_list_def guarded_api_def ref_api_def ref_list_def c Let_def split: if_splits)
  moreover have "attached_frontends guarded_api"
  proof -
    have "fe_lb (frontend_of (blank_frontend i) x) \<noteq> None"
      if "api_get guarded_api (OFrontend (blank_frontend i)) w = (None, x, w')" for i w x w'
    proof -
      obtain e y v where get: "ref_get (OFrontend (blank_frontend i)) w = (e, y, v)" by (metis prod_cases3)
      with that have "e = None" by (auto simp: guarded_api_def split: object.splits if_splits)
      with g [OF get] obtain f where "y = OFrontend f" by (cases y) auto
      with that get show ?thesis by (auto simp: guarded_api_def split: if_splits)
    qed
    then show ?thesis unfolding attached_frontends_def by blast
  qed
  ultimately show ?thesis by (simp add: calm_api_def)
qed

lemma ref_lib_calm: "calm_lib ref_lib"
  by (auto simp: calm_lib_def calm_compare_def calm_search_def ref_lib_def ref_reconcile_def ref_search_def
      clean_def coding_error_def split: if_splits)

theorem Reconcile_no_panic_witness:
  "\<exists>e s'. run_reconcile guarded_api http_ports empty_world = Some (Some e, s') \<and> clean e \<and> as_http e = Some 400"
proof -
  let ?run = "run_reconcile guarded_api http_ports empty_world"
  have "map_option (\<lambda>(e, s). map_option as_http e) ?run = Some (Some (Some 400))" by code_simp
  then obtain e s' where run: "?run = Some (Some e, s')" and "as_http e = Some 400" by auto
  moreover have "clean ErrWaitTimeout" by (simp add: ErrWaitTimeout_def)
  ultimately show ?thesis
    using Reconcile_no_panic [OF ref_lib_calm ref_lib_identifier guarded_calm ref_backoff_contract] run
    unfolding run_reconcile_def by blast
qed

end
