(* ===== verification/NetRound.thy ===== *)
theory NetRound
  imports GoNet
begin

text \<open>
  Printing an address and parsing it again: \<open>net.ParseIP\<close> reads back what \<open>IP.String\<close> writes, for
  the dotted form and for the groups of IPv6 with their ellipsis.
\<close>

section \<open>Dotted addresses\<close>

lemma digit_char: "n < 10 \<Longrightarrow> is_digit (char_of (48 + n)) \<and> digit_val (char_of (48 + n)) = n"
  by (simp add: is_digit_def digit_val_def of_char_of)

text \<open>One octet is read digit by digit.\<close>

lemma parse4_octet:
  "n < 256 \<Longrightarrow> parse4_fields (string_of_nat n @ rest) 0 0 acc = parse4_fields rest n (length (string_of_nat n)) acc"
proof (induction n arbitrary: rest rule: string_of_nat.induct)
  case (1 n)
  show ?case
  proof (cases "n < 10")
    case True
    then show ?thesis using digit_char [OF True] by (subst string_of_nat.simps) (simp add: string_of_nat.simps [of n])
  next
    case False
    let ?d = "char_of (48 + n mod 10) :: char"
    have s: "string_of_nat n = string_of_nat (n div 10) @ [?d]" using False by (subst string_of_nat.simps) simp
    have d: "is_digit ?d" "digit_val ?d = n mod 10" using digit_char [of "n mod 10"] by simp_all
    have "n div 10 * 10 + n mod 10 = n" by simp
    moreover have "n div 10 \<noteq> 0" "n div 10 < 256" using False "1.prems" by (simp_all add: div_eq_0_iff)
    ultimately show ?thesis
      using "1.IH" [OF False, of "?d # rest"] "1.prems" d by (simp add: s Let_def)
  qed
qed

lemma parse4_dot:
  "n < 256 \<Longrightarrow> length acc < 3 \<Longrightarrow> cs \<noteq> [] \<Longrightarrow>
   parse4_fields (string_of_nat n @ CHR ''.'' # cs) 0 0 acc = parse4_fields cs 0 0 (acc @ [of_nat n])"
  by (simp add: parse4_octet is_digit_def)

lemma parse4_end: "n < 256 \<Longrightarrow> length acc = 3 \<Longrightarrow> parse4_fields (string_of_nat n) 0 0 acc = Some (acc @ [of_nat n])"
  using parse4_octet [of n "[]" acc] by simp

lemma byte_bound: "unat (b :: byte) < 256"
  using unsigned_less [of b] by simp

lemma parse_dotted:
  assumes "length q = 4"
  shows "parse_ipv4 (dotted q) = Some q"
proof -
  obtain a b c d where q: "q = [a, b, c, d]" using assms by (auto simp: numeral_eq_Suc length_Suc_conv)
  show ?thesis
    unfolding q parse_ipv4_def dotted_def
    by (simp add: byte_bound parse4_dot parse4_end)
qed

lemma addr_kind_first:
  "list_all (\<lambda>c. c \<noteq> CHR ''.'' \<and> c \<noteq> CHR '':'' \<and> c \<noteq> CHR ''%'') xs \<Longrightarrow> addr_kind (xs @ ys) = addr_kind ys"
  by (induction xs) auto

lemma string_of_nat_digits: "list_all is_digit (string_of_nat n)"
proof (induction n rule: string_of_nat.induct)
  case (1 n)
  then show ?case using digit_char [of n] digit_char [of "n mod 10"] by (subst string_of_nat.simps) simp
qed

lemma dotted_kind: "length q = 4 \<Longrightarrow> addr_kind (dotted q) = Some (CHR ''.'')"
proof -
  assume "length q = 4"
  then obtain a b c d where q: "q = [a, b, c, d]" by (auto simp: numeral_eq_Suc length_Suc_conv)
  have "list_all (\<lambda>c. c \<noteq> CHR ''.'' \<and> c \<noteq> CHR '':'' \<and> c \<noteq> CHR ''%'') (string_of_nat (unat a))"
    using string_of_nat_digits [of "unat a"] by (auto simp: list_all_iff is_digit_def)
  then show ?thesis by (simp add: q dotted_def addr_kind_first)
qed

lemma parseIP_dotted: "length q = 4 \<Longrightarrow> parseIP (dotted q) = v4InV6Prefix @ q"
  by (simp add: parseIP_def parse_addr_def dotted_kind parse_dotted)

section \<open>Groups of hexadecimal digits\<close>

lemma hex_digit_val [simp]: "n < 16 \<Longrightarrow> hex_val (hex_digit n) = Some n"
  by (auto simp: hex_val_def hex_digit_def of_char_of)

lemma hex_group_string:
  "off + length (hex_string n) \<le> 4 \<Longrightarrow>
   hex_group (hex_string n @ rest) off acc = hex_group rest (off + length (hex_string n)) (acc * 16 ^ length (hex_string n) + n)"
proof (induction n arbitrary: rest rule: hex_string.induct)
  case (1 n)
  show ?case
  proof (cases "n < 16")
    case True
    with "1.prems" show ?thesis by (simp add: hex_string.simps [of n])
  next
    case False
    let ?d = "hex_digit (n mod 16)"
    have s: "hex_string n = hex_string (n div 16) @ [?d]" using False by (subst hex_string.simps) simp
    have "n div 16 * 16 + n mod 16 = n" by simp
    then show ?thesis
      using "1.IH" [OF False, of "?d # rest"] "1.prems" by (simp add: s algebra_simps)
  qed
qed

lemma hex_string_length: "n < 16 ^ k \<Longrightarrow> k \<noteq> 0 \<Longrightarrow> length (hex_string n) \<le> k"
proof (induction n arbitrary: k rule: hex_string.induct)
  case (1 n)
  show ?case
  proof (cases "n < 16")
    case True
    with "1.prems" show ?thesis by (simp add: hex_string.simps [of n])
  next
    case False
    obtain j where k: "k = Suc j" using "1.prems"(2) by (cases k) auto
    with False "1.prems" have "j \<noteq> 0" "n div 16 < 16 ^ j" by (auto simp: less_mult_imp_div_less algebra_simps intro: ccontr)
    with "1.IH" [OF False, of j] k False show ?thesis by (subst hex_string.simps) simp
  qed
qed

lemma hex_string_nonempty [simp]: "hex_string n \<noteq> []"
  by (subst hex_string.simps) simp

lemma hex_string_digits: "list_all (\<lambda>c. hex_val c \<noteq> None) (hex_string n)"
proof (induction n rule: hex_string.induct)
  case (1 n)
  then show ?case by (subst hex_string.simps) simp
qed

lemma hex_group_read:
  assumes "g < 65536" and "rest = [] \<or> hex_val (hd rest) = None"
  shows "\<exists>off. hex_group (hex_string g @ rest) 0 0 = Some (g, off, rest) \<and> off \<noteq> 0"
proof -
  have "length (hex_string g) \<le> 4" using hex_string_length [of g 4] assms(1) by simp
  then have "hex_group (hex_string g @ rest) 0 0 = hex_group rest (length (hex_string g)) g"
    using hex_group_string [of 0 g rest 0] by simp
  also have "\<dots> = Some (g, length (hex_string g), rest)" using assms(2) by (cases rest) auto
  finally show ?thesis by simp
qed

section \<open>Lists of groups\<close>

definition ungroup :: "nat \<Rightarrow> byte list" where
  "ungroup g = [of_nat (g div 256), of_nat g]"

definition joined :: "nat list \<Rightarrow> string" where
  "joined gs = join_with '':'' (map hex_string gs)"

lemma joined_simps:
  "joined [] = []" "joined [g] = hex_string g" "gs \<noteq> [] \<Longrightarrow> joined (g # gs) = hex_string g @ CHR '':'' # joined gs"
  by (simp_all add: joined_def join_with_Cons)

lemma joined_hd:
  assumes "gs \<noteq> []"
  shows "joined gs \<noteq> [] \<and> hex_val (hd (joined gs)) \<noteq> None \<and> hd (joined gs) \<noteq> CHR '':''"
proof -
  obtain g rest where gs: "gs = g # rest" using assms by (cases gs) auto
  obtain c cs where c: "hex_string g = c # cs" using hex_string_nonempty by (cases "hex_string g") auto
  then have v: "hex_val c \<noteq> None" using hex_string_digits [of g] by (simp add: list_all_iff)
  then have "c \<noteq> CHR '':''" by (auto simp: hex_val_def)
  with c v show ?thesis by (cases "rest = []") (auto simp: gs joined_simps)
qed

text \<open>One group that is followed by another one.\<close>

lemma parse6_group:
  assumes "g < 65536" and "length out < 16" and "cs \<noteq> []" and "hd cs \<noteq> CHR '':''"
  shows "parse6_loop (hex_string g @ CHR '':'' # cs) out ell = parse6_loop cs (out @ ungroup g) ell"
proof -
  obtain off where "hex_group (hex_string g @ CHR '':'' # cs) 0 0 = Some (g, off, CHR '':'' # cs)" "off \<noteq> 0"
    using hex_group_read [OF assms(1), of "CHR '':'' # cs"] by (auto simp: hex_val_def)
  then show ?thesis using assms by (subst parse6_loop.simps) (simp add: Let_def ungroup_def)
qed

lemma parse6_last:
  assumes "g < 65536" and "length out < 16"
  shows "parse6_loop (hex_string g) out ell = Some (out @ ungroup g, ell, [])"
proof -
  obtain off where "hex_group (hex_string g) 0 0 = Some (g, off, [])" "off \<noteq> 0"
    using hex_group_read [OF assms(1), of "[]"] by auto
  then show ?thesis using assms by (subst parse6_loop.simps) (simp add: Let_def ungroup_def)
qed

text \<open>The group before the ellipsis.\<close>

lemma parse6_ellipsis:
  assumes "g < 65536" and "length out < 16"
  shows "parse6_loop (hex_string g @ CHR '':'' # CHR '':'' # cs) out None =
    (if cs = [] then Some (out @ ungroup g, Some (length out + 2), []) else parse6_loop cs (out @ ungroup g) (Some (length out + 2)))"
proof -
  obtain off where "hex_group (hex_string g @ CHR '':'' # CHR '':'' # cs) 0 0 = Some (g, off, CHR '':'' # CHR '':'' # cs)" "off \<noteq> 0"
    using hex_group_read [OF assms(1), of "CHR '':'' # CHR '':'' # cs"] by (auto simp: hex_val_def)
  then show ?thesis using assms by (subst parse6_loop.simps) (simp add: Let_def ungroup_def)
qed

lemma length_ungroup [simp]: "length (ungroup g) = 2"
  by (simp add: ungroup_def)

lemma length_ungroups [simp]: "length (concat (map ungroup gs)) = 2 * length gs"
  by (induction gs) simp_all

lemma parse6_joined:
  "gs \<noteq> [] \<Longrightarrow> \<forall>g\<in>set gs. g < 65536 \<Longrightarrow> length out + 2 * length gs \<le> 16 \<Longrightarrow>
   parse6_loop (joined gs) out ell = Some (out @ concat (map ungroup gs), ell, [])"
proof (induction gs arbitrary: out)
  case (Cons g gs)
  show ?case
  proof (cases "gs = []")
    case True
    with Cons.prems show ?thesis by (simp add: joined_simps parse6_last)
  next
    case False
    with Cons joined_hd [OF False] show ?thesis by (simp add: joined_simps parse6_group)
  qed
qed simp

lemma parse6_joined_ellipsis:
  "gs \<noteq> [] \<Longrightarrow> \<forall>g\<in>set gs. g < 65536 \<Longrightarrow> length out + 2 * length gs \<le> 16 \<Longrightarrow>
   parse6_loop (joined gs @ CHR '':'' # CHR '':'' # cs) out None =
     (let out' = out @ concat (map ungroup gs) in
      if cs = [] then Some (out', Some (length out'), []) else parse6_loop cs out' (Some (length out')))"
proof (induction gs arbitrary: out)
  case (Cons g gs)
  show ?case
  proof (cases "gs = []")
    case True
    with Cons.prems show ?thesis by (simp add: joined_simps parse6_ellipsis)
  next
    case False
    have "hd (joined gs @ x) = hd (joined gs)" for x using joined_hd [OF False] by simp
    with False Cons joined_hd [OF False] show ?thesis by (simp add: joined_simps parse6_group)
  qed
qed simp

section \<open>The longest run of zero groups\<close>

lemma zero_run_take: "l \<le> zero_run gs \<Longrightarrow> l \<le> length gs \<and> take l gs = replicate l 0"
proof (induction gs arbitrary: l)
  case (Cons g gs)
  show ?case
  proof (cases l)
    case (Suc k)
    with Cons.prems have "g = 0" "k \<le> zero_run gs" by (auto split: if_splits)
    with Cons.IH [of k] Suc show ?thesis by simp
  qed simp
qed simp

lemma best_run_spec:
  "best_run gs k best = best \<or>
   (\<exists>i. fst (best_run gs k best) = k + i \<and> 2 \<le> snd (best_run gs k best) \<and> snd (best_run gs k best) \<le> zero_run (drop i gs))"
proof (induction gs k best rule: best_run.induct)
  case (2 g gs k best)
  let ?b = "if zero_run (g # gs) \<ge> 2 \<and> zero_run (g # gs) > snd best then (k, zero_run (g # gs)) else best"
  have eq: "best_run (g # gs) k best = best_run gs (Suc k) ?b" by (simp add: Let_def)
  show ?case
    using "2.IH" [OF refl]
  proof
    assume "best_run gs (Suc k) ?b = ?b"
    then show ?thesis unfolding eq by (cases "?b = best") (auto split: if_splits intro: exI [of _ 0])
  next
    assume "\<exists>i. fst (best_run gs (Suc k) ?b) = Suc k + i \<and> 2 \<le> snd (best_run gs (Suc k) ?b) \<and>
        snd (best_run gs (Suc k) ?b) \<le> zero_run (drop i gs)"
    then obtain i where "fst (best_run gs (Suc k) ?b) = Suc k + i" "2 \<le> snd (best_run gs (Suc k) ?b)"
      "snd (best_run gs (Suc k) ?b) \<le> zero_run (drop i gs)" by blast
    then show ?thesis unfolding eq by (intro disjI2 exI [of _ "Suc i"]) simp
  qed
qed simp

section \<open>The round trip\<close>

lemma ungroup_byte: "ungroup (unat a * 256 + unat b) = [a, b :: byte]"
proof -
  have "(unat a * 256 + unat b) div 256 = unat a" using byte_bound [of b] by simp
  moreover have "(256 :: byte) = 0" by simp
  then have "(of_nat (unat a * 256 + unat b) :: byte) = b" by (simp only: of_nat_add of_nat_mult of_nat_numeral) simp
  ultimately show ?thesis by (simp add: ungroup_def)
qed

lemma groups_inverse: "even (length a) \<Longrightarrow> concat (map ungroup (groups a)) = a \<and> 2 * length (groups a) = length a"
  by (induction a rule: groups.induct) (simp_all add: ungroup_byte)

lemma groups_bound: "g \<in> set (groups a) \<Longrightarrow> g < 65536"
proof (induction a rule: groups.induct)
  case (1 x y bs)
  have "unat x * 256 + unat y < 65536" using byte_bound [of x] byte_bound [of y] by simp
  with 1 show ?case by auto
qed simp_all

definition addr_char :: "char \<Rightarrow> bool" where
  "addr_char c \<longleftrightarrow> hex_val c \<noteq> None \<or> c = CHR '':''"

lemma addr_char_kind: "list_all addr_char s \<Longrightarrow> CHR '':'' \<in> set s \<Longrightarrow> addr_kind s = Some (CHR '':'')"
  by (induction s) (auto simp: addr_char_def hex_val_def)

lemma addr_char_percent: "list_all addr_char s \<Longrightarrow> CHR ''%'' \<notin> set s"
  by (auto simp: list_all_iff addr_char_def hex_val_def)

lemma joined_chars: "list_all addr_char (joined gs)"
proof (induction gs)
  case (Cons g gs)
  have "list_all addr_char (hex_string g)" using hex_string_digits [of g] by (auto simp: list_all_iff addr_char_def)
  moreover have "addr_char (CHR '':'')" by (simp add: addr_char_def)
  ultimately show ?case using Cons by (cases "gs = []") (simp_all add: joined_simps)
qed (simp add: joined_simps)

text \<open>The groups of an address without its longest run.\<close>

lemma string6_cases:
  obtains (plain) "string6 a = joined (groups a)"
  | (run) i l where "string6 a = joined (take i (groups a)) @ ''::'' @ joined (drop (i + l) (groups a))"
    "2 \<le> l" "i + l \<le> length (groups a)" "groups a = take i (groups a) @ replicate l 0 @ drop (i + l) (groups a)"
proof -
  note wit = that
  let ?gs = "groups a" and ?r = "best_run (groups a) 0 (255, 0)"
  show thesis
  proof (cases "snd ?r = 0")
    case True
    then have "string6 a = joined ?gs" by (simp add: string6_def Let_def joined_def)
    then show thesis by (rule wit(1))
  next
    case False
    then obtain i where i: "fst ?r = i" "2 \<le> snd ?r" "snd ?r \<le> zero_run (drop i ?gs)"
      using best_run_spec [of ?gs 0 "(255, 0)"] by auto
    note z = zero_run_take [OF i(3)]
    have "?gs = take i ?gs @ take (snd ?r) (drop i ?gs) @ drop (i + snd ?r) ?gs"
      by (metis append_take_drop_id drop_drop add.commute)
    then have "?gs = take i ?gs @ replicate (snd ?r) 0 @ drop (i + snd ?r) ?gs" using z by simp
    moreover have "string6 a = joined (take i ?gs) @ ''::'' @ joined (drop (i + snd ?r) ?gs)"
      using False i(1) by (simp add: string6_def Let_def joined_def)
    moreover have "i + snd ?r \<le> length ?gs" using z i(2) by auto
    ultimately show thesis using i(2) by (intro wit(2))
  qed
qed

lemma ungroup_zeros: "concat (map ungroup (replicate l 0)) = replicate (2 * l) 0"
  by (induction l) (simp_all add: ungroup_def)

lemma parse6_string6:
  assumes "length a = 16"
  shows "parse_ipv6 (string6 a) = Some a"
proof -
  let ?gs = "groups a"
  have gs: "concat (map ungroup ?gs) = a" "length ?gs = 8" using groups_inverse [of a] assms by simp_all
  have bound: "\<forall>g\<in>set ?gs. g < 65536" using groups_bound by blast
  have pct: "CHR ''%'' \<notin> set (joined xs)" for xs using addr_char_percent joined_chars by blast
  show ?thesis
  proof (cases rule: string6_cases [of a])
    case plain
    have ne: "?gs \<noteq> []" using gs(2) by auto
    have "take 2 (joined ?gs) \<noteq> ''::''"
      using joined_hd [OF ne] by (cases "joined ?gs") auto
    moreover have "parse6_loop (joined ?gs) [] None = Some (a, None, [])"
      using parse6_joined [OF ne bound, of "[]" None] gs by simp
    ultimately show ?thesis using plain pct assms by (simp add: parse_ipv6_def parse6_finish_def)
  next
    case (run i l)
    let ?L = "take i ?gs" and ?R = "drop (i + l) ?gs"
    let ?l = "concat (map ungroup ?L)" and ?r = "concat (map ungroup ?R)"
    have bl: "\<forall>g\<in>set ?L. g < 65536" "\<forall>g\<in>set ?R. g < 65536"
      using bound by (meson in_set_takeD, meson in_set_dropD)
    have len: "length ?L = i" "length ?R = 8 - (i + l)" using run(3) gs(2) by simp_all
    have "a = concat (map ungroup (?L @ replicate l 0 @ ?R))" using gs(1) run(4) by metis
    then have a: "a = ?l @ replicate (2 * l) 0 @ ?r" by (simp only: map_append concat_append ungroup_zeros)
    have n: "length ?l = 2 * i" "length ?r = 2 * (8 - (i + l))" "i + l \<le> 8" using len run(3) gs(2) by simp_all
    have z: "16 - (2 * i + 2 * (8 - (i + l))) = 2 * l" using n(3) by simp
    have fin: "parse6_finish (?l @ ?r, Some (length ?l), []) = Some a"
      using n run(2) z a by (simp add: parse6_finish_def)
    have p: "CHR ''%'' \<notin> set (string6 a)" using pct by (simp add: run(1))
    show ?thesis
    proof (cases "?L = []")
      case True
      then have i: "i = 0" "?l = []" using len(1) by (metis list.size(3), simp only: True list.map concat.simps)
      have s: "string6 a = CHR '':'' # CHR '':'' # joined ?R" using run(1) True by (simp add: joined_simps)
      show ?thesis
      proof (cases "?R = []")
        case Rn: True
        then have "l = 8" using len(2) run(3) gs(2) i(1) by simp
        then have "a = IPv6unspecified" using a i Rn by (simp add: IPv6unspecified_def)
        then show ?thesis using s Rn p by (simp add: parse_ipv6_def joined_simps)
      next
        case Rc: False
        have "parse6_loop (joined ?R) [] (Some 0) = Some (?r, Some 0, [])"
          using parse6_joined [OF Rc bl(2), of "[]" "Some 0"] n by simp
        then show ?thesis using s p joined_hd [OF Rc] fin i by (simp add: parse_ipv6_def)
      qed
    next
      case False
      have t: "take 2 (string6 a) \<noteq> ''::''"
        using joined_hd [OF False] run(1) by (cases "joined ?L") auto
      have "parse6_loop (string6 a) [] None = Some (?l @ ?r, Some (length ?l), [])"
      proof -
        have "parse6_loop (string6 a) [] None =
            (if joined ?R = [] then Some (?l, Some (length ?l), []) else parse6_loop (joined ?R) ?l (Some (length ?l)))"
          using parse6_joined_ellipsis [OF False bl(1), of "[]" "joined ?R"] n run(1) by (simp add: Let_def)
        also have "\<dots> = Some (?l @ ?r, Some (length ?l), [])"
        proof (cases "?R = []")
          case R: True
          then show ?thesis by (simp add: joined_simps)
        next
          case R: False
          with joined_hd [OF R] show ?thesis using parse6_joined [OF R bl(2), of ?l "Some (length ?l)"] n by simp
        qed
        finally show ?thesis .
      qed
      with t p fin show ?thesis by (simp add: parse_ipv6_def)
    qed
  qed
qed

lemma parseIP_string6:
  assumes "length a = 16"
  shows "parseIP (string6 a) = a"
proof -
  have len: "length (groups a) = 8" using groups_inverse [of a] assms by simp
  have c: "list_all addr_char (string6 a) \<and> CHR '':'' \<in> set (string6 a)"
  proof (cases rule: string6_cases [of a])
    case plain
    obtain g h gs where "groups a = g # h # gs" using len by (auto simp: numeral_eq_Suc length_Suc_conv)
    with plain joined_chars [of "groups a"] show ?thesis by (simp add: joined_simps)
  next
    case (run i l)
    then show ?thesis using joined_chars by (simp add: addr_char_def)
  qed
  then show ?thesis
    using parse6_string6 [OF assms] addr_char_kind by (simp add: parseIP_def parse_addr_def)
qed

text \<open>Every address of four or sixteen bytes is read back, in its sixteen-byte form.\<close>

definition to16 :: "ip \<Rightarrow> ip" where
  "to16 a = (if length a = 4 then v4InV6Prefix @ a else a)"

lemma parseIP_ip_string:
  assumes "length a = 4 \<or> length a = 16"
  shows "parseIP (ip_string a) = to16 a"
proof (cases "length (to4 a) = 4")
  case True
  have "v4InV6Prefix @ to4 a = to16 a"
    using assms True by (auto simp: to4_def to16_def split: if_splits) (metis append_take_drop_id)
  with True assms show ?thesis by (auto simp: ip_string_def parseIP_dotted)
next
  case False
  then have "length a = 16" using assms by (auto simp: to4_def)
  with False show ?thesis by (auto simp: ip_string_def to16_def parseIP_string6)
qed

lemma to4_to16: "length a = 4 \<or> length a = 16 \<Longrightarrow> to4 (to16 a) = to4 a"
  by (auto simp: to4_def to16_def)

lemma ip_string_to16: "length a = 4 \<or> length a = 16 \<Longrightarrow> ip_string (to16 a) = ip_string a"
  by (auto simp: ip_string_def to4_def to16_def)

end
