(* ===== verification/AddressRound.thy ===== *)
theory AddressRound
  imports Address NetRound
begin

text \<open>
  Addresses survive the way through the status of the service: what \<open>AllocateAddresses\<close> returns,
  written into the status, is what the next call returns.
\<close>

definition good_ip :: "ip \<Rightarrow> bool" where
  "good_ip a \<longleftrightarrow> length a = 4 \<or> length a = 16"

lemma ip_family_to16: "good_ip a \<Longrightarrow> ip_family (to16 a) = ip_family a"
  by (simp add: ip_family_def to4_to16 good_ip_def)

lemma ip_string_nonempty: "good_ip a \<Longrightarrow> ip_string a \<noteq> []"
  using parseIP_ip_string [of a] by (auto simp: good_ip_def to16_def parseIP_def parse_addr_def split: if_splits)

text \<open>The addresses of one family among written ones.\<close>

lemma current_of_written:
  assumes "map ing_ip (svc_ingress svc) = map ip_string as" and "\<forall>a\<in>set as. good_ip a"
  shows "current_of svc f = map to16 (filter (\<lambda>a. ip_family a = f) as)"
proof -
  have "filter (\<lambda>s. s \<noteq> []) (map ing_ip (svc_ingress svc)) = map ing_ip (filter (\<lambda>i. ing_ip i \<noteq> []) (svc_ingress svc))"
    by (simp add: filter_map comp_def)
  moreover have "filter (\<lambda>s. s \<noteq> []) (map ip_string as) = map ip_string as"
    using assms(2) ip_string_nonempty by (auto simp: filter_id_conv)
  ultimately have s: "serviceAddresses svc = map ip_string as" using assms(1) by (simp add: serviceAddresses_eq)
  have "map parseIP (filter (\<lambda>s. ip_family (parseIP s) = f) (map ip_string as)) = map to16 (filter (\<lambda>a. ip_family a = f) as)"
    using assms(2) by (induction as) (simp_all add: parseIP_ip_string good_ip_def ip_family_to16)
  then show ?thesis by (simp add: current_of_def s)
qed

text \<open>The addresses come in blocks, one for each family.\<close>

definition family_block :: "string \<Rightarrow> ip list \<Rightarrow> bool" where
  "family_block f b \<longleftrightarrow> b \<noteq> [] \<and> (\<forall>a\<in>set b. good_ip a \<and> ip_family a = f)"

lemma filter_blocks:
  "list_all2 family_block fams bs \<Longrightarrow> distinct fams \<Longrightarrow> f \<in> set fams \<Longrightarrow>
   filter (\<lambda>a. ip_family a = f) (concat bs) \<noteq> []"
  by (induction rule: list_all2_induct) (auto simp: family_block_def filter_empty_conv)

lemma filter_blocks_other:
  "list_all2 family_block fams bs \<Longrightarrow> f \<notin> set fams \<Longrightarrow> filter (\<lambda>a. ip_family a = f) (concat bs) = []"
  by (induction rule: list_all2_induct) (auto simp: family_block_def filter_empty_conv)

lemma regroup_blocks:
  "list_all2 family_block fams bs \<Longrightarrow> distinct fams \<Longrightarrow>
   concat (map (\<lambda>f. filter (\<lambda>a. ip_family a = f) (concat bs)) fams) = concat bs"
proof (induction rule: list_all2_induct)
  case (Cons f fams b bs)
  have b: "filter (\<lambda>a. ip_family a = f) b = b" "g \<noteq> f \<Longrightarrow> filter (\<lambda>a. ip_family a = g) b = []" for g
    using Cons.hyps(1) by (auto simp: family_block_def filter_id_conv filter_empty_conv)
  have "map (\<lambda>g. filter (\<lambda>a. ip_family a = g) (b @ concat bs)) fams = map (\<lambda>g. filter (\<lambda>a. ip_family a = g) (concat bs)) fams"
  proof (rule map_cong [OF refl])
    fix g assume "g \<in> set fams"
    with Cons.prems have "g \<noteq> f" by auto
    from b(2) [OF this] show "filter (\<lambda>a. ip_family a = g) (b @ concat bs) = filter (\<lambda>a. ip_family a = g) (concat bs)" by simp
  qed
  moreover have "filter (\<lambda>a. ip_family a = f) (concat bs) = []"
    using filter_blocks_other [OF Cons.hyps(2)] Cons.prems by simp
  ultimately show ?case using Cons.IH Cons.prems b(1) by (simp cong: map_cong)
qed simp

text \<open>What an allocation returns.\<close>

definition vip_of_family :: "prefix \<Rightarrow> bool" where
  "vip_of_family p \<longleftrightarrow> pf_addresses p \<noteq> [] \<and> good_ip (hd (pf_addresses p)) \<and> ip_family (hd (pf_addresses p)) = pf_family p"

definition vips_of_family :: "'w api \<Rightarrow> 'w ipam \<Rightarrow> bool" where
  "vips_of_family A I \<longleftrightarrow> (\<forall>i auto w p w'. newPrefix A I i auto w = (Inr p, w') \<longrightarrow> vip_of_family p)"

definition mgr_vips :: "amgr \<Rightarrow> bool" where
  "mgr_vips m \<longleftrightarrow> list_all vip_of_family (fixedPrefixes m) \<and>
     (case prefixCache m of None \<Rightarrow> True | Some ps \<Rightarrow> list_all vip_of_family ps)"

lemma mgr_prefixes_vips:
  assumes A: "vips_of_family A I" and "mgr_vips m" and "mgr_prefixes A I ts m w = (res, m', w')"
  shows "mgr_vips m' \<and> (\<forall>ps. res = Inr ps \<longrightarrow> list_all vip_of_family ps)"
proof -
  have "newPrefix A I i auto v = (Inr p, v') \<Longrightarrow> vip_of_family p" for i auto v p v'
    using A unfolding vips_of_family_def by blast
  then have loop: "prefix_loop A I auto rts (fixedPrefixes m) v = (Inr ps, v') \<Longrightarrow>
      list_all vip_of_family (fixedPrefixes m) \<Longrightarrow> list_all vip_of_family ps" for auto rts v ps v'
    by (rule prefix_loop_all)
  show ?thesis
    using assms(2,3) loop
    by (fastforce simp: mgr_prefixes_def mgr_vips_def store_cache_def cache_valid_def
        split: if_splits option.splits sum.splits prod.splits)
qed

lemma first_of_family_vip:
  "list_all vip_of_family ps \<Longrightarrow> first_of_family fam ps = Inr a \<Longrightarrow> family_block fam [a]"
  by (induction ps)
     (auto simp: prefix_allocateAddress_def vip_of_family_def family_block_def split: if_splits list.splits)

lemma mgr_allocateAddress_block:
  assumes "vips_of_family A I" and "mgr_vips m" and "mgr_allocateAddress A I ts m fam w = (res, m', w')"
  shows "mgr_vips m' \<and> (\<forall>a. res = Inr a \<longrightarrow> family_block fam [a])"
proof -
  obtain x m1 w1 where p: "mgr_prefixes A I ts m w = (x, m1, w1)" by (cases "mgr_prefixes A I ts m w")
  from mgr_prefixes_vips [OF assms(1,2) p] assms(3) p first_of_family_vip show ?thesis
    by (cases x) (auto simp: mgr_allocateAddress_def)
qed

lemma allocate_loop_blocks:
  assumes A: "vips_of_family A I" and cur: "\<forall>fam as. cur fam = Some as \<longrightarrow> family_block fam as"
  shows "allocate_loop A I now k cur fams ret m w = (Inr eas, m', w') \<Longrightarrow> mgr_vips m \<Longrightarrow>
    \<exists>bs. list_all2 family_block fams bs \<and> eas = ret @ map ip_string (concat bs)"
proof (induction fams arbitrary: k ret m w)
  case (Cons fam fams)
  have step: ?case if "allocate_loop A I now (Suc k) cur fams (ret @ map ip_string b) m1 w1 = (Inr eas, m', w')"
    "family_block fam b" "mgr_vips m1" for b m1 w1
  proof -
    from Cons.IH [OF that(1,3)] obtain bs where "list_all2 family_block fams bs" "eas = (ret @ map ip_string b) @ map ip_string (concat bs)"
      by blast
    with that(2) show ?thesis by (intro exI [of _ "b # bs"]) simp
  qed
  show ?case
  proof (cases "cur fam")
    case (Some as)
    then have "family_block fam as" using cur by blast
    with Cons.prems Some show ?thesis using step [of as m w] by simp
  next
    case None
    obtain r m1 w1 where al: "mgr_allocateAddress A I (now k) m fam w = (r, m1, w1)" by (metis prod_cases3)
    with Cons.prems None obtain a where r: "r = Inr a" by (cases r) auto
    note b = mgr_allocateAddress_block [OF A Cons.prems(2) al]
    with Cons.prems None al r show ?thesis using step [of "[a]" m1 w1] by simp
  qed
qed simp

text \<open>
  C9. Addresses survive the way through the status: what an allocation returned, written as the
  addresses of the service's status, is returned by every later allocation, in the same order, by any
  address manager, without a call to the Engine. (The families are distinct, the addresses of the
  status and those of the prefixes are addresses, the latter of the family of their prefix.)
\<close>

theorem AllocateAddresses_written_back:
  assumes "serviceAddressFamilies svc = Inr fams" and "distinct fams" and "vips_of_family A I" and "mgr_vips m"
    and "\<forall>s\<in>set (serviceAddresses svc). parseIP s \<noteq> []"
    and "AllocateAddresses A I now svc m w = (Inr eas, m', w')"
    and "svc2 = svc\<lparr>svc_ingress := ings\<rparr>" and "map ing_ip ings = eas"
  shows "AllocateAddresses A2 I2 now2 svc2 m2 w2 = (Inr eas, m2, w2)"
proof -
  let ?cur = "current_loop (serviceAddresses svc) Map.empty"
  have "family_block fam as" if "?cur fam = Some as" for fam as
  proof -
    have "as = map parseIP (filter (\<lambda>a. ip_family (parseIP a) = fam) (serviceAddresses svc)) \<and> as \<noteq> []"
      using that by (auto simp: current_loop_value Let_def split: if_splits)
    with assms(5) length_parseIP show ?thesis by (auto simp: family_block_def good_ip_def)
  qed
  moreover have "allocate_loop A I now 0 ?cur fams [] m w = (Inr eas, m', w')"
    using assms(1,6) by (simp add: AllocateAddresses_def)
  ultimately obtain bs where bs: "list_all2 family_block fams bs" "eas = map ip_string (concat bs)"
    using allocate_loop_blocks [OF assms(3)] assms(4) by (metis append_Nil)
  have good: "\<forall>a\<in>set (concat bs). good_ip a"
    using list_all2_rightD [OF bs(1)] by (auto simp: family_block_def)
  have "current_of svc2 f = map to16 (filter (\<lambda>a. ip_family a = f) (concat bs))" for f
    using current_of_written [of svc2 "concat bs"] good assms(7,8) bs(2) by simp
  moreover have "map ip_string (map to16 (filter P (concat bs))) = map ip_string (filter P (concat bs))" for P
    using good by (auto simp: ip_string_to16 good_ip_def)
  ultimately have c: "current_of svc2 f \<noteq> [] \<longleftrightarrow> filter (\<lambda>a. ip_family a = f) (concat bs) \<noteq> []"
    "map ip_string (current_of svc2 f) = map ip_string (filter (\<lambda>a. ip_family a = f) (concat bs))" for f by simp_all
  have fams: "serviceAddressFamilies svc2 = Inr fams" using assms(1,7) by (auto simp: serviceAddressFamilies_def split: option.splits)
  have "\<forall>f\<in>set fams. current_of svc2 f \<noteq> []" using c(1) filter_blocks [OF bs(1) assms(2)] by blast
  from prefix_manager.sticky [OF fams this] have
    "AllocateAddresses A2 I2 now2 svc2 m2 w2 = (Inr (concat (map (\<lambda>f. map ip_string (current_of svc2 f)) fams)), m2, w2)" .
  moreover have "concat (map (\<lambda>f. map ip_string (current_of svc2 f)) fams) = map ip_string (concat (map (\<lambda>f. filter (\<lambda>a. ip_family a = f) (concat bs)) fams))"
    by (simp add: c(2) map_concat comp_def)
  ultimately show ?thesis using regroup_blocks [OF bs(1) assms(2)] bs(2) by simp
qed

lemma sample_vips: "vips_of_family ref_api sample_ipam"
  unfolding vips_of_family_def
proof (intro allI impI)
  fix i auto w p w' assume new: "newPrefix ref_api sample_ipam i auto w = (Inr p, w')"
  let ?n = "\<lparr>net_ip = [10, 0, 0, 0], net_mask = [255, 255, 255, 0]\<rparr> :: ipnet"
  have n: "parseCIDR ''10.0.0.0/24'' = Some ?n" by (simp add: parse_eval)
  have vip: "calculateVIP ?n = Some [10, 0, 0, 254]" by code_simp
  have found: "discoverVIP ref_api sample_ipam i tag v = (Inr a, v') \<Longrightarrow> a = [] \<or> a = parseIP ''10.0.0.9''" for tag v a v'
  proof -
    have "discover_loop sample_ipam i rts v = (Inr a, v') \<Longrightarrow> a = [] \<or> a = parseIP ''10.0.0.9''" for rts :: "ref_world retriever list" and v a v'
      by (induction rts arbitrary: v) (auto simp: sample_ipam_def split: sum.splits prod.splits if_splits)
    then show "discoverVIP ref_api sample_ipam i tag v = (Inr a, v') \<Longrightarrow> a = [] \<or> a = parseIP ''10.0.0.9''"
      by (auto simp: discoverVIP_def split: prod.splits option.splits if_splits)
  qed
  have "pf_family p = IPv4Protocol \<and> (pf_addresses p = [[10, 0, 0, 254]] \<or> pf_addresses p = [parseIP ''10.0.0.9''])"
    using new n vip
    by (auto simp: newPrefix_def sample_ipam_def [unfolded fun_eq_iff] with_calculated_vip_def Let_def to4_def
        split: option.splits sum.splits prod.splits if_splits dest!: found [unfolded sample_ipam_def])
  moreover have "parseIP ''10.0.0.9'' = v4InV6Prefix @ [10, 0, 0, 9]" by code_simp
  moreover have "ip_family [10, 0, 0, 254] = IPv4Protocol" "ip_family (v4InV6Prefix @ [10, 0, 0, 9]) = IPv4Protocol" by code_simp+
  ultimately show "vip_of_family p" by (auto simp: vip_of_family_def good_ip_def)
qed

theorem AllocateAddresses_written_back_witness:
  "\<forall>A I now m w. AllocateAddresses A I now
     (sample_service\<lparr>svc_ingress := [\<lparr>ing_ip = ''10.0.0.254'', ing_hostname = [], ing_ports = []\<rparr>]\<rparr>) m w = (Inr [''10.0.0.254''], m, w)"
proof (intro allI)
  fix A :: "'w api" and I :: "'w ipam" and now m w
  let ?x = "AllocateAddresses ref_api sample_ipam (\<lambda>k. (0, 0)) sample_service sample_amgr sample_world"
  have "fst ?x = Inr [''10.0.0.254'']" by code_simp
  then have run: "?x = (Inr [''10.0.0.254''], fst (snd ?x), snd (snd ?x))" by (metis prod.collapse)
  have fams: "serviceAddressFamilies sample_service = Inr [''IPv4'']" by code_simp
  have "mgr_vips sample_amgr"
    by (simp add: mgr_vips_def sample_amgr_def newMgr_def vip_of_family_def good_ip_def ip_family_def to4_def IPv4Protocol_def)
  moreover have "\<forall>s\<in>set (serviceAddresses sample_service). parseIP s \<noteq> []" by (simp add: serviceAddresses_def sample_service_def)
  ultimately show "AllocateAddresses A I now
     (sample_service\<lparr>svc_ingress := [\<lparr>ing_ip = ''10.0.0.254'', ing_hostname = [], ing_ports = []\<rparr>]\<rparr>) m w = (Inr [''10.0.0.254''], m, w)"
    using AllocateAddresses_written_back [OF fams _ sample_vips _ _ run refl, of "[\<lparr>ing_ip = ''10.0.0.254'', ing_hostname = [], ing_ports = []\<rparr>]"]
    by simp
qed

end
