(* ===== verification/ManagerProps.thy ===== *)
theory ManagerProps
  imports EnsureProps
begin

text \<open>
  Properties of the LoadBalancer manager that need no reconciliation to be carried through: the
  sequential runs of the Multi refine the protocol of its goroutines, errors and their order,
  construction from the configuration.
\<close>

section \<open>The sequential run is a run of the goroutines\<close>

definition seq_state :: "nat \<Rightarrow> 'r list \<Rightarrow> 'r goroutine list \<Rightarrow> nat \<Rightarrow> 'r list \<Rightarrow> 'r fanout" where
  "seq_state m rs mid w c =
     \<lparr>routines = map Finished rs @ mid @ replicate m Calling, wg = w, channel = c,
      capacity = length rs + length mid + m, closed = False\<rparr>"

lemma seq_step:
  assumes "ok (length rs) r"
  shows "(fan_step ok)\<^sup>*\<^sup>* (seq_state (Suc m) rs [] (Suc m) rs) (seq_state m (rs @ [r]) [] m (rs @ [r]))"
proof -
  let ?n = "length rs"
  have "fan_step ok (seq_state m rs [Calling] (Suc m) rs) (seq_state m rs [Sending r] (Suc m) rs)"
    using fan_return [of ?n "seq_state m rs [Calling] (Suc m) rs" ok r] assms
    by (simp add: seq_state_def list_update_append nth_append)
  moreover have "fan_step ok (seq_state m rs [Sending r] (Suc m) rs) (seq_state m rs [Sent r] (Suc m) (rs @ [r]))"
    using fan_send [of ?n "seq_state m rs [Sending r] (Suc m) rs" r ok]
    by (simp add: seq_state_def list_update_append nth_append)
  moreover have "fan_step ok (seq_state m rs [Sent r] (Suc m) (rs @ [r])) (seq_state m rs [Finished r] m (rs @ [r]))"
    using fan_done [of ?n "seq_state m rs [Sent r] (Suc m) (rs @ [r])" r ok]
    by (simp add: seq_state_def list_update_append nth_append)
  moreover have "seq_state (Suc m) rs [] (Suc m) rs = seq_state m rs [Calling] (Suc m) rs"
    "seq_state m rs [Finished r] m (rs @ [r]) = seq_state m (rs @ [r]) [] m (rs @ [r])"
    by (simp_all add: seq_state_def)
  ultimately show ?thesis by (metis converse_rtranclp_into_rtranclp r_into_rtranclp)
qed

lemma fan_reach_steps: "(fan_step ok)\<^sup>*\<^sup>* s s' \<Longrightarrow> fan_reach ok n s \<Longrightarrow> fan_reach ok n s'"
  by (induction rule: rtranclp_induct) (auto intro: fan_next)

lemma seq_reach:
  "\<forall>k<length rs. ok k (rs ! k) \<Longrightarrow> fan_reach ok (length rs + m) (seq_state m rs [] m rs)"
proof (induction rs arbitrary: m rule: rev_induct)
  case Nil
  have "seq_state m [] [] m [] = fan_start m" by (simp add: seq_state_def fan_start_def)
  show ?case unfolding \<open>seq_state m [] [] m [] = fan_start m\<close> using fan_init [of ok m] by simp
next
  case (snoc r rs)
  have "\<forall>k<length rs. ok k (rs ! k)"
  proof (intro allI impI)
    fix k assume "k < length rs"
    with snoc.prems [rule_format, of k] show "ok k (rs ! k)" by (simp add: nth_append)
  qed
  from snoc.IH [OF this, of "Suc m"] have reach: "fan_reach ok (length (rs @ [r]) + m) (seq_state (Suc m) rs [] (Suc m) rs)" by simp
  have "ok (length rs) r" using snoc.prems [rule_format, of "length rs"] by simp
  show ?case by (rule fan_reach_steps [OF seq_step [where ok = ok, OF \<open>ok (length rs) r\<close>] reach])
qed

lemma seq_closed:
  assumes "\<forall>k<length rs. ok k (rs ! k)"
  shows "\<exists>s. fan_reach ok (length rs) s \<and> closed s \<and> channel s = rs"
proof -
  let ?s = "seq_state 0 rs [] 0 rs"
  have "fan_reach ok (length rs) ?s" using seq_reach [where ok = ok and rs = rs and m = 0] assms by simp
  moreover have "fan_step ok ?s (?s\<lparr>closed := True\<rparr>)" by (rule fan_close) (simp_all add: seq_state_def)
  ultimately have "fan_reach ok (length rs) (?s\<lparr>closed := True\<rparr>)" by (rule fan_next)
  then show ?thesis by (intro exI [of _ "?s\<lparr>closed := True\<rparr>"]) (simp add: seq_state_def)
qed

text \<open>The results of the members, run one after the other.\<close>

definition member_returns :: "'w mgr \<Rightarrow> choices \<Rightarrow> recon multirecon \<Rightarrow> nat \<Rightarrow> go_error option \<Rightarrow> bool" where
  "member_returns m ch mrecon k err \<longleftrightarrow>
     (\<exists>s s'. rcn s = recons mrecon ! k \<and> Reconcile (m_lib m) (m_api m) (m_backoff m) (ch_ports ch k) s = Some (err, s'))"

lemma reconcile_members_panics:
  "reconcile_members m rngs i rs w mt = Some (Inl p) \<Longrightarrow> is_panic p"
  by (induction m rngs i rs w mt rule: reconcile_members.induct)
     (auto split: option.splits prod.splits sum.splits if_splits)

text \<open>
  C21. The run of the manager's Multi, member after member, refines the concurrent protocol: unless
  the process panics, its outcome is an outcome of \<open>Reconcile\<close> with the goroutines, wait group and
  channel, for members that return what they return here.
\<close>

theorem run_Reconcile_refines_protocol:
  assumes "run_Reconcile m ch mrecon s = Some (err, mrecon', s')" and "\<not> (\<exists>e. err = Some e \<and> is_panic e)"
  shows "multi_Reconcile (member_returns m ch mrecon) mrecon err"
proof -
  obtain run where mem: "reconcile_members m (ch_ports ch) 0 (recons mrecon) (ms_world s) (ms_metrics s) = Some (Inr run)"
    and err: "err = drain_errors (mr_results run)"
    using assms reconcile_members_panics by (fastforce simp: run_Reconcile_def split: option.splits sum.splits)
  note each = reconcile_members_each [OF mem, simplified]
  have "\<forall>k<length (mr_results run). member_returns m ch mrecon k (mr_results run ! k)"
    using each unfolding member_returns_def by metis
  from seq_closed [where ok = "member_returns m ch mrecon", OF this] each
  show ?thesis unfolding multi_Reconcile_def err by metis
qed

theorem run_Reconcile_refines_protocol_witness:
  "\<exists>mrecon' s'. run_Reconcile sample_mgr (sample_choices (\<lambda>i. http_ports) []) (Multi [sample_recon, sample_recon])
       (sample_state empty_world) = Some (None, mrecon', s') \<and>
     multi_Reconcile (member_returns sample_mgr (sample_choices (\<lambda>i. http_ports) []) (Multi [sample_recon, sample_recon]))
       (Multi [sample_recon, sample_recon]) None"
proof -
  let ?run = "run_Reconcile sample_mgr (sample_choices (\<lambda>i. http_ports) []) (Multi [sample_recon, sample_recon]) (sample_state empty_world)"
  have "map_option fst ?run = Some None" by code_simp
  then obtain mrecon' s' where run: "?run = Some (None, mrecon', s')" by auto
  with run_Reconcile_refines_protocol [OF run] show ?thesis by auto
qed

section \<open>Errors\<close>

text \<open>
  C24. An error of \<open>EnsureLoadBalancer\<close> never carries a rate limit: a rate limit anywhere in the error
  of the preparation, the reconciliation or the status becomes a \<open>RetryError\<close> with the time that is
  left, every other error is passed on as it is.
\<close>

theorem EnsureLoadBalancer_rate_limit:
  assumes "EnsureLoadBalancer m ch cn svc nodes s = Some (Inl e, s')"
  shows "as_rate_limit e = None \<and>
    (\<exists>e0. e = (case as_rate_limit e0 of None \<Rightarrow> e0 | Some t \<Rightarrow> RetryError ''rate limiting by engine'' (t - ch_retry ch)) \<and>
      (fst (reconciliationForService m ch (prepare m cn svc) svc nodes s) = Inl e0 \<or>
       (\<exists>mrecon eas s1. reconciliationForService m ch (prepare m cn svc) svc nodes s = (Inr (mrecon, eas), s1) \<and>
          (map_option fst (run_Reconcile m ch mrecon s1) = Some (Some e0) \<or>
           (\<exists>mrecon' s2. run_Reconcile m ch mrecon s1 = Some (None, mrecon', s2) \<and>
              fst (reconciliationStatus m ch mrecon' svc s2) = Inl e0)))))"
proof -
  let ?h = "handleRateLimitError (ch_retry ch)"
  obtain r s1 where rf: "reconciliationForService m ch (prepare m cn svc) svc nodes s = (r, s1)" by fastforce
  show ?thesis
  proof (cases r)
    case (Inl e0)
    then have "e = ?h e0" using assms rf by (simp add: EnsureLoadBalancer_def)
    then show ?thesis using rf Inl handleRateLimitError_no_limit [of "ch_retry ch" e0]
      by (intro conjI exI [of _ e0]) (simp_all add: handleRateLimitError_def)
  next
    case (Inr x)
    obtain mrecon eas where x: "x = (mrecon, eas)" by fastforce
    obtain err mrecon' s2 where rr: "run_Reconcile m ch mrecon s1 = Some (err, mrecon', s2)"
      using assms rf Inr x by (auto simp: EnsureLoadBalancer_def split: option.splits)
    show ?thesis
    proof (cases err)
      case (Some e0)
      then have "e = ?h e0" using assms rf Inr x rr by (simp add: EnsureLoadBalancer_def)
      then show ?thesis using rf Inr x rr Some handleRateLimitError_no_limit [of "ch_retry ch" e0]
        by (intro conjI exI [of _ e0]) (simp_all add: handleRateLimitError_def)
    next
      case None
      then obtain e0 where "fst (reconciliationStatus m ch mrecon' svc s2) = Inl e0" "e = ?h e0"
        using assms rf Inr x rr by (auto simp: EnsureLoadBalancer_def split: prod.splits sum.splits)
      then show ?thesis using rf Inr x rr None handleRateLimitError_no_limit [of "ch_retry ch" e0]
        by (intro conjI exI [of _ e0]) (simp_all add: handleRateLimitError_def)
    qed
  qed
qed

text \<open>An Engine that limits creations for another 100 seconds.\<close>

definition throttled_mgr :: "ref_world mgr" where
  "throttled_mgr = sample_mgr\<lparr>m_api := strict_api\<lparr>api_create := (\<lambda>obj w. (Some (RateLimitError 100), obj, w))\<rparr>\<rparr>"

theorem EnsureLoadBalancer_rate_limit_witness:
  "\<exists>s'. EnsureLoadBalancer throttled_mgr (sample_choices (\<lambda>i. http_ports) one_port) ''kubernetes'' (svc_service False)
      [sample_node] (sample_state empty_world) = Some (Inl (RetryError ''rate limiting by engine'' 100), s') \<and>
    as_rate_limit (RetryError ''rate limiting by engine'' 100) = None"
proof -
  let ?run = "EnsureLoadBalancer throttled_mgr (sample_choices (\<lambda>i. http_ports) one_port) ''kubernetes'' (svc_service False)
      [sample_node] (sample_state empty_world)"
  have "map_option fst ?run = Some (Inl (RetryError ''rate limiting by engine'' 100))" by code_simp
  then obtain s' where run: "?run = Some (Inl (RetryError ''rate limiting by engine'' 100), s')" by auto
  with EnsureLoadBalancer_rate_limit [OF run] show ?thesis by blast
qed

text \<open>
  The ports of a service: with two ports of the same name the service is refused with
  \<open>ErrPortNameNotUnique\<close> before anything is asked of the address manager, the Engine or Kubernetes;
  otherwise each name has its port and node port, of which the lower sixteen bits are kept.
\<close>

theorem reconciliationForService_ports:
  assumes "\<not> svc_deletion svc"
  shows "if distinct (map sp_name (svc_ports svc))
    then \<forall>pts svs eas s1. wanted_for m ch svc nodes s = (Inr (pts, svs, eas), s1) \<longrightarrow>
      dom pts = sp_name ` set (svc_ports svc) \<and>
      (\<forall>p\<in>set (svc_ports svc). \<exists>q. pts (sp_name p) = Some q \<and>
         unat (external q) = unat (sp_port p) mod 2 ^ 16 \<and> unat (internal q) = unat (sp_nodePort p) mod 2 ^ 16)
    else reconciliationForService m ch cn svc nodes s = (Inl ErrPortNameNotUnique, s)"
proof (cases "distinct (map sp_name (svc_ports svc))")
  case False
  then have "wanted_for m ch svc nodes s = (Inl ErrPortNameNotUnique, s)"
    using assms by (simp add: wanted_for_def ports_loop_result)
  with False show ?thesis by (simp add: reconciliationForService_def)
next
  case True
  let ?pts = "map_of (map (\<lambda>p. (sp_name p, port_of p)) (svc_ports svc))"
  have pl: "ports_loop (svc_ports svc) Map.empty = Inr ?pts" using True by (simp add: ports_loop_result)
  have eq: "pts = ?pts" if "wanted_for m ch svc nodes s = (Inr (pts, svs, eas), s1)" for pts svs eas s1
    using that assms pl by (auto simp: wanted_for_def split: option.splits prod.splits sum.splits)
  have "dom ?pts = sp_name ` set (svc_ports svc)" by (simp add: dom_map_of_conv_image_fst image_image)
  moreover have "?pts (sp_name p) = Some (port_of p)" if "p \<in> set (svc_ports svc)" for p
    using that True by (simp add: map_of_eq_Some_iff comp_def)
  ultimately show ?thesis using True eq
    by (auto simp: port_of_def unsigned_ucast_eq take_bit_eq_mod)
qed

theorem reconciliationForService_ports_witness:
  "\<forall>ch s. reconciliationForService sample_mgr ch ''c''
     ((svc_service False)\<lparr>svc_ports := [\<lparr>sp_name = [], sp_port = 80, sp_nodePort = 1\<rparr>, \<lparr>sp_name = [], sp_port = 81, sp_nodePort = 2\<rparr>]\<rparr>) [] s =
     (Inl ErrPortNameNotUnique, s)"
proof (intro allI)
  fix ch s
  let ?svc = "(svc_service False)\<lparr>svc_ports := [\<lparr>sp_name = [], sp_port = 80, sp_nodePort = 1\<rparr>, \<lparr>sp_name = [], sp_port = 81, sp_nodePort = 2\<rparr>]\<rparr>"
  have "\<not> svc_deletion ?svc" by (simp add: svc_service_def)
  from reconciliationForService_ports [OF this, of sample_mgr ch "[]" s "''c''"]
  show "reconciliationForService sample_mgr ch ''c'' ?svc [] s = (Inl ErrPortNameNotUnique, s)" by simp
qed

section \<open>Construction\<close>

text \<open>
  With auto-discovery, on an Engine that answers without changing, the manager serves the tagged
  resources that can be read as LoadBalancers, in the order of the list; when there are none,
  \<open>New\<close> fails with \<open>ErrNoLoadBalancers\<close>.
\<close>

theorem lb_New_discovers:
  assumes "cf_AutoDiscoverLoadBalancer config" and "cf_LoadBalancerPrefixIdentifiers config = []"
    and "api_list A False [cf_AutoDiscoveryTagPrefix config @ ''-'' @ cf_ClusterName config] w = (None, oc, w)"
    and "yields w oc rs" and "reads_only A w"
  shows "case lb_New config L B k8s A I w of
      (Inl e, w') \<Rightarrow> errors_is e ErrNoLoadBalancers \<and> (\<forall>res\<in>set rs. \<not> readable A w res)
    | (Inr (m, am), w') \<Rightarrow> m_loadBalancers m = map res_id (filter (readable A w) rs) \<and> m_loadBalancers m \<noteq> [] \<and>
        am = Some (NewWithAutoDiscovery (cf_ClusterName config)) \<and> w' = w"
  using assms discovery_loop_filter [OF assms(5,4), of "[]"]
  by (auto simp: lb_New_def configureLoadBalancers_def configurePrefixes_def DiscoverLoadBalancers_def Let_def
      ErrNoLoadBalancers_def errors_is_def filter_empty_conv split: if_splits)

definition discovery_config :: config where
  "discovery_config = zero_config\<lparr>cf_AutoDiscoverLoadBalancer := True, cf_AutoDiscoveryTagPrefix := ''anxkube-ccm-lb'',
     cf_ClusterName := ''cluster''\<rparr>"

text \<open>A LoadBalancer and a backend carry the tag; only the first is used.\<close>

definition tagged_world :: ref_world where
  "tagged_world = (with_lb wanted_world)\<lparr>re_tags := [(''lb-1'', ''anxkube-ccm-lb-cluster''), (''b1'', ''anxkube-ccm-lb-cluster'')]\<rparr>"

lemma ref_list_yields: "ref_list full ts w = (None, oc, w') \<Longrightarrow>
    w' = w \<and> yields w oc (map (\<lambda>(i, x). \<lparr>res_id = i, res_type = type_identifier x\<rparr>)
      (filter (\<lambda>(i, x). list_all (\<lambda>t. List.member (re_tags w) (i, t)) ts) (re_objects w)))"
  by (auto simp: ref_list_def Let_def yields_def list_all2_conv_all_nth split: if_splits prod.splits)

lemma ref_reads_only: "reads_only ref_api w"
  by (auto simp: reads_only_def ref_api_def ref_get_def split: option.splits)

theorem lb_New_discovers_witness:
  "\<exists>m am w'. lb_New discovery_config ref_lib ref_backoff None ref_api sample_ipam tagged_world = (Inr (m, am), w') \<and>
     m_loadBalancers m = [''lb-1''] \<and> am = Some (NewWithAutoDiscovery ''cluster'')"
proof -
  let ?tags = "[cf_AutoDiscoveryTagPrefix discovery_config @ ''-'' @ cf_ClusterName discovery_config]"
  let ?r = "lb_New discovery_config ref_lib ref_backoff None ref_api sample_ipam tagged_world"
  obtain e oc w' where list: "api_list ref_api False ?tags tagged_world = (e, oc, w')" by (metis prod_cases3)
  moreover have "fst (api_list ref_api False ?tags tagged_world) = None" by code_simp
  ultimately have list': "ref_list False ?tags tagged_world = (None, oc, w')" by (simp add: ref_api_def)
  note y = ref_list_yields [OF this]
  have cfg: "cf_AutoDiscoverLoadBalancer discovery_config" "cf_LoadBalancerPrefixIdentifiers discovery_config = []"
    by (simp_all add: discovery_config_def zero_config_def)
  have l: "api_list ref_api False ?tags tagged_world = (None, oc, tagged_world)" using list' y by (simp add: ref_api_def)
  have ev: "(case ?r of (Inl e, w) \<Rightarrow> None | (Inr (m, am), w) \<Rightarrow> Some (m_loadBalancers m)) = Some [''lb-1'']" by code_simp
  then obtain m am w2 where r: "?r = (Inr (m, am), w2)" by (cases ?r; cases "fst ?r") auto
  with lb_New_discovers [OF cfg l conjunct2 [OF y] ref_reads_only, of ref_lib ref_backoff None sample_ipam] ev
  show ?thesis by (intro exI [of _ m] exI [of _ am] exI [of _ w2]) (simp add: discovery_config_def zero_config_def)
qed

lemma servers_loop_usable:
  "\<forall>n\<in>set nodes. \<exists>a. getNodeEndpointAddress n = Inr a \<Longrightarrow> \<exists>svs. servers_loop nodes acc = Inr svs"
  by (induction nodes arbitrary: acc) force+

text \<open>
  C37. Without auto-discovery the configured identifier is used as it is, the empty one included, so
  that \<open>ErrNoLoadBalancers\<close> cannot occur; and without prefixes \<open>New\<close> succeeds without an address
  manager: every \<open>EnsureLoadBalancer\<close> of a service that is not being deleted, with unique port names
  and usable nodes, then dereferences nil.
\<close>

theorem lb_New_without_prefixes_panics:
  assumes "\<not> cf_AutoDiscoverLoadBalancer config" and "cf_LoadBalancerPrefixIdentifiers config = []"
  shows "\<exists>m. lb_New config L B k8s A I w = (Inr (m, None), w) \<and> m_loadBalancers m = [cf_LoadBalancerIdentifier config] \<and>
    (\<forall>ch cn svc nodes s. ms_addressManager s = None \<and> \<not> svc_deletion svc \<and> distinct (map sp_name (svc_ports svc)) \<and>
       (\<forall>n\<in>set nodes. \<exists>a. getNodeEndpointAddress n = Inr a) \<longrightarrow>
       (\<exists>p. EnsureLoadBalancer m ch cn svc nodes s = Some (Inl (Panic p), s)))"
proof -
  let ?m = "\<lparr>m_lib = L, m_api = A, m_ipam = I, m_backoff = B, m_clusterName = cf_ClusterName config, m_k8s = k8s,
     m_loadBalancers = [cf_LoadBalancerIdentifier config], m_backoffSteps = cf_LoadBalancerBackoffSteps config\<rparr>"
  have new: "lb_New config L B k8s A I w = (Inr (?m, None), w)"
    using assms by (simp add: lb_New_def configureLoadBalancers_def configurePrefixes_def)
  have "\<exists>p. EnsureLoadBalancer ?m ch cn svc nodes s = Some (Inl (Panic p), s)"
    if "ms_addressManager s = None \<and> \<not> svc_deletion svc \<and> distinct (map sp_name (svc_ports svc)) \<and>
       (\<forall>n\<in>set nodes. \<exists>a. getNodeEndpointAddress n = Inr a)" for ch cn svc nodes s
  proof -
    note pre = that
    obtain svs where "servers_loop nodes [] = Inr svs" using pre servers_loop_usable [of nodes "[]"] by blast
    with pre have "wanted_for ?m ch svc nodes s = (Inl (Panic ''nil pointer dereference: m.addressManager''), s)"
      by (simp add: wanted_for_def ports_loop_result)
    then show ?thesis by (simp add: EnsureLoadBalancer_def reconciliationForService_def handleRateLimitError_def)
  qed
  then show ?thesis using new by (intro exI [of _ ?m]) simp
qed

theorem lb_New_without_prefixes_panics_witness:
  "\<exists>m. lb_New zero_config ref_lib ref_backoff None ref_api sample_ipam empty_world = (Inr (m, None), empty_world) \<and>
     m_loadBalancers m = [[]] \<and>
     (\<exists>p. EnsureLoadBalancer m (sample_choices (\<lambda>i. http_ports) []) ''c'' (svc_service False) []
            ((sample_state empty_world)\<lparr>ms_addressManager := None\<rparr>) =
          Some (Inl (Panic p), (sample_state empty_world)\<lparr>ms_addressManager := None\<rparr>))"
proof -
  have cfg: "\<not> cf_AutoDiscoverLoadBalancer zero_config" "cf_LoadBalancerPrefixIdentifiers zero_config = []"
    "cf_LoadBalancerIdentifier zero_config = []"
    by (simp_all add: zero_config_def)
  from lb_New_without_prefixes_panics [OF cfg(1,2), where L = ref_lib and B = ref_backoff and k8s = None
      and A = ref_api and I = sample_ipam and w = empty_world, unfolded cfg(3)] obtain m where
    "lb_New zero_config ref_lib ref_backoff None ref_api sample_ipam empty_world = (Inr (m, None), empty_world)"
    "m_loadBalancers m = [[]]"
    and all: "\<forall>ch cn svc nodes s. ms_addressManager s = None \<and> \<not> svc_deletion svc \<and> distinct (map sp_name (svc_ports svc)) \<and>
       (\<forall>n\<in>set nodes. \<exists>a. getNodeEndpointAddress n = Inr a) \<longrightarrow>
       (\<exists>p. EnsureLoadBalancer m ch cn svc nodes s = Some (Inl (Panic p), s))"
    by (elim exE conjE) (rule that)
  moreover have "\<exists>p. EnsureLoadBalancer m (sample_choices (\<lambda>i. http_ports) []) ''c'' (svc_service False) []
            ((sample_state empty_world)\<lparr>ms_addressManager := None\<rparr>) =
          Some (Inl (Panic p), (sample_state empty_world)\<lparr>ms_addressManager := None\<rparr>)"
    using all by (simp add: svc_service_def)
  ultimately show ?thesis by blast
qed

section \<open>Witnesses for the collision check and the status\<close>

definition rival_service :: service where
  "rival_service = (svc_service False)\<lparr>svc_name := ''other''\<rparr>"

definition listing_mgr :: "service list \<Rightarrow> ref_world mgr" where
  "listing_mgr svcs = sample_mgr\<lparr>m_k8s := Some (\<lambda>w. (Inr svcs, w))\<rparr>"

text \<open>
  Another service with the same address collides; one that shows the host name in place of the address
  does not, although it uses the address.
\<close>

theorem checkIPCollision_iff_witness:
  "checkIPCollision (listing_mgr [svc_service False, rival_service]) (v4InV6Prefix @ [8, 8, 8, 8]) (svc_service False) empty_world =
     (Some ErrSingleVIPConflict, empty_world) \<and>
   checkIPCollision (listing_mgr [rival_service\<lparr>svc_ingress := [\<lparr>ing_ip = [], ing_hostname = ''h'', ing_ports = []\<rparr>]\<rparr>])
     (v4InV6Prefix @ [8, 8, 8, 8]) (svc_service False) empty_world = (None, empty_world)"
proof -
  let ?ip = "v4InV6Prefix @ [8, 8, 8, 8] :: ip"
  have list: "m_k8s (listing_mgr svcs) = Some (\<lambda>w. (Inr svcs, w))" for svcs by (simp add: listing_mgr_def)
  note c = checkIPCollision_iff [OF list, where w = empty_world and w' = empty_world and svc = "svc_service False" and ip = ?ip, OF refl]
  have "parseIP ''8.8.8.8'' = ?ip" "parseIP [] = []" by code_simp+
  then show ?thesis unfolding c
    by (simp add: rival_service_def svc_service_def ServiceTypeLoadBalancer_def ip_equal_def)
qed

theorem lbStatus_result_witness:
  "lbStatusFromReconcileStatus [(''8.8.8.8'', [443, 80, 443]), (''9.9.9.9'', [80, 0])] [(''9.9.9.9'', [80, 0]), (''8.8.8.8'', [443, 80, 443])]
     ((svc_service False)\<lparr>svc_annotations := [AKEAnnotationHostname \<mapsto> ''LB.example'']\<rparr>) =
   [\<lparr>ing_ip = [], ing_hostname = ''lb.example'',
     ing_ports = [\<lparr>ps_port = 80, ps_protocol = ''TCP''\<rparr>, \<lparr>ps_port = 443, ps_protocol = ''TCP''\<rparr>]\<rparr>] \<and>
   filter (\<lambda>ing. ing_hostname ing \<noteq> []) (lbStatusFromReconcileStatus [(''8.8.8.8'', [443, 80])] [(''8.8.8.8'', [443, 80])] (svc_service False)) = []"
proof -
  have r: "range_of (map_of [(''8.8.8.8'', [443, 80])]) [(''8.8.8.8'', [443, 80 :: 16 word])]" by (simp add: range_of_def)
  have "proxy_hostname (svc_service False) = []" by code_simp
  with lbStatus_result [OF r r, of "svc_service False"]
  have "\<forall>ing\<in>set (lbStatusFromReconcileStatus [(''8.8.8.8'', [443, 80])] [(''8.8.8.8'', [443, 80])] (svc_service False)). ing_hostname ing = []"
    unfolding Let_def by presburger
  then have "filter (\<lambda>ing. ing_hostname ing \<noteq> []) (lbStatusFromReconcileStatus [(''8.8.8.8'', [443, 80])] [(''8.8.8.8'', [443, 80])] (svc_service False)) = []"
    by (simp only: filter_empty_conv not_not)
  moreover have "lbStatusFromReconcileStatus [(''8.8.8.8'', [443, 80, 443]), (''9.9.9.9'', [80, 0])] [(''9.9.9.9'', [80, 0]), (''8.8.8.8'', [443, 80, 443])]
     ((svc_service False)\<lparr>svc_annotations := [AKEAnnotationHostname \<mapsto> ''LB.example'']\<rparr>) =
   [\<lparr>ing_ip = [], ing_hostname = ''lb.example'',
     ing_ports = [\<lparr>ps_port = 80, ps_protocol = ''TCP''\<rparr>, \<lparr>ps_port = 443, ps_protocol = ''TCP''\<rparr>]\<rparr>]" by code_simp
  ultimately show ?thesis by (rule conjI [rotated])
qed

theorem GetLoadBalancer_created_iff_witness:
  "\<exists>ings s' mrecon eas s1 st.
     GetLoadBalancer sample_mgr (sample_choices (\<lambda>i. []) one_port) ''c'' (svc_service False) (sample_state wanted_world) =
       (Inr (ings, True), s') \<and>
     reconciliationForService sample_mgr (sample_choices (\<lambda>i. []) one_port) (prepare sample_mgr ''c'' (svc_service False))
       (svc_service False) [] (sample_state wanted_world) = (Inr (mrecon, eas), s1) \<and> eas \<noteq> [] \<and>
     run_Status sample_mgr (sample_choices (\<lambda>i. []) one_port) mrecon s1 = (Inr st, s') \<and>
     (\<forall>ea\<in>set eas. \<exists>cs. st (ip_string ea) = Some cs \<and> (\<forall>p\<in>set (svc_ports (svc_service False)). \<exists>c\<in>set cs. ucast c = sp_port p))"
proof -
  let ?run = "GetLoadBalancer sample_mgr (sample_choices (\<lambda>i. []) one_port) ''c'' (svc_service False) (sample_state wanted_world)"
  let ?rf = "reconciliationForService sample_mgr (sample_choices (\<lambda>i. []) one_port) (prepare sample_mgr ''c'' (svc_service False))
       (svc_service False) [] (sample_state wanted_world)"
  have "(case fst ?run of Inl e \<Rightarrow> False | Inr (ings, created) \<Rightarrow> created)" by code_simp
  then obtain ings s' where run: "?run = (Inr (ings, True), s')" by (cases ?run; cases "fst ?run") auto
  have ne: "(case fst ?rf of Inl e \<Rightarrow> False | Inr (mrecon, eas) \<Rightarrow> eas \<noteq> [])" by code_simp
  from GetLoadBalancer_created_iff [OF run] obtain mrecon eas s1 st where rf: "?rf = (Inr (mrecon, eas), s1)"
    and st: "run_Status sample_mgr (sample_choices (\<lambda>i. []) one_port) mrecon s1 = (Inr st, s')"
    and all: "\<forall>ea\<in>set eas. \<exists>cs. st (ip_string ea) = Some cs \<and> (\<forall>p\<in>set (svc_ports (svc_service False)). \<exists>c\<in>set cs. ucast c = sp_port p)"
    by (elim exE conjE) (simp only: simp_thms)
  from ne rf have "eas \<noteq> []" by simp
  with run rf st all show ?thesis by (intro exI conjI)
qed

section \<open>Host names hide addresses\<close>

text \<open>
  C28. A status written for a service with the hostname annotation carries no address: to the address
  manager the service has none, so its next allocation asks for a new one, and the collision check
  passes for every address, whatever addresses these services use.
\<close>

theorem hostname_hides_addresses:
  assumes "\<forall>s\<in>set svcs. proxy_hostname s \<noteq> [] \<and> svc_ingress s = lbStatusFromReconcileStatus (first s) (second s) s"
    and "m_k8s m = Some list" and "list w = (Inr svcs, w')" and "ip \<noteq> []"
  shows "(\<forall>s\<in>set svcs. serviceAddresses s = []) \<and> checkIPCollision m ip svc w = (None, w')"
proof -
  have ings: "\<exists>pts. svc_ingress s = [\<lparr>ing_ip = [], ing_hostname = proxy_hostname s, ing_ports = pts\<rparr>]" if "s \<in> set svcs" for s
  proof -
    have "\<exists>pts. lbStatusFromReconcileStatus (first s) (second s) s = [\<lparr>ing_ip = [], ing_hostname = proxy_hostname s, ing_ports = pts\<rparr>]"
      using assms(1) that by (simp add: lbStatusFromReconcileStatus_def Let_def proxy_hostname_def [symmetric])
    then show ?thesis using assms(1) that by simp
  qed
  have "parseIP [] = []" by code_simp
  then have "\<not> holds_ip ip s" if "s \<in> set svcs" for s
    using ings [OF that] assms(4) by (auto simp: holds_ip_def ip_equal_def)
  then have "\<not> (\<exists>s\<in>set (rivals svc svcs). holds_ip ip s)" by (auto simp: rivals_def)
  then have "checkIPCollision m ip svc w = (None, w')"
    using assms(2,3) by (simp add: checkIPCollision_def collision_loop_iff)
  moreover have "serviceAddresses s = []" if "s \<in> set svcs" for s using ings [OF that] by (auto simp: serviceAddresses_eq)
  ultimately show ?thesis by blast
qed

definition named_service :: service where
  "named_service = rival_service\<lparr>svc_annotations := [AKEAnnotationHostname \<mapsto> ''lb.example''],
     svc_ingress := [\<lparr>ing_ip = [], ing_hostname = ''lb.example'', ing_ports = [\<lparr>ps_port = 80, ps_protocol = ''TCP''\<rparr>]\<rparr>]\<rparr>"

text \<open>The witness: the other service's load balancer answers at 8.8.8.8, and so may this one.\<close>

theorem hostname_hides_addresses_witness:
  "lbStatusFromReconcileStatus [(''8.8.8.8'', [80])] [(''8.8.8.8'', [80])] named_service = svc_ingress named_service \<and>
   checkIPCollision (listing_mgr [named_service]) (v4InV6Prefix @ [8, 8, 8, 8]) (svc_service False) empty_world = (None, empty_world)"
proof -
  let ?st = "[(''8.8.8.8'', [80 :: 16 word])]"
  have st: "lbStatusFromReconcileStatus ?st ?st named_service = svc_ingress named_service" by code_simp
  have "proxy_hostname named_service \<noteq> []" by code_simp
  with st have "\<forall>s\<in>set [named_service]. proxy_hostname s \<noteq> [] \<and> svc_ingress s = lbStatusFromReconcileStatus ?st ?st s" by simp
  from hostname_hides_addresses [OF this, of "listing_mgr [named_service]" "\<lambda>w. (Inr [named_service], w)" empty_world empty_world
      "v4InV6Prefix @ [8, 8, 8, 8]" "svc_service False"] st
  show ?thesis by (simp add: listing_mgr_def v4InV6Prefix_def)
qed

end
