(* ===== verification/Instances.thy ===== *)
theory Instances
  imports Kube Config "HOL-Library.Signed_Division"
begin

text \<open>
  The instances manager (\<open>instances.go\<close>): which VM a node is, whether it exists, is powered off, and
  its metadata. The vSphere API of the Engine is a parameter. The manager's state is the time of the
  last refused request; times are nanoseconds, read by the caller.
\<close>

section \<open>The API and the state\<close>

record disk_info =
  di_type :: string
  di_gb :: int                                     \<comment> \<open>only compared\<close>

record vm_network =
  nw_IPv4 :: "string list"
  nw_IPv6 :: "string list"

record vm_info =
  vi_identifier :: string
  vi_network :: "vm_network list"
  vi_cpu :: int
  vi_ram :: int
  vi_disks :: "disk_info list"
  vi_locationCode :: string
  vi_locationCountry :: string

text \<open>\<open>Info().Get\<close> returns its value also with an error.\<close>

record 'w vsphere =
  vs_info :: "string \<Rightarrow> 'w \<Rightarrow> go_error option \<times> vm_info \<times> 'w"
  vs_power :: "string \<Rightarrow> 'w \<Rightarrow> (go_error + string) \<times> 'w"
  vs_byName :: "string \<Rightarrow> 'w \<Rightarrow> (go_error + string list) \<times> 'w"   \<comment> \<open>the identifiers\<close>
  vs_onState :: string                             \<comment> \<open>\<open>powercontrol.OnState\<close>\<close>
  vs_offState :: string

record 'w instance_manager =
  im_world :: 'w
  im_lastUnauthorized :: int   \<comment> \<open>\<open>lastUnauthorizedOrForbiddenInstanceExistCall\<close>\<close>

text \<open>The zero value of \<open>time.Time\<close>, before the Unix epoch.\<close>

definition zero_time :: int where
  "zero_time = - 62135596800 * 1000000000"

definition time_Minute :: int where
  "time_Minute = 60 * 1000000000"

definition errNamedVirtualMachineNotFound :: go_error where
  "errNamedVirtualMachineNotFound = Sentinel ''virtual machine with given name not found''"
definition errVirtualMachineNameNotUnique :: go_error where
  "errVirtualMachineNameNotUnique = Sentinel ''virtual machine name not unique''"

section \<open>Which VM is a node\<close>

fun internal_loop :: "(string \<times> string) list \<Rightarrow> ip list \<Rightarrow> ip list" where
  "internal_loop [] ret = ret"
| "internal_loop ((ty, a) # addrs) ret =
     (if ty = NodeInternalIP then
        (let ip = parseIP a in if ip \<noteq> [] then internal_loop addrs (ret @ [ip]) else internal_loop addrs ret)
      else internal_loop addrs ret)"

definition nodeInternalIPs :: "node \<Rightarrow> ip list" where
  "nodeInternalIPs n = internal_loop (node_addresses n) []"

fun match_loop :: "string \<Rightarrow> ip \<Rightarrow> ip list \<Rightarrow> string list \<Rightarrow> string list" where
  "match_loop vm ip [] filtered = filtered"
| "match_loop vm ip (nodeIP # ips) filtered =
     match_loop vm ip ips (if ip_equal nodeIP ip then filtered @ [vm] else filtered)"

fun addr_loop :: "string \<Rightarrow> ip list \<Rightarrow> string list \<Rightarrow> string list \<Rightarrow> string list" where
  "addr_loop vm nodeIPs [] filtered = filtered"
| "addr_loop vm nodeIPs (a # as) filtered = addr_loop vm nodeIPs as (match_loop vm (parseIP a) nodeIPs filtered)"

fun network_loop :: "string \<Rightarrow> ip list \<Rightarrow> vm_network list \<Rightarrow> string list \<Rightarrow> string list" where
  "network_loop vm nodeIPs [] filtered = filtered"
| "network_loop vm nodeIPs (nw # nws) filtered =
     network_loop vm nodeIPs nws (addr_loop vm nodeIPs (nw_IPv4 nw @ nw_IPv6 nw) filtered)"

text \<open>An error of \<open>Info().Get\<close> is logged and its value used.\<close>

fun filter_loop :: "'w vsphere \<Rightarrow> ip list \<Rightarrow> string list \<Rightarrow> string list \<Rightarrow> 'w \<Rightarrow> string list \<times> 'w" where
  "filter_loop V nodeIPs [] filtered w = (filtered, w)"
| "filter_loop V nodeIPs (vm # vms) filtered w =
     (case vs_info V vm w of (err, fullVM, w1) \<Rightarrow>
        filter_loop V nodeIPs vms (network_loop (vi_identifier fullVM) nodeIPs (vi_network fullVM) filtered) w1)"

definition filterInstances :: "'w vsphere \<Rightarrow> node \<Rightarrow> string list \<Rightarrow> 'w \<Rightarrow> string list \<times> 'w" where
  "filterInstances V n vms w = filter_loop V (nodeInternalIPs n) vms [] w"

definition instancesByName :: "'w vsphere \<Rightarrow> config \<Rightarrow> string \<Rightarrow> 'w \<Rightarrow> (go_error + string list) \<times> 'w" where
  "instancesByName V c name w =
     (let namePrefix = (if cf_CustomerID c = [] then ''%'' else cf_CustomerID c);
          (found, w2) = (case vs_byName V (namePrefix @ ''-'' @ name) w of
              (Inr vms, w1) \<Rightarrow> (if length vms = 0 then vs_byName V name w1 else (Inr vms, w1))
            | (Inl e, w1) \<Rightarrow> (Inl e, w1)) in
      case found of
        Inl e \<Rightarrow> (Inl (wrap_error ''error listing VMs by name'' e), w2)
      | Inr vms \<Rightarrow> (Inr vms, w2))"

definition InstanceIDByNode :: "'w vsphere \<Rightarrow> config \<Rightarrow> node \<Rightarrow> 'w \<Rightarrow> (go_error + string) \<times> 'w" where
  "InstanceIDByNode V c n w =
     (if node_providerID n \<noteq> [] then (Inr (trim_prefix (node_providerID n) CloudProviderScheme), w)
      else
        (case instancesByName V c (node_name n) w of
           (Inl e, w1) \<Rightarrow> (Inl e, w1)
         | (Inr vms, w1) \<Rightarrow>
             (let (vms2, w2) = (if length vms > 1 then filterInstances V n vms w1 else (vms, w1)) in
              if length vms > 1 \<and> length vms2 > 1 then (Inl errVirtualMachineNameNotUnique, w2)
              else if length vms2 = 1 then (Inr (vms2 ! 0), w2)
              else (Inl errNamedVirtualMachineNotFound, w2))))"

section \<open>The interface of \<open>cloudprovider.InstancesV2\<close>\<close>

text \<open>A nil slice and an empty one are not told apart; the warnings are left out.\<close>

definition NodeAddressesByProviderID ::
  "'w vsphere \<Rightarrow> string \<Rightarrow> 'w \<Rightarrow> (go_error + (string \<times> string) list) \<times> 'w" where
  "NodeAddressesByProviderID V providerID w =
     (if providerID = [] then (Inl (Sentinel ''empty providerId is not allowed''), w)
      else
        (case vs_info V providerID w of
           (Some e, info, w1) \<Rightarrow> (Inl (wrap_error ''could not get vm infoMock'' e), w1)
         | (None, info, w1) \<Rightarrow>
             (if length (vi_network info) = 0 then (Inr [], w1)
              else (Inr (map (\<lambda>ip. (''InternalIP'', ip)) (nw_IPv4 (vi_network info ! 0))), w1))))"

definition handleUnauthorizedForbidden :: "go_error option \<Rightarrow> int \<Rightarrow> 'w instance_manager \<Rightarrow> 'w instance_manager" where
  "handleUnauthorizedForbidden err now i =
     (if IsUnauthorizedOrForbiddenError err then i\<lparr>im_lastUnauthorized := now\<rparr> else i)"

text \<open>\<open>t\<close> is the time of the check, \<open>t'\<close> the time when a refusal is noted.\<close>

definition InstanceExists ::
  "'w vsphere \<Rightarrow> config \<Rightarrow> int \<times> int \<Rightarrow> node \<Rightarrow> 'w instance_manager \<Rightarrow> (go_error + bool) \<times> 'w instance_manager" where
  "InstanceExists V c ts n i =
     (if im_lastUnauthorized i + time_Minute > fst ts then (Inl ErrUnauthorizedForbiddenBackoff, i)
      else
        (case InstanceIDByNode V c n (im_world i) of
           (Inl e, w1) \<Rightarrow> (Inl e, handleUnauthorizedForbidden (Some e) (snd ts) (i\<lparr>im_world := w1\<rparr>))
         | (Inr providerID, w1) \<Rightarrow>
             (case vs_info V providerID w1 of
                (None, info, w2) \<Rightarrow> (Inr True, i\<lparr>im_world := w2\<rparr>)
              | (Some e, info, w2) \<Rightarrow>
                  (if IsNotFoundError (Some e) then Inr False else Inl e,
                   handleUnauthorizedForbidden (Some e) (snd ts) (i\<lparr>im_world := w2\<rparr>)))))"

definition InstanceShutdown :: "'w vsphere \<Rightarrow> config \<Rightarrow> node \<Rightarrow> 'w \<Rightarrow> (go_error + bool) \<times> 'w" where
  "InstanceShutdown V c n w =
     (case InstanceIDByNode V c n w of
        (Inl e, w1) \<Rightarrow> (Inl e, w1)
      | (Inr providerID, w1) \<Rightarrow>
          (case vs_power V providerID w1 of
             (Inl e, w2) \<Rightarrow> (Inl (wrap_error (''could not get power state of '' @ providerID) e), w2)
           | (Inr state, w2) \<Rightarrow>
               (if state = vs_onState V then Inr False
                else if state = vs_offState V then Inr True
                else Inl (OtherError (''unkown power state '' @ state)), w2)))"

text \<open>The largest disk with a type; of equal ones the first.\<close>

fun disk_loop :: "disk_info list \<Rightarrow> disk_info option \<Rightarrow> disk_info option" where
  "disk_loop [] largestDisk = largestDisk"
| "disk_loop (d # ds) largestDisk =
     (if di_type d \<noteq> [] \<and> (case largestDisk of None \<Rightarrow> True | Some l \<Rightarrow> di_gb l < di_gb d)
      then disk_loop ds (Some d) else disk_loop ds largestDisk)"

definition instanceType :: "vm_info \<Rightarrow> string" where
  "instanceType info =
     (let cores = vi_cpu info; ram = vi_ram info sdiv 1024 in
      case disk_loop (vi_disks info) None of
        Some d \<Rightarrow> ''C'' @ string_of_int cores @ ''-M'' @ string_of_int ram @ ''-'' @ di_type d
      | None \<Rightarrow> ''C'' @ string_of_int cores @ ''-M'' @ string_of_int ram)"

record instance_metadata =
  md_ProviderID :: string
  md_InstanceType :: string
  md_NodeAddresses :: "(string \<times> string) list"
  md_Zone :: string
  md_Region :: string

definition InstanceMetadata :: "'w vsphere \<Rightarrow> config \<Rightarrow> node \<Rightarrow> 'w \<Rightarrow> (go_error + instance_metadata) \<times> 'w" where
  "InstanceMetadata V c n w =
     (case InstanceIDByNode V c n w of
        (Inl e, w1) \<Rightarrow> (Inl e, w1)
      | (Inr providerID, w1) \<Rightarrow>
          (case NodeAddressesByProviderID V providerID w1 of
             (Inl e, w2) \<Rightarrow> (Inl e, w2)
           | (Inr nodeAddresses, w2) \<Rightarrow>
               (case vs_info V providerID w2 of
                  (Some e, info, w3) \<Rightarrow> (Inl e, w3)
                | (None, info, w3) \<Rightarrow>
                    (Inr \<lparr>md_ProviderID = providerID, md_InstanceType = instanceType info,
                          md_NodeAddresses = nodeAddresses, md_Zone = vi_locationCode info,
                          md_Region = vi_locationCountry info\<rparr>, w3))))"

section \<open>Existence and the backoff\<close>

lemma handleUnauthorizedForbidden_fields [simp]:
  "im_world (handleUnauthorizedForbidden err now i) = im_world i"
  by (simp add: handleUnauthorizedForbidden_def)

text \<open>
  C32. Kubernetes deletes the node when \<open>InstanceExists\<close> reports that it does not exist. It reports
  that only when no backoff is active, the node's VM was identified, and the Engine answered 404 for
  this very identifier; it reports existence only when the Engine returned the VM.
\<close>

theorem InstanceExists_false_only_not_found:
  assumes "InstanceExists V c ts n i = (Inr ex, i')"
  shows "im_lastUnauthorized i + time_Minute \<le> fst ts \<and>
    (\<exists>providerID w1 err info w2. InstanceIDByNode V c n (im_world i) = (Inr providerID, w1) \<and>
       vs_info V providerID w1 = (err, info, w2) \<and>
       (if ex then err = None else \<exists>e. err = Some e \<and> as_response e = Some 404))"
proof -
  have t: "im_lastUnauthorized i + time_Minute \<le> fst ts"
    using assms by (auto simp: InstanceExists_def split: if_splits)
  obtain r w1 where idn: "InstanceIDByNode V c n (im_world i) = (r, w1)" by fastforce
  with assms t obtain providerID where r: "r = Inr providerID"
    by (cases r) (auto simp: InstanceExists_def)
  obtain err info w2 where get: "vs_info V providerID w1 = (err, info, w2)" by (metis prod_cases3)
  have "if ex then err = None else \<exists>e. err = Some e \<and> as_response e = Some 404"
    using assms t idn r get
    by (auto simp: InstanceExists_def IsNotFoundError_def split: option.splits if_splits)
  with t idn r get show ?thesis by blast
qed


section \<open>Finding the VM by its addresses\<close>

definition vm_addresses :: "vm_info \<Rightarrow> string list" where
  "vm_addresses info = concat (map (\<lambda>nw. nw_IPv4 nw @ nw_IPv6 nw) (vi_network info))"

text \<open>How often an address of the VM equals an internal address of the node.\<close>

definition hits :: "node \<Rightarrow> vm_info \<Rightarrow> nat" where
  "hits n info = sum_list (map (\<lambda>a. length (filter (\<lambda>ip. ip_equal ip (parseIP a)) (nodeInternalIPs n))) (vm_addresses info))"

lemma match_loop_replicate:
  "match_loop vm ip ips filtered = filtered @ replicate (length (filter (\<lambda>n. ip_equal n ip) ips)) vm"
  by (induction ips arbitrary: filtered) (simp_all add: replicate_append_same [symmetric])

lemma addr_loop_replicate:
  "addr_loop vm ips as filtered =
     filtered @ replicate (sum_list (map (\<lambda>a. length (filter (\<lambda>n. ip_equal n (parseIP a)) ips)) as)) vm"
  by (induction as arbitrary: filtered) (simp_all add: match_loop_replicate replicate_add)

lemma network_loop_replicate:
  "network_loop vm (nodeInternalIPs n) (vi_network info) filtered = filtered @ replicate (hits n info) vm"
proof -
  have "network_loop vm ips nws filtered = filtered @ replicate (sum_list (map (\<lambda>a. length (filter (\<lambda>n. ip_equal n (parseIP a)) ips))
      (concat (map (\<lambda>nw. nw_IPv4 nw @ nw_IPv6 nw) nws)))) vm" for ips nws
    by (induction nws arbitrary: filtered) (simp_all add: addr_loop_replicate replicate_add add.assoc)
  then show ?thesis by (simp add: hits_def vm_addresses_def)
qed

lemma filter_loop_concat:
  assumes "\<forall>vm. snd (snd (vs_info V vm w)) = w"
  shows "filter_loop V (nodeInternalIPs n) vms filtered w =
    (filtered @ concat (map (\<lambda>vm. let info = fst (snd (vs_info V vm w)) in replicate (hits n info) (vi_identifier info)) vms), w)"
proof (induction vms arbitrary: filtered)
  case (Cons vm vms)
  obtain err info w' where get: "vs_info V vm w = (err, info, w')" by (metis prod_cases3)
  with assms have "w' = w" by (metis snd_conv)
  with get Cons.IH show ?case by (simp add: network_loop_replicate Let_def)
qed simp

text \<open>
  C34. A node without a provider ID whose name several VMs have is identified by addresses: each
  VM's identifier counts once per pair of equal addresses. Exactly one pair in all gives the VM; no pair
  is "not found"; and two pairs are "not unique" even when both belong to the same VM, which is the case
  for a node with an internal address of each family.
\<close>

theorem InstanceIDByNode_by_address:
  assumes "node_providerID n = []" and "length vms > 1"
    and "vs_byName V ((if cf_CustomerID c = [] then ''%'' else cf_CustomerID c) @ ''-'' @ node_name n) w = (Inr vms, w1)"
    and "\<forall>vm. snd (snd (vs_info V vm w1)) = w1"
  shows "InstanceIDByNode V c n w =
    (case concat (map (\<lambda>vm. let info = fst (snd (vs_info V vm w1)) in replicate (hits n info) (vi_identifier info)) vms) of
       [] \<Rightarrow> Inl errNamedVirtualMachineNotFound
     | [x] \<Rightarrow> Inr x
     | _ \<Rightarrow> Inl errVirtualMachineNameNotUnique, w1)"
proof -
  let ?ids = "concat (map (\<lambda>vm. let info = fst (snd (vs_info V vm w1)) in replicate (hits n info) (vi_identifier info)) vms)"
  have "instancesByName V c (node_name n) w = (Inr vms, w1)"
    using assms(2,3) by (auto simp: instancesByName_def Let_def)
  moreover have "filterInstances V n vms w1 = (?ids, w1)"
    using filter_loop_concat [OF assms(4), of n vms "[]"] by (simp add: filterInstances_def)
  ultimately have eq: "InstanceIDByNode V c n w =
      (if length ?ids > 1 then Inl errVirtualMachineNameNotUnique
       else if length ?ids = 1 then Inr (?ids ! 0) else Inl errNamedVirtualMachineNotFound, w1)"
    using assms(1,2) by (simp add: InstanceIDByNode_def)
  have "(if length xs > 1 then Inl errVirtualMachineNameNotUnique
       else if length xs = 1 then Inr (xs ! 0) else Inl errNamedVirtualMachineNotFound) =
      (case xs of [] \<Rightarrow> Inl errNamedVirtualMachineNotFound | [x] \<Rightarrow> Inr x | _ \<Rightarrow> Inl errVirtualMachineNameNotUnique)" for xs :: "string list"
    by (cases xs; cases "tl xs") simp_all
  then show ?thesis unfolding eq by simp
qed

section \<open>Examples\<close>

definition dual_stack_node :: node where
  "dual_stack_node = \<lparr>node_name = ''n'', node_providerID = [],
     node_addresses = [(''InternalIP'', ''10.0.0.1''), (''InternalIP'', ''fd00::1'')]\<rparr>"

definition vm_of :: "string \<Rightarrow> string list \<Rightarrow> string list \<Rightarrow> vm_info" where
  "vm_of i v4 v6 = \<lparr>vi_identifier = i, vi_network = [\<lparr>nw_IPv4 = v4, nw_IPv6 = v6\<rparr>], vi_cpu = 4, vi_ram = 8192,
     vi_disks = [], vi_locationCode = ''ANX04'', vi_locationCountry = ''AT''\<rparr>"

definition sample_vsphere :: "unit vsphere" where
  "sample_vsphere =
     \<lparr>vs_info = (\<lambda>i w. if i = ''a'' then (None, vm_of ''a'' [''10.0.0.1''] [''fd00::1''], w)
                        else if i = ''b'' then (None, vm_of ''b'' [''10.0.0.2''] [], w)
                        else (Some (ResponseError 404), vm_of [] [] [], w)),
      vs_power = (\<lambda>i w. (Inr ''poweredOn'', w)),
      vs_byName = (\<lambda>s w. (Inr (if s = ''%-n'' then [''a'', ''b''] else []), w)),
      vs_onState = ''poweredOn'', vs_offState = ''poweredOff''\<rparr>"

lemma parse_fd00:
  "parseIP ''fd00::1'' = [253, 0, 0, 0, 0, 0, 0, 0, 0, 0, 0, 0, 0, 0, 0, 1]"
proof -
  have b: "(64768 :: 8 word) = 0" by simp
  have "parse6_loop ''1'' [253, 0] (Some 2) = Some ([253, 0, 0, 1], Some 2, [])"
    by (subst parse6_loop.simps) (simp add: hex_val_def Let_def)
  then have "parse6_loop ''fd00::1'' [] None = Some ([253, 0, 0, 1], Some 2, [])"
    by (subst parse6_loop.simps) (simp add: hex_val_def Let_def b numeral_2_eq_2 [symmetric])
  then show ?thesis
    by (simp add: parseIP_def parse_addr_def parse_ipv6_def parse6_finish_def numeral_eq_Suc)
qed

lemma v4_bytes: "v4InV6Prefix = [0, 0, 0, 0, 0, 0, 0, 0, 0, 0, 255, 255]"
  by code_simp

lemma parse_ten: "parseIP ''10.0.0.1'' = v4InV6Prefix @ [10, 0, 0, 1]" "parseIP ''10.0.0.2'' = v4InV6Prefix @ [10, 0, 0, 2]"
  by (simp_all add: parseIP_def parse_eval)

text \<open>Only \<open>a\<close> has an address of the node, and is not found to be unique.\<close>

theorem InstanceIDByNode_by_address_witness:
  "InstanceIDByNode sample_vsphere zero_config dual_stack_node () = (Inl errVirtualMachineNameNotUnique, ()) \<and>
   hits dual_stack_node (vm_of ''b'' [''10.0.0.2''] []) = 0"
proof -
  have pre: "node_providerID dual_stack_node = []" "length [''a'', ''b''] > 1"
    "vs_byName sample_vsphere ((if cf_CustomerID zero_config = [] then ''%'' else cf_CustomerID zero_config) @ ''-'' @
       node_name dual_stack_node) () = (Inr [''a'', ''b''], ())"
    "\<forall>vm. snd (snd (vs_info sample_vsphere vm ())) = ()"
    by (simp_all add: dual_stack_node_def sample_vsphere_def zero_config_def)
  have h: "hits dual_stack_node (vm_of ''a'' [''10.0.0.1''] [''fd00::1'']) = 2"
    "hits dual_stack_node (vm_of ''b'' [''10.0.0.2''] []) = 0"
    by (simp_all add: hits_def nodeInternalIPs_def dual_stack_node_def NodeInternalIP_def vm_addresses_def vm_of_def
        parse_fd00 parse_ten ip_equal_def v4_bytes)
  have "concat (map (\<lambda>vm. let info = fst (snd (vs_info sample_vsphere vm ())) in replicate (hits dual_stack_node info) (vi_identifier info)) [''a'', ''b''])
      = [''a'', ''a'']"
    by (simp add: sample_vsphere_def h Let_def) (simp add: vm_of_def numeral_2_eq_2)
  with InstanceIDByNode_by_address [OF pre] h show ?thesis by simp
qed

theorem InstanceExists_false_only_not_found_witness:
  "InstanceExists sample_vsphere zero_config (0, 0) (dual_stack_node\<lparr>node_providerID := ''anexia://gone''\<rparr>)
     \<lparr>im_world = (), im_lastUnauthorized = zero_time\<rparr> = (Inr False, \<lparr>im_world = (), im_lastUnauthorized = zero_time\<rparr>) \<and>
   zero_time + time_Minute \<le> 0"
proof -
  let ?i = "\<lparr>im_world = (), im_lastUnauthorized = zero_time\<rparr>"
  have run: "InstanceExists sample_vsphere zero_config (0, 0) (dual_stack_node\<lparr>node_providerID := ''anexia://gone''\<rparr>) ?i = (Inr False, ?i)"
    by code_simp
  from InstanceExists_false_only_not_found [OF run] run show ?thesis by simp
qed


section \<open>Metadata\<close>



lemma disk_loop_max:
  "case disk_loop ds l of
     None \<Rightarrow> l = None \<and> (\<forall>d\<in>set ds. di_type d = [])
   | Some m \<Rightarrow> (m \<in> set ds \<and> di_type m \<noteq> [] \<or> l = Some m) \<and>
       (\<forall>d\<in>set ds. di_type d \<noteq> [] \<longrightarrow> di_gb d \<le> di_gb m) \<and> (\<forall>k. l = Some k \<longrightarrow> di_gb k \<le> di_gb m)"
proof (induction ds arbitrary: l)
  case (Cons d ds)
  from Cons.IH [of l] Cons.IH [of "Some d"] show ?case
    by (cases l) (auto split: option.splits)
qed (simp split: option.split)

text \<open>
  The instance type names the cores, the memory in whole gigabytes, and the type of a largest
  disk among those that have a type; without one the type ends after the memory, never with a dash.
\<close>

theorem instanceType_largest_disk:
  "(\<forall>d\<in>set (vi_disks info). di_type d = []) \<and>
     instanceType info = ''C'' @ string_of_int (vi_cpu info) @ ''-M'' @ string_of_int (vi_ram info sdiv 1024) \<or>
   (\<exists>d\<in>set (vi_disks info). di_type d \<noteq> [] \<and> (\<forall>e\<in>set (vi_disks info). di_type e = [] \<or> di_gb e \<le> di_gb d) \<and>
     instanceType info = ''C'' @ string_of_int (vi_cpu info) @ ''-M'' @ string_of_int (vi_ram info sdiv 1024) @ ''-'' @ di_type d)"
proof (cases "disk_loop (vi_disks info) None")
  case None
  with disk_loop_max [where ds = "vi_disks info" and l = None] show ?thesis by (simp add: instanceType_def Let_def)
next
  case (Some d)
  with disk_loop_max [where ds = "vi_disks info" and l = None] show ?thesis
    by (intro disjI2 bexI [of _ d]) (auto simp: instanceType_def Let_def)
qed

end
