(* ===== verification/Metrics.thy ===== *)
theory Metrics
  imports Prelude
begin

text \<open>
  The provider's metrics (\<open>metrics/metrics.go\<close>): the vectors with their names and labels, the feature
  state behind the lock, \<open>Describe\<close> and \<open>Collect\<close>, and the receiver of the Engine client's metrics
  with the label it keeps of a resource path. The vectors are counters by label values; values are
  whole numbers. The lock makes each method one step.
\<close>

section \<open>Vectors and their names\<close>

definition fqCollectorName :: string where "fqCollectorName = ''cloud_provider_anexia''"

definition getFQMetricName :: "string \<Rightarrow> string" where
  "getFQMetricName metricName = fqCollectorName @ ''_'' @ metricName"

record metric_vec =
  mv_name :: string
  mv_help :: string
  mv_buckets :: "int list"
  mv_labels :: "string list"
  mv_values :: "string list \<rightharpoonup> int"

text \<open>\<open>prometheus.ExponentialBuckets\<close>: \<open>count\<close> bounds from \<open>start\<close>, each \<open>factor\<close> times the last.\<close>

fun exponential_buckets :: "int \<Rightarrow> int \<Rightarrow> nat \<Rightarrow> int list" where
  "exponential_buckets start factor 0 = []"
| "exponential_buckets start factor (Suc n) = start # exponential_buckets (start * factor) factor n"

definition new_vec :: "string \<times> string \<times> int list \<Rightarrow> string list \<Rightarrow> metric_vec" where
  "new_vec opts labels =
     (case opts of (name, help, buckets) \<Rightarrow>
        \<lparr>mv_name = name, mv_help = help, mv_buckets = buckets, mv_labels = labels, mv_values = Map.empty\<rparr>)"

definition getCounterOpts :: "string \<Rightarrow> string \<Rightarrow> string \<times> string \<times> int list" where
  "getCounterOpts metricName helpMessage = (getFQMetricName metricName, helpMessage, [])"

definition getHistogramOpts :: "string \<Rightarrow> string \<Rightarrow> string \<times> string \<times> int list" where
  "getHistogramOpts metricName helpMessage = (getFQMetricName metricName, helpMessage, exponential_buckets 2 2 10)"

record provider_metrics =
  pm_version :: "string \<times> string"               \<comment> \<open>name and version of the build metric\<close>
  pm_totalDuration :: metric_vec
  pm_createErrors :: metric_vec
  pm_deleteRetries :: metric_vec
  pm_deleteErrors :: metric_vec
  pm_created :: metric_vec
  pm_deleted :: metric_vec
  pm_createResources :: metric_vec
  pm_pendingResources :: metric_vec
  pm_retrievedResources :: metric_vec
  pm_featureState :: "string \<rightharpoonup> nat"
  pm_descriptions :: "string list"
  pm_requestCount :: metric_vec
  pm_requestInFlight :: metric_vec

definition setReconcileMetrics :: "provider_metrics \<Rightarrow> provider_metrics" where
  "setReconcileMetrics p =
     p\<lparr>pm_totalDuration := new_vec (getHistogramOpts ''reconcile_total_duration_seconds'' ''Histogram of times spent for one total reconciliation'') [''service''],
       pm_createErrors := new_vec (getCounterOpts ''reconcile_create_errors_total'' ''Counter of errors while creating resources in a reconciliation'') [''service''],
       pm_deleteRetries := new_vec (getCounterOpts ''reconcile_delete_retries_total'' ''Counter of retries while deleting resources in a reconciliation'') [''service''],
       pm_deleteErrors := new_vec (getCounterOpts ''reconcile_delete_errors_total'' ''Counter of errors while deleting resources in a reconciliation'') [''service''],
       pm_created := new_vec (getCounterOpts ''reconcile_created_total'' ''Counter of total created resources'') [''service''],
       pm_deleted := new_vec (getCounterOpts ''reconcile_deleted_total'' ''Counter of total deleted resources'') [''service''],
       pm_createResources := new_vec (getHistogramOpts ''reconcile_create_resources_duration_seconds'' ''Histogram of times spent waiting for resources to become ready after creation'') [''service''],
       pm_pendingResources := new_vec (getFQMetricName ''reconcile_resources_pending'', ''Gauge of pending creation or deletion operations of resources'', []) [''service'', ''operation''],
       pm_retrievedResources := new_vec (getFQMetricName ''reconcile_retrieved_resources_total'', ''Counter of total numbers of resources retrieved grouped by type'', []) [''service'', ''type''],
       pm_requestCount := new_vec (getFQMetricName ''http_client_requests_total'', ''Total amount of requests sent to Anexia Engine'', []) [''resource'', ''method'', ''status''],
       pm_requestInFlight := new_vec (getFQMetricName ''http_client_requests_in_flight'', ''Amount of requests sent to Anexia Engine currently waiting for response'', []) [''resource'', ''method'']\<rparr>"

definition nil_vec :: metric_vec where
  "nil_vec = \<lparr>mv_name = [], mv_help = [], mv_buckets = [], mv_labels = [], mv_values = Map.empty\<rparr>"

definition descProviderBuild :: string where "descProviderBuild = getFQMetricName ''provider_build''"
definition descProviderFeatures :: string where "descProviderFeatures = getFQMetricName ''feature''"

definition NewProviderMetrics :: "string \<Rightarrow> string \<Rightarrow> provider_metrics" where
  "NewProviderMetrics providerName providerVersion =
     setReconcileMetrics
       \<lparr>pm_version = (providerName, providerVersion),
        pm_totalDuration = nil_vec, pm_createErrors = nil_vec, pm_deleteRetries = nil_vec, pm_deleteErrors = nil_vec,
        pm_created = nil_vec, pm_deleted = nil_vec, pm_createResources = nil_vec, pm_pendingResources = nil_vec,
        pm_retrievedResources = nil_vec, pm_featureState = Map.empty,
        pm_descriptions = [descProviderBuild, descProviderFeatures],
        pm_requestCount = nil_vec, pm_requestInFlight = nil_vec\<rparr>"

section \<open>The collector\<close>

text \<open>A constant metric: its description, its value and its label values.\<close>

type_synonym const_metric = "string \<times> nat \<times> string list"

definition FeatureEnabled :: nat where "FeatureEnabled = 1"
definition FeatureDisabled :: nat where "FeatureDisabled = 0"

definition Describe :: "provider_metrics \<Rightarrow> string list" where
  "Describe p = pm_descriptions p"

text \<open>What \<open>Collect\<close> sends; \<open>order\<close> is the order of the range over the feature states.\<close>

definition Collect_metrics :: "(string \<times> nat) list \<Rightarrow> provider_metrics \<Rightarrow> const_metric list" where
  "Collect_metrics order p =
     (descProviderBuild, 1, [fst (pm_version p), snd (pm_version p)]) #
     map (\<lambda>(f, v). (descProviderFeatures, v, [f])) order"

definition MarkFeatureEnabled :: "string \<Rightarrow> provider_metrics \<Rightarrow> provider_metrics" where
  "MarkFeatureEnabled featureName p = p\<lparr>pm_featureState := (pm_featureState p)(featureName \<mapsto> FeatureEnabled)\<rparr>"

definition MarkFeatureDisabled :: "string \<Rightarrow> provider_metrics \<Rightarrow> provider_metrics" where
  "MarkFeatureDisabled featureName p = p\<lparr>pm_featureState := (pm_featureState p)(featureName \<mapsto> FeatureDisabled)\<rparr>"

section \<open>Paths\<close>

text \<open>
  Go's package \<open>path\<close>. \<open>Clean\<close> works on the elements: empty ones and dots are dropped, two dots take
  back the element before them, if there is one, and are dropped at the root.
\<close>

fun clean_elements :: "bool \<Rightarrow> string list \<Rightarrow> string list \<Rightarrow> string list" where
  "clean_elements rooted [] out = out"
| "clean_elements rooted (e # es) out =
     (if e = [] \<or> e = ''.'' then clean_elements rooted es out
      else if e = ''..'' then
        (if out \<noteq> [] \<and> last out \<noteq> ''..'' then clean_elements rooted es (butlast out)
         else if rooted then clean_elements rooted es out
         else clean_elements rooted es (out @ [e]))
      else clean_elements rooted es (out @ [e]))"

definition path_clean :: "string \<Rightarrow> string" where
  "path_clean p =
     (let rooted = (p \<noteq> [] \<and> hd p = CHR ''/'');
          s = (if rooted then ''/'' else []) @ join_with ''/'' (clean_elements rooted (split_at (CHR ''/'') p) [])
      in if s = [] then ''.'' else s)"

definition after_slash :: "string \<Rightarrow> string" where
  "after_slash p = rev (takeWhile (\<lambda>c. c \<noteq> CHR ''/'') (rev p))"

definition up_to_slash :: "string \<Rightarrow> string" where
  "up_to_slash p = rev (dropWhile (\<lambda>c. c \<noteq> CHR ''/'') (rev p))"

definition path_dir :: "string \<Rightarrow> string" where
  "path_dir p = path_clean (up_to_slash p)"

definition path_base :: "string \<Rightarrow> string" where
  "path_base p =
     (if p = [] then ''.''
      else (let q = rev (dropWhile (\<lambda>c. c = CHR ''/'') (rev p)); b = after_slash q
            in if b = [] then ''/'' else b))"

section \<open>The receiver\<close>

definition vsphereInfo :: string where "vsphereInfo = ''vsphere/v1/info.json''"
definition vsphereProvisioning :: string where "vsphereProvisioning = ''vsphere/v1/provisioning/vm.json''"

definition filterResourceLabel :: "string \<Rightarrow> string" where
  "filterResourceLabel resource =
     (let r1 = trim_prefix resource ''/api/'';
          identifierRemoved = path_base (path_dir r1);
          r2 = (if has_suffix identifierRemoved ''.json'' then identifierRemoved else r1);
          r3 = (if has_prefix r2 (vsphereInfo @ ''/'') then vsphereInfo else r2);
          r4 = (if has_prefix r3 (vsphereProvisioning @ ''/'') then vsphereProvisioning else r3)
      in r4)"

datatype metric_label = MetricLabelResource | MetricLabelMethod | MetricLabelStatus | OtherLabel string
datatype client_metric = MetricRequestCount | MetricRequestInflight | OtherMetric string

text \<open>The labels read so far: resource, method and status.\<close>

fun label_loop :: "(metric_label \<times> string) list \<Rightarrow> string \<times> string \<times> string \<Rightarrow> string \<times> string \<times> string" where
  "label_loop [] acc = acc"
| "label_loop ((l, v) # ls) (resource, method, status) =
     label_loop ls
       (case l of
          MetricLabelResource \<Rightarrow> (filterResourceLabel v, method, status)
        | MetricLabelMethod \<Rightarrow> (resource, v, status)
        | MetricLabelStatus \<Rightarrow> (resource, method, v)
        | OtherLabel x \<Rightarrow> (resource, method, status))"

definition vec_add :: "string list \<Rightarrow> int \<Rightarrow> metric_vec \<Rightarrow> metric_vec" where
  "vec_add labels v vec =
     vec\<lparr>mv_values := (mv_values vec)(labels \<mapsto> (case mv_values vec labels of None \<Rightarrow> v | Some old \<Rightarrow> old + v))\<rparr>"

fun metric_loop :: "string \<times> string \<times> string \<Rightarrow> (client_metric \<times> int) list \<Rightarrow> provider_metrics \<Rightarrow> provider_metrics" where
  "metric_loop lbl [] p = p"
| "metric_loop (resource, method, status) ((m, v) # ms) p =
     metric_loop (resource, method, status) ms
       (case m of
          MetricRequestCount \<Rightarrow> p\<lparr>pm_requestCount := vec_add [resource, method, status] v (pm_requestCount p)\<rparr>
        | MetricRequestInflight \<Rightarrow> p\<lparr>pm_requestInFlight := vec_add [resource, method] v (pm_requestInFlight p)\<rparr>
        | OtherMetric x \<Rightarrow> p)"

definition MetricReceiver ::
  "(client_metric \<times> int) list \<Rightarrow> (metric_label \<times> string) list \<Rightarrow> provider_metrics \<Rightarrow> provider_metrics" where
  "MetricReceiver metrics labels p = metric_loop (label_loop labels ([], [], [])) metrics p"

section \<open>What the receiver counts\<close>

lemma label_loop_value:
  "distinct (map fst ls) \<Longrightarrow> label_loop ls (r, m, s) =
     ((case map_of ls MetricLabelResource of None \<Rightarrow> r | Some v \<Rightarrow> filterResourceLabel v),
      (case map_of ls MetricLabelMethod of None \<Rightarrow> m | Some v \<Rightarrow> v),
      (case map_of ls MetricLabelStatus of None \<Rightarrow> s | Some v \<Rightarrow> v))"
proof (induction ls arbitrary: r m s)
  case (Cons lv ls)
  obtain l v where lv: "lv = (l, v)" by fastforce
  from Cons.prems lv have "map_of ls l = None" "distinct (map fst ls)" by (auto simp: map_of_eq_None_iff)
  with lv Cons.IH show ?case by (cases l) simp_all
qed simp

text \<open>The vector after an entry that may be missing.\<close>

definition add_entry :: "int option \<Rightarrow> string list \<Rightarrow> metric_vec \<Rightarrow> metric_vec" where
  "add_entry entry lbl vec = (case entry of None \<Rightarrow> vec | Some v \<Rightarrow> vec_add lbl v vec)"

lemma add_entry_simps [simp]: "add_entry None lbl vec = vec" "add_entry (Some v) lbl vec = vec_add lbl v vec"
  by (simp_all add: add_entry_def)

lemma metric_loop_value:
  "distinct (map fst ms) \<Longrightarrow> metric_loop (r, m, s) ms p =
     p\<lparr>pm_requestCount := add_entry (map_of ms MetricRequestCount) [r, m, s] (pm_requestCount p),
       pm_requestInFlight := add_entry (map_of ms MetricRequestInflight) [r, m] (pm_requestInFlight p)\<rparr>"
proof (induction ms arbitrary: p)
  case (Cons mv ms)
  obtain x v where mv: "mv = (x, v)" by fastforce
  from Cons.prems mv have none: "map_of ms x = None" "distinct (map fst ms)" by (auto simp: map_of_eq_None_iff)
  show ?case
    unfolding mv metric_loop.simps Cons.IH [OF none(2)]
    by (cases x) (use none(1) in simp_all)
qed simp

text \<open>
  The order in which Go visits the two maps does not matter to the receiver: any two orders give
  the same metrics, which are those of the specification by lookup.
\<close>

theorem MetricReceiver_order_independent:
  assumes "range_of metrics ms" and "range_of labels ls"
  shows "MetricReceiver ms ls p =
    (let lookup = (\<lambda>l. case labels l of None \<Rightarrow> [] | Some v \<Rightarrow> v);
         r = (case labels MetricLabelResource of None \<Rightarrow> [] | Some v \<Rightarrow> filterResourceLabel v);
         add = (\<lambda>k. add_entry (metrics k)) in
     p\<lparr>pm_requestCount := add MetricRequestCount [r, lookup MetricLabelMethod, lookup MetricLabelStatus] (pm_requestCount p),
       pm_requestInFlight := add MetricRequestInflight [r, lookup MetricLabelMethod] (pm_requestInFlight p)\<rparr>)"
  using assms by (simp add: MetricReceiver_def label_loop_value metric_loop_value range_of_def Let_def)

definition sample_metrics :: provider_metrics where
  "sample_metrics = NewProviderMetrics ''anexia'' ''v1''"

theorem MetricReceiver_order_independent_witness:
  "MetricReceiver [(MetricRequestInflight, 1), (MetricRequestCount, 1)] [(MetricLabelStatus, ''200''), (MetricLabelMethod, ''GET'')] sample_metrics =
   MetricReceiver [(MetricRequestCount, 1), (MetricRequestInflight, 1)] [(MetricLabelMethod, ''GET''), (MetricLabelStatus, ''200'')] sample_metrics"
proof -
  let ?m = "[MetricRequestCount \<mapsto> 1, MetricRequestInflight \<mapsto> 1]"
  let ?l = "[MetricLabelMethod \<mapsto> ''GET'', MetricLabelStatus \<mapsto> ''200'']"
  have r: "range_of ?m [(MetricRequestInflight, 1), (MetricRequestCount, 1)]" "range_of ?m [(MetricRequestCount, 1), (MetricRequestInflight, 1)]"
    "range_of ?l [(MetricLabelStatus, ''200''), (MetricLabelMethod, ''GET'')]" "range_of ?l [(MetricLabelMethod, ''GET''), (MetricLabelStatus, ''200'')]"
    by (auto simp: range_of_def fun_eq_iff)
  show ?thesis
    unfolding MetricReceiver_order_independent [OF r(1,3)] MetricReceiver_order_independent [OF r(2,4)] ..
qed

section \<open>The label of a resource\<close>

text \<open>An element of a path that \<open>Clean\<close> leaves alone.\<close>

definition plain :: "string \<Rightarrow> bool" where
  "plain e \<longleftrightarrow> e \<noteq> [] \<and> e \<noteq> ''.'' \<and> e \<noteq> ''..'' \<and> CHR ''/'' \<notin> set e"

lemma split_at_single: "c \<notin> set x \<Longrightarrow> split_at c x = [x]"
  by (induction x) auto

lemma split_at_append: "c \<notin> set x \<Longrightarrow> split_at c (x @ c # s) = x # split_at c s"
  by (induction x) auto

lemma split_at_join: "xs \<noteq> [] \<Longrightarrow> \<forall>x\<in>set xs. c \<notin> set x \<Longrightarrow> split_at c (join_with [c] xs) = xs"
proof (induction xs)
  case (Cons x xs)
  then show ?case by (cases xs) (simp_all add: split_at_single split_at_append)
qed simp

lemma clean_elements_plain: "\<forall>e\<in>set es. plain e \<Longrightarrow> clean_elements False es out = out @ es"
  by (induction es arbitrary: out) (simp_all add: plain_def)

lemma clean_elements_snoc_empty: "clean_elements rooted (es @ [[]]) out = clean_elements rooted es out"
proof -
  have "clean_elements True (es @ [[]]) out = clean_elements True es out"
    "clean_elements False (es @ [[]]) out = clean_elements False es out"
    by (induction es arbitrary: out) simp_all
  then show ?thesis by (cases rooted) simp_all
qed

lemma join_with_snoc: "xs \<noteq> [] \<Longrightarrow> join_with sep (xs @ [x]) = join_with sep xs @ sep @ x"
proof (induction xs)
  case (Cons y ys)
  then show ?case by (cases ys) simp_all
qed simp

lemma join_plain_hd:
  assumes "cs \<noteq> []" and "\<forall>e\<in>set cs. plain e"
  shows "join_with ''/'' cs \<noteq> [] \<and> hd (join_with ''/'' cs) \<noteq> CHR ''/''"
proof -
  obtain x xs where cs: "cs = x # xs" using assms(1) by (cases cs) auto
  then have "plain x" using assms(2) by simp
  then have "x \<noteq> []" "hd x \<noteq> CHR ''/''" unfolding plain_def by (metis list.set_sel(1))+
  with cs show ?thesis by (cases xs) simp_all
qed

lemma path_dir_plain:
  assumes "cs \<noteq> []" and "\<forall>e\<in>set cs. plain e" and "CHR ''/'' \<notin> set i"
  shows "path_dir (join_with ''/'' (cs @ [i])) = join_with ''/'' cs"
proof -
  have "up_to_slash (join_with ''/'' (cs @ [i])) = join_with ''/'' (cs @ [[]])"
    using assms(3) by (simp add: join_with_snoc [OF assms(1)] up_to_slash_def dropWhile_append)
  moreover have "split_at (CHR ''/'') (join_with ''/'' (cs @ [[]])) = cs @ [[]]"
    by (rule split_at_join) (use assms(2) in \<open>auto simp: plain_def\<close>)
  moreover have "hd (join_with ''/'' (cs @ [[]])) \<noteq> CHR ''/''"
    using join_plain_hd [OF assms(1,2)] by (simp add: join_with_snoc [OF assms(1)])
  ultimately show ?thesis
    using join_plain_hd [OF assms(1,2)]
    by (simp add: path_dir_def path_clean_def clean_elements_snoc_empty clean_elements_plain [OF assms(2)])
qed

lemma path_base_append:
  assumes "x \<noteq> []" and "CHR ''/'' \<notin> set x" and "pre = [] \<or> last pre = CHR ''/''"
  shows "path_base (pre @ x) = x"
proof -
  have all: "\<And>c. c \<in> set (rev x) \<Longrightarrow> c \<noteq> CHR ''/''" using assms(2) by auto
  have "dropWhile (\<lambda>c. c = CHR ''/'') (rev x @ rev pre) = rev x @ rev pre"
    using all assms(1) by (cases "rev x") auto
  moreover have "takeWhile (\<lambda>c. c \<noteq> CHR ''/'') (rev pre) = []"
    using assms(3) by (cases "rev pre") (auto simp: hd_rev [symmetric])
  then have "takeWhile (\<lambda>c. c \<noteq> CHR ''/'') (rev x @ rev pre) = rev x"
    using takeWhile_append2 [of "rev x" "\<lambda>c. c \<noteq> CHR ''/''" "rev pre"] all by simp
  ultimately show ?thesis using assms(1) by (simp add: path_base_def after_slash_def Let_def)
qed

lemma path_base_plain:
  assumes "plain x"
  shows "path_base (join_with ''/'' (cs @ [x])) = x"
proof (cases "cs = []")
  case True
  then show ?thesis using assms path_base_append [of x "[]"] by (simp add: plain_def)
next
  case False
  then show ?thesis
    using assms path_base_append [of x "join_with ''/'' cs @ ''/''"] by (simp add: plain_def join_with_snoc)
qed

lemma has_prefix_slash: "CHR ''/'' \<notin> set e \<Longrightarrow> \<not> has_prefix e (p @ ''/'')"
  by (auto simp: has_prefix_iff)

text \<open>
  The label of a request for one object, \<open>/api/<path>/<file>.json/<identifier>\<close>, is \<open><file>.json\<close>:
  it does not depend on the identifier, so identifiers do not multiply the labels, but the path before
  the file is lost as well, so that objects of different services with the same file name share it.
\<close>

theorem filterResourceLabel_drops_identifier:
  assumes "\<forall>e\<in>set cs. plain e" and "plain file" and "has_suffix file ''.json''" and "CHR ''/'' \<notin> set i"
  shows "filterResourceLabel (''/api/'' @ join_with ''/'' (cs @ [file, i])) = file"
proof -
  have "path_dir (join_with ''/'' ((cs @ [file]) @ [i])) = join_with ''/'' (cs @ [file])"
    by (rule path_dir_plain) (use assms in auto)
  moreover have "trim_prefix (''/api/'' @ s) ''/api/'' = s" for s by (rule trim_prefix_append)
  moreover have "\<not> has_prefix file (p @ ''/'')" for p
    by (rule has_prefix_slash) (use assms(2) in \<open>simp add: plain_def\<close>)
  ultimately show ?thesis
    using assms(3) path_base_plain [OF assms(2), of cs]
    by (simp only: filterResourceLabel_def append_assoc append.simps Let_def if_True if_False)
qed

theorem filterResourceLabel_drops_identifier_witness:
  "filterResourceLabel ''/api/lbaas/v1/rule.json/id-1'' = ''rule.json'' \<and>
   filterResourceLabel ''/api/firewall/v2/rule.json/id-2'' = ''rule.json''"
proof -
  have plain: "plain ''rule.json''" "has_suffix ''rule.json'' ''.json''" by (simp_all add: plain_def has_suffix_def)
  have a: "\<forall>e\<in>set [''lbaas'', ''v1'']. plain e" "\<forall>e\<in>set [''firewall'', ''v2'']. plain e" by (simp_all add: plain_def)
  from filterResourceLabel_drops_identifier [OF a(1) plain, of "''id-1''"]
    filterResourceLabel_drops_identifier [OF a(2) plain, of "''id-2''"]
  show ?thesis by simp
qed

section \<open>Features\<close>

lemma NewProviderMetrics_fields [simp]:
  "pm_featureState (NewProviderMetrics name version) = Map.empty"
  "pm_version (NewProviderMetrics name version) = (name, version)"
  "pm_descriptions (NewProviderMetrics name version) = [descProviderBuild, descProviderFeatures]"
  by (simp_all add: NewProviderMetrics_def setReconcileMetrics_def)

text \<open>The marks of features as a history; the last mark of each is what is collected.\<close>

datatype mark = Enabled string | Disabled string

fun apply_mark :: "mark \<Rightarrow> provider_metrics \<Rightarrow> provider_metrics" where
  "apply_mark (Enabled f) p = MarkFeatureEnabled f p"
| "apply_mark (Disabled f) p = MarkFeatureDisabled f p"

fun last_mark :: "string \<Rightarrow> mark list \<Rightarrow> nat option" where
  "last_mark f [] = None"
| "last_mark f (m # ms) =
     (case last_mark f ms of
        Some v \<Rightarrow> Some v
      | None \<Rightarrow> (case m of Enabled g \<Rightarrow> if g = f then Some 1 else None | Disabled g \<Rightarrow> if g = f then Some 0 else None))"

lemma marks_state:
  "pm_featureState (fold apply_mark ms p) f =
     (case last_mark f ms of Some v \<Rightarrow> Some v | None \<Rightarrow> pm_featureState p f) \<and>
   pm_version (fold apply_mark ms p) = pm_version p"
proof (induction ms arbitrary: p)
  case (Cons m ms)
  from Cons.IH [of "apply_mark m p"] show ?case
    by (cases m) (auto simp: MarkFeatureEnabled_def MarkFeatureDisabled_def FeatureEnabled_def FeatureDisabled_def split: option.split)
qed simp

text \<open>
  \<open>Collect\<close> after any history of marks: the build metric, then for every feature marked at least
  once exactly one metric with the value of its last mark, whatever the order of the map; each metric
  is one of those \<open>Describe\<close> announces.
\<close>

theorem Collect_last_marks:
  assumes "range_of (pm_featureState (fold apply_mark ms (NewProviderMetrics name version))) order"
  shows "let out = Collect_metrics order (fold apply_mark ms (NewProviderMetrics name version)) in
    hd out = (descProviderBuild, 1, [name, version]) \<and> distinct (tl out) \<and>
    set (tl out) = {(descProviderFeatures, v, [f]) | f v. last_mark f ms = Some v} \<and>
    fst ` set out \<subseteq> set (Describe (NewProviderMetrics name version))"
proof -
  let ?p = "NewProviderMetrics name version"
  have st: "pm_featureState (fold apply_mark ms ?p) f = last_mark f ms" for f
    using marks_state [of ms ?p f] by (simp split: option.splits)
  have ver: "pm_version (fold apply_mark ms ?p) = (name, version)"
    using marks_state [of ms ?p] by simp
  have mem: "(f, v) \<in> set order \<longleftrightarrow> last_mark f ms = Some v" for f v
    using range_of_mem [OF assms] st by simp
  have "inj_on (\<lambda>(f, v). (descProviderFeatures, v, [f])) (set order)" by (auto simp: inj_on_def)
  then have "distinct (map (\<lambda>(f, v). (descProviderFeatures, v, [f])) order)"
    using range_of_distinct [OF assms] by (simp add: distinct_map)
  moreover have "(\<lambda>(f, v). (descProviderFeatures, v, [f])) ` set order = {(descProviderFeatures, v, [f]) | f v. last_mark f ms = Some v}"
    using mem by (force simp: image_iff)
  ultimately show ?thesis
    by (auto simp: Collect_metrics_def ver Let_def Describe_def)
qed

theorem Collect_last_marks_witness:
  "tl (Collect_metrics [(''a'', 1), (''b'', 0)] (fold apply_mark [Disabled ''a'', Disabled ''b'', Enabled ''a''] sample_metrics)) =
     [(descProviderFeatures, 1, [''a'']), (descProviderFeatures, 0, [''b''])] \<and>
   distinct (tl (Collect_metrics [(''a'', 1), (''b'', 0)] (fold apply_mark [Disabled ''a'', Disabled ''b'', Enabled ''a''] sample_metrics)))"
proof -
  let ?p = "fold apply_mark [Disabled ''a'', Disabled ''b'', Enabled ''a''] (NewProviderMetrics ''anexia'' ''v1'')"
  have "range_of (pm_featureState ?p) [(''a'', 1), (''b'', 0)]"
    by (auto simp: range_of_def fun_eq_iff MarkFeatureEnabled_def MarkFeatureDisabled_def FeatureEnabled_def
        FeatureDisabled_def)
  from Collect_last_marks [OF this] show ?thesis
    by (simp add: Let_def Collect_metrics_def sample_metrics_def)
qed

end
