(* ===== verification/ProviderModel.thy ===== *)
theory ProviderModel
  imports LoadBalancer Instances Metrics
begin

text \<open>
  The cloud provider (\<open>provider.go\<close>) and the start of the program (\<open>main.go\<close>): creation with its
  metrics, \<open>Initialize\<close>, the interfaces it offers to the cloud controller manager, and the checks of
  the command. Clients, the metrics registry and the Kubernetes framework are parameters.
\<close>

section \<open>Registration of the metrics\<close>

text \<open>
  The registry holds the descriptions of what has been registered; a second registration of one of
  them is a panic. \<open>once\<close> is \<open>registerOnce\<close>.
\<close>

record registry =
  rg_once :: bool
  rg_names :: "string list"

definition MustRegister :: "string list \<Rightarrow> string list \<Rightarrow> go_error + string list" where
  "MustRegister descs names =
     (if list_ex (\<lambda>d. List.member names d) descs then Inl (Panic ''duplicate metrics collector registration attempted'')
      else Inr (names @ descs))"

fun register_all :: "string list list \<Rightarrow> string list \<Rightarrow> go_error + string list" where
  "register_all [] names = Inr names"
| "register_all (d # ds) names =
     (case MustRegister d names of Inl p \<Rightarrow> Inl p | Inr names' \<Rightarrow> register_all ds names')"

definition featureNameLoadBalancer :: string where "featureNameLoadBalancer = ''load_balancer_provisioning''"
definition featureNameInstancesV2 :: string where "featureNameInstancesV2 = ''instances_v2''"
definition Version :: string where "Version = ''v0.0.0-unreleased''"

definition collectors :: "provider_metrics \<Rightarrow> string list list" where
  "collectors p =
     [Describe p, [mv_name (pm_totalDuration p)], [mv_name (pm_createErrors p)], [mv_name (pm_deleteRetries p)],
      [mv_name (pm_deleteErrors p)], [mv_name (pm_created p)], [mv_name (pm_deleted p)], [mv_name (pm_createResources p)],
      [mv_name (pm_pendingResources p)], [mv_name (pm_retrievedResources p)], [mv_name (pm_requestCount p)],
      [mv_name (pm_requestInFlight p)]]"

definition setupProviderMetrics :: "registry \<Rightarrow> go_error + provider_metrics \<times> registry" where
  "setupProviderMetrics rg =
     (let p = NewProviderMetrics ''anexia'' Version in
      case (if rg_once rg then Inr (rg_names rg) else register_all (collectors p) (rg_names rg)) of
        Inl e \<Rightarrow> Inl e
      | Inr names \<Rightarrow>
          Inr (MarkFeatureDisabled featureNameInstancesV2 (MarkFeatureDisabled featureNameLoadBalancer p),
               \<lparr>rg_once = True, rg_names = names\<rparr>))"

section \<open>The provider\<close>

text \<open>
  \<open>instanceManager\<close> and \<open>loadBalancerManager\<close> are nil until \<open>Initialize\<close>. The provider's methods have
  value receivers; the map of the feature states is shared, so a mark is seen everywhere.
\<close>

record 'w provider =
  pv_config :: config
  pv_instanceManager :: "int option"                \<comment> \<open>its \<open>lastUnauthorizedOrForbiddenInstanceExistCall\<close>\<close>
  pv_loadBalancerManager :: "('w mgr \<times> amgr option) option"
  pv_metrics :: provider_metrics

text \<open>What the environment answers: setting the token, creating the two clients.\<close>

record provider_env =
  pe_setenv :: "go_error option"
  pe_legacyClient :: "go_error option"
  pe_genericClient :: "go_error option"

definition newAnxProvider :: "provider_env \<Rightarrow> config \<Rightarrow> registry \<Rightarrow> (go_error + 'w provider) \<times> registry" where
  "newAnxProvider E config rg =
     (case pe_setenv E of
        Some e \<Rightarrow> (Inl e, rg)
      | None \<Rightarrow>
          (case setupProviderMetrics rg of
             Inl p \<Rightarrow> (Inl p, rg)
           | Inr (providerMetrics, rg1) \<Rightarrow>
               (case pe_legacyClient E of
                  Some e \<Rightarrow> (Inl (wrap_error ''could not create legacy anexia client.'' e), rg1)
                | None \<Rightarrow>
                    (case pe_genericClient E of
                       Some e \<Rightarrow> (Inl (wrap_error ''could not create generic anexia client.'' e), rg1)
                     | None \<Rightarrow>
                         (Inr \<lparr>pv_config = config, pv_instanceManager = None, pv_loadBalancerManager = None,
                               pv_metrics = providerMetrics\<rparr>, rg1)))))"

text \<open>The clients the provider hands to its managers.\<close>

record 'w clients =
  cl_lib :: lib
  cl_api :: "'w api"
  cl_ipam :: "'w ipam"
  cl_backoff :: "'w backoff"

text \<open>\<open>builder\<close> is \<open>None\<close> for nil, else what \<open>Client("LoadBalancer")\<close> returns.\<close>

definition initializeLoadBalancerManager ::
  "'w clients \<Rightarrow> (go_error + 'w service_lister) option \<Rightarrow> 'w provider \<Rightarrow> 'w \<Rightarrow> 'w provider \<times> 'w" where
  "initializeLoadBalancerManager C builder a w =
     (let k8sClient = (case builder of None \<Rightarrow> None | Some (Inl e) \<Rightarrow> None | Some (Inr c) \<Rightarrow> Some c) in
      case lb_New (pv_config a) (cl_lib C) (cl_backoff C) k8sClient (cl_api C) (cl_ipam C) w of
        (Inl e, w1) \<Rightarrow> (a, w1)
      | (Inr lb, w1) \<Rightarrow> (a\<lparr>pv_loadBalancerManager := Some lb\<rparr>, w1))"

definition Initialize ::
  "'w clients \<Rightarrow> (go_error + 'w service_lister) option \<Rightarrow> 'w provider \<Rightarrow> 'w \<Rightarrow> 'w provider \<times> 'w" where
  "Initialize C builder a w =
     (case initializeLoadBalancerManager C builder a w of
        (a1, w1) \<Rightarrow> (a1\<lparr>pv_instanceManager := Some zero_time\<rparr>, w1))"

definition provider_LoadBalancer :: "'w provider \<Rightarrow> (('w mgr \<times> amgr option) option \<times> bool) \<times> 'w provider" where
  "provider_LoadBalancer a =
     (case pv_loadBalancerManager a of
        None \<Rightarrow> ((None, False), a)
      | Some lb \<Rightarrow> ((Some lb, True), a\<lparr>pv_metrics := MarkFeatureEnabled featureNameLoadBalancer (pv_metrics a)\<rparr>))"

definition provider_InstancesV2 :: "'w provider \<Rightarrow> (int option \<times> bool) \<times> 'w provider" where
  "provider_InstancesV2 a =
     (case pv_instanceManager a of
        None \<Rightarrow> ((None, False), a)
      | Some im \<Rightarrow> ((Some im, True), a\<lparr>pv_metrics := MarkFeatureEnabled featureNameInstancesV2 (pv_metrics a)\<rparr>))"

text \<open>The interfaces that are not offered, and the constants.\<close>

definition provider_Instances :: "'w provider \<Rightarrow> unit option \<times> bool" where "provider_Instances a = (None, False)"
definition provider_Zones :: "'w provider \<Rightarrow> unit option \<times> bool" where "provider_Zones a = (None, False)"
definition provider_Clusters :: "'w provider \<Rightarrow> unit option \<times> bool" where "provider_Clusters a = (None, False)"
definition provider_Routes :: "'w provider \<Rightarrow> unit option \<times> bool" where "provider_Routes a = (None, False)"
definition ProviderName :: "'w provider \<Rightarrow> string" where "ProviderName a = CloudProviderName"
definition HasClusterID :: "'w provider \<Rightarrow> bool" where "HasClusterID a = True"
definition provider_Config :: "'w provider \<Rightarrow> config" where "provider_Config a = pv_config a"

text \<open>The factory \<open>registerCloudProvider\<close> registers under the name "anexia".\<close>

definition provider_factory ::
  "config_env \<Rightarrow> provider_env \<Rightarrow> (go_error + string) option \<Rightarrow> string option \<Rightarrow> registry \<Rightarrow>
   (go_error + 'w provider) \<times> string option \<times> registry" where
  "provider_factory CE E configReader managerOptions rg =
     (case NewProviderConfig CE configReader managerOptions of
        ((Some e, _), mo) \<Rightarrow> (Inl e, mo, rg)
      | ((None, config), mo) \<Rightarrow> (case newAnxProvider E config rg of (res, rg1) \<Rightarrow> (res, mo, rg1)))"

section \<open>The start of the program\<close>

text \<open>\<open>klog.Fatalf\<close> ends the process; so does a panic.\<close>

datatype 'a outcome = Fatal string | Crash string | Continue 'a

record manager_options =
  mo_leaderElection :: bool
  mo_allowPaths :: "string list"
  mo_bindPort :: int

text \<open>
  The first lines of \<open>main\<close>: the options are changed before the error is looked at. With an error the
  options are nil, and every field access is a nil dereference.
\<close>

definition main_options :: "go_error option \<times> manager_options option \<Rightarrow> bool \<Rightarrow> manager_options outcome" where
  "main_options opts debugSet =
     (case opts of
        (err, None) \<Rightarrow> Crash ''nil pointer dereference: ccmOptions''
      | (err, Some o1) \<Rightarrow>
          (let o2 = (if debugSet then o1\<lparr>mo_leaderElection := False\<rparr> else o1);
               o3 = o2\<lparr>mo_allowPaths := mo_allowPaths o2 @ [''metrics''], mo_bindPort := 8080\<rparr>
           in if err \<noteq> None then Fatal ''unable to initialize command options'' else Continue o3))"

text \<open>\<open>cloudInitializer\<close>, with the result of \<open>InitCloudProvider\<close> (nil is \<open>None\<close>).\<close>

definition cloudInitializer :: "go_error option \<times> 'w provider option \<Rightarrow> bool \<Rightarrow> 'w provider outcome" where
  "cloudInitializer result allowUntaggedCloud =
     (case result of (err, cloud) \<Rightarrow>
        if err \<noteq> None then Fatal ''Cloud provider could not be initialized''
        else (case cloud of
                None \<Rightarrow> Fatal ''Cloud provider is nil''
              | Some a \<Rightarrow>
                  if \<not> HasClusterID a then
                    (if allowUntaggedCloud then Continue a else Fatal ''no ClusterID found.'')
                  else Continue a))"

text \<open>
  \<open>main\<close>. The command is built and run by the library: \<open>execute\<close> gets the options and the cloud
  initializer, and the process ends inside it or it returns the error of \<open>ExecuteContext\<close>. The
  result is the exit code. Seeding, flag names, log set-up and its flush do not show.
\<close>

definition main_program ::
  "go_error option \<times> manager_options option \<Rightarrow> bool \<Rightarrow>
   (manager_options \<Rightarrow> (go_error option \<times> 'w provider option \<Rightarrow> bool \<Rightarrow> 'w provider outcome) \<Rightarrow> go_error option outcome) \<Rightarrow>
   int outcome" where
  "main_program opts debugSet execute =
     (case main_options opts debugSet of
        Fatal m \<Rightarrow> Fatal m
      | Crash m \<Rightarrow> Crash m
      | Continue ccmOptions \<Rightarrow>
          (case execute ccmOptions cloudInitializer of
             Fatal m \<Rightarrow> Fatal m
           | Crash m \<Rightarrow> Crash m
           | Continue err \<Rightarrow> Continue (if err \<noteq> None then 1 else 0)))"

text \<open>
  The message for options that cannot be created is never shown: with a nil pointer and an error, as
  \<open>NewCloudControllerManagerOptions\<close> returns them, the program crashes first.
\<close>

lemma main_options_error: "main_program (Some e, None) debugSet execute = Crash ''nil pointer dereference: ccmOptions''"
  by (simp add: main_program_def main_options_def)

text \<open>The cloud of the provider's own factory passes the initializer.\<close>

lemma main_own_cloud: "cloudInitializer (None, Some a) allow = Continue a"
  by (simp add: cloudInitializer_def HasClusterID_def)

section \<open>Registration does not panic\<close>

lemma register_all_ok:
  "distinct (concat ds) \<Longrightarrow> set (concat ds) \<inter> set names = {} \<Longrightarrow> register_all ds names = Inr (names @ concat ds)"
proof (induction ds arbitrary: names)
  case (Cons d ds)
  have "\<not> list_ex (\<lambda>x. List.member names x) d" using Cons.prems(2) by (auto simp: list_ex_iff)
  moreover have "distinct (concat ds)" "set (concat ds) \<inter> set (names @ d) = {}"
    using Cons.prems by auto
  ultimately show ?case using Cons.IH by (simp add: MustRegister_def)
qed simp

lemma collectors_names:
  "distinct (concat (collectors (NewProviderMetrics n v)))"
  "\<forall>d\<in>set (concat (collectors (NewProviderMetrics n v))). has_prefix d ''cloud_provider_anexia_''"
proof -
  have eq: "collectors (NewProviderMetrics n v) = collectors (NewProviderMetrics [] [])"
    by (simp add: collectors_def NewProviderMetrics_def setReconcileMetrics_def Describe_def)
  show "distinct (concat (collectors (NewProviderMetrics n v)))" unfolding eq by code_simp
  have "list_all (\<lambda>d. has_prefix d ''cloud_provider_anexia_'') (concat (collectors (NewProviderMetrics [] [])))" by code_simp
  then show "\<forall>d\<in>set (concat (collectors (NewProviderMetrics n v))). has_prefix d ''cloud_provider_anexia_''"
    unfolding eq by (simp only: list_all_iff)
qed

text \<open>
  However many providers are created, their metrics are registered once and without a panic, as
  long as nobody else took a name with the collector's prefix: thirteen different names.
\<close>

theorem setupProviderMetrics_registers_once:
  assumes "\<forall>d\<in>set (rg_names rg). \<not> has_prefix d ''cloud_provider_anexia_''" and "distinct (rg_names rg)" and "\<not> rg_once rg"
  shows "\<exists>p rg1. setupProviderMetrics rg = Inr (p, rg1) \<and> distinct (rg_names rg1) \<and>
    length (rg_names rg1) = length (rg_names rg) + 13 \<and>
    setupProviderMetrics rg1 = Inr (p, rg1)"
proof -
  let ?ds = "collectors (NewProviderMetrics ''anexia'' Version)"
  note names = collectors_names [of "''anexia''" Version]
  have "set (concat ?ds) \<inter> set (rg_names rg) = {}" using assms(1) names(2) by blast
  moreover from this have "register_all ?ds (rg_names rg) = Inr (rg_names rg @ concat ?ds)"
    using register_all_ok names(1) by blast
  moreover have "length (concat ?ds) = 13"
    by (simp add: collectors_def Describe_def)
  ultimately show ?thesis using assms(2,3) names(1)
    by (auto simp: setupProviderMetrics_def Let_def)
qed

theorem setupProviderMetrics_registers_once_witness:
  "\<exists>p rg1. setupProviderMetrics \<lparr>rg_once = False, rg_names = [''go_goroutines'']\<rparr> = Inr (p, rg1) \<and> length (rg_names rg1) = 14"
proof -
  have "\<forall>d\<in>set (rg_names \<lparr>rg_once = False, rg_names = [''go_goroutines'']\<rparr>). \<not> has_prefix d ''cloud_provider_anexia_''" by simp
  from setupProviderMetrics_registers_once [OF this] show ?thesis by force
qed

section \<open>The offered interfaces and the features\<close>

datatype provider_call = CallLoadBalancer | CallInstancesV2

fun apply_call :: "provider_call \<Rightarrow> 'w provider \<Rightarrow> 'w provider" where
  "apply_call CallLoadBalancer a = snd (provider_LoadBalancer a)"
| "apply_call CallInstancesV2 a = snd (provider_InstancesV2 a)"

definition feature_of :: "string \<Rightarrow> 'w provider \<Rightarrow> nat option" where
  "feature_of f a = pm_featureState (pv_metrics a) f"

lemma feature_names [simp]: "featureNameLoadBalancer \<noteq> featureNameInstancesV2" "featureNameInstancesV2 \<noteq> featureNameLoadBalancer"
  by (simp_all add: featureNameLoadBalancer_def featureNameInstancesV2_def)

lemma apply_calls_state:
  "pv_loadBalancerManager (fold apply_call calls a) = pv_loadBalancerManager a \<and>
   pv_instanceManager (fold apply_call calls a) = pv_instanceManager a \<and>
   feature_of featureNameLoadBalancer (fold apply_call calls a) =
     (if pv_loadBalancerManager a \<noteq> None \<and> CallLoadBalancer \<in> set calls then Some 1 else feature_of featureNameLoadBalancer a) \<and>
   feature_of featureNameInstancesV2 (fold apply_call calls a) =
     (if pv_instanceManager a \<noteq> None \<and> CallInstancesV2 \<in> set calls then Some 1 else feature_of featureNameInstancesV2 a)"
proof (induction calls arbitrary: a)
  case (Cons c calls)
  from Cons.IH [of "apply_call c a"] show ?case
    by (cases c)
       (auto simp: provider_LoadBalancer_def provider_InstancesV2_def feature_of_def MarkFeatureEnabled_def
         FeatureEnabled_def split: option.splits)
qed simp

text \<open>
  C39. A created and initialised provider always offers instances, and offers load balancers exactly
  when the manager could be constructed; after any calls a feature is reported as enabled exactly when
  its interface has been handed out, else as disabled.
\<close>

theorem provider_features:
  assumes "newAnxProvider E config rg = (Inr a, rg1)" and "Initialize C builder a w = (b, w')"
  shows "let b' = fold apply_call calls b;
      new = lb_New config (cl_lib C) (cl_backoff C)
              (case builder of None \<Rightarrow> None | Some (Inl e) \<Rightarrow> None | Some (Inr c) \<Rightarrow> Some c) (cl_api C) (cl_ipam C) w in
    (snd (fst (provider_LoadBalancer b')) \<longleftrightarrow> (\<exists>lb. fst new = Inr lb)) \<and>
    snd (fst (provider_InstancesV2 b')) \<and>
    feature_of featureNameLoadBalancer b' = Some (if (\<exists>lb. fst new = Inr lb) \<and> CallLoadBalancer \<in> set calls then 1 else 0) \<and>
    feature_of featureNameInstancesV2 b' = Some (if CallInstancesV2 \<in> set calls then 1 else 0)"
proof -
  let ?k = "case builder of None \<Rightarrow> None | Some (Inl e) \<Rightarrow> None | Some (Inr c) \<Rightarrow> Some c"
  have a: "pv_config a = config" "pv_loadBalancerManager a = None"
    "feature_of featureNameLoadBalancer a = Some 0" "feature_of featureNameInstancesV2 a = Some 0"
    using assms(1)
    by (auto simp: newAnxProvider_def setupProviderMetrics_def Let_def feature_of_def MarkFeatureDisabled_def
        FeatureDisabled_def split: option.splits sum.splits if_splits)
  obtain r w1 where new: "lb_New config (cl_lib C) (cl_backoff C) ?k (cl_api C) (cl_ipam C) w = (r, w1)" by fastforce
  have b: "pv_loadBalancerManager b = (case r of Inl e \<Rightarrow> None | Inr lb \<Rightarrow> Some lb)" "pv_instanceManager b \<noteq> None"
    "feature_of featureNameLoadBalancer b = Some 0" "feature_of featureNameInstancesV2 b = Some 0"
    using assms(2) a new
    by (cases r; auto simp: Initialize_def initializeLoadBalancerManager_def Let_def feature_of_def)+
  have off: "snd (fst (provider_LoadBalancer x)) \<longleftrightarrow> pv_loadBalancerManager x \<noteq> None"
    "snd (fst (provider_InstancesV2 x)) \<longleftrightarrow> pv_instanceManager x \<noteq> None" for x :: "'a provider"
    by (simp_all add: provider_LoadBalancer_def provider_InstancesV2_def split: option.split)
  have "pv_loadBalancerManager b \<noteq> None \<longleftrightarrow> (\<exists>lb. r = Inr lb)" using b(1) by (cases r) simp_all
  with apply_calls_state [of calls b] b show ?thesis unfolding Let_def off new by simp
qed

definition sample_clients :: "ref_world clients" where
  "sample_clients = \<lparr>cl_lib = ref_lib, cl_api = ref_api, cl_ipam = sample_ipam, cl_backoff = ref_backoff\<rparr>"

definition fine_env :: provider_env where
  "fine_env = \<lparr>pe_setenv = None, pe_legacyClient = None, pe_genericClient = None\<rparr>"

theorem provider_features_witness:
  "\<exists>a rg1 b w'. newAnxProvider fine_env zero_config \<lparr>rg_once = False, rg_names = []\<rparr> = (Inr a, rg1) \<and>
     Initialize sample_clients None a empty_world = (b, w') \<and>
     feature_of featureNameLoadBalancer (fold apply_call [CallLoadBalancer] b) = Some 1 \<and>
     feature_of featureNameInstancesV2 (fold apply_call [CallLoadBalancer] b) = Some 0"
proof -
  obtain r rg1 where r: "newAnxProvider fine_env zero_config \<lparr>rg_once = False, rg_names = []\<rparr> = (r :: _ + ref_world provider, rg1)" by fastforce
  have "\<exists>p rg1. setupProviderMetrics \<lparr>rg_once = False, rg_names = []\<rparr> = Inr (p, rg1)"
    using register_all_ok [OF collectors_names(1) [of "''anexia''" Version], of "[]"] by (simp add: setupProviderMetrics_def Let_def)
  with r obtain a where a: "newAnxProvider fine_env zero_config \<lparr>rg_once = False, rg_names = []\<rparr> = (Inr a :: _ + ref_world provider, rg1)"
    by (auto simp: newAnxProvider_def fine_env_def)
  obtain b w' where b: "Initialize sample_clients None a empty_world = (b, w')" by fastforce
  have "\<exists>lb. fst (lb_New zero_config (cl_lib sample_clients) (cl_backoff sample_clients) None (cl_api sample_clients) (cl_ipam sample_clients) empty_world) = Inr lb"
    by (simp add: lb_New_def configureLoadBalancers_def configurePrefixes_def zero_config_def)
  with provider_features [OF a b, of "[CallLoadBalancer]"] a b show ?thesis
    by (intro exI [of _ a] exI [of _ rg1] exI [of _ b] exI [of _ w']) (simp add: Let_def)
qed

end
