(* ===== verification/SubjectLock.thy ===== *)
theory SubjectLock
  imports Prelude
begin

text \<open>
  The lock on subjects (\<open>sync/sync.go\<close>) under any interleaving of threads. A step is what one thread
  does between two accesses of the mutex: the body of a critical section is a step of the thread that
  holds the mutex. The mutex \<open>m\<close> is free or held by a thread; a missing entry of \<open>locks\<close> reads as 0.
\<close>

section \<open>Threads and steps\<close>

datatype pc =
    Idle                    \<comment> \<open>outside, holding nothing\<close>
  | Wanting string          \<comment> \<open>in \<open>Lock\<close>, before \<open>r.m.Lock()\<close>\<close>
  | Looking string          \<comment> \<open>in \<open>Lock\<close>, holding the mutex\<close>
  | Sleeping string         \<comment> \<open>in \<open>time.Sleep\<close>\<close>
  | Owning string           \<comment> \<open>\<open>Lock\<close> has returned\<close>
  | Leaving string          \<comment> \<open>in \<open>Unlock\<close>, before \<open>r.m.Lock()\<close>\<close>
  | Deleting string         \<comment> \<open>in \<open>Unlock\<close>, holding the mutex\<close>

record subject_lock =
  sl_m :: "nat option"
  sl_locks :: "string \<rightharpoonup> 8 word"
  sl_pc :: "nat \<Rightarrow> pc"

definition NewSubjectLock :: subject_lock where
  "NewSubjectLock = \<lparr>sl_m = None, sl_locks = Map.empty, sl_pc = (\<lambda>t. Idle)\<rparr>"

definition locked_value :: "subject_lock \<Rightarrow> string \<Rightarrow> 8 word" where
  "locked_value s x = (case sl_locks s x of None \<Rightarrow> 0 | Some b \<Rightarrow> b)"

definition goto :: "nat \<Rightarrow> pc \<Rightarrow> subject_lock \<Rightarrow> subject_lock" where
  "goto t p s = s\<lparr>sl_pc := (sl_pc s)(t := p)\<rparr>"

text \<open>The loop of \<open>Lock\<close> and the body of \<open>Unlock\<close>; a thread unlocks what it owns.\<close>

inductive lock_step :: "nat \<Rightarrow> subject_lock \<Rightarrow> subject_lock \<Rightarrow> bool" for t where
  lock_call: "sl_pc s t = Idle \<Longrightarrow> lock_step t s (goto t (Wanting x) s)"
| lock_acquire: "sl_pc s t = Wanting x \<Longrightarrow> sl_m s = None \<Longrightarrow> lock_step t s (goto t (Looking x) (s\<lparr>sl_m := Some t\<rparr>))"
| lock_take: "sl_pc s t = Looking x \<Longrightarrow> locked_value s x = 0 \<Longrightarrow>
    lock_step t s (goto t (Owning x) (s\<lparr>sl_locks := (sl_locks s)(x \<mapsto> 1), sl_m := None\<rparr>))"
| lock_busy: "sl_pc s t = Looking x \<Longrightarrow> locked_value s x \<noteq> 0 \<Longrightarrow>
    lock_step t s (goto t (Sleeping x) (s\<lparr>sl_m := None\<rparr>))"
| lock_wake: "sl_pc s t = Sleeping x \<Longrightarrow> lock_step t s (goto t (Wanting x) s)"
| unlock_call: "sl_pc s t = Owning x \<Longrightarrow> lock_step t s (goto t (Leaving x) s)"
| unlock_acquire: "sl_pc s t = Leaving x \<Longrightarrow> sl_m s = None \<Longrightarrow> lock_step t s (goto t (Deleting x) (s\<lparr>sl_m := Some t\<rparr>))"
| unlock_delete: "sl_pc s t = Deleting x \<Longrightarrow>
    lock_step t s (goto t Idle (s\<lparr>sl_locks := (sl_locks s)(x := None), sl_m := None\<rparr>))"

inductive_cases lock_stepE: "lock_step t s s'"

inductive lock_reach :: "subject_lock \<Rightarrow> bool" where
  reach_new: "lock_reach NewSubjectLock"
| reach_step: "lock_reach s \<Longrightarrow> lock_step t s s' \<Longrightarrow> lock_reach s'"

section \<open>Mutual exclusion\<close>

fun owns :: "pc \<Rightarrow> string \<Rightarrow> bool" where
  "owns (Owning x) y = (x = y)"
| "owns (Leaving x) y = (x = y)"
| "owns (Deleting x) y = (x = y)"
| "owns _ y = False"

fun in_mutex :: "pc \<Rightarrow> bool" where
  "in_mutex (Looking x) = True"
| "in_mutex (Deleting x) = True"
| "in_mutex _ = False"

definition mutex_inv :: "(nat \<Rightarrow> pc) \<Rightarrow> nat option \<Rightarrow> bool" where
  "mutex_inv pcs m \<longleftrightarrow> (\<forall>t. in_mutex (pcs t) \<longleftrightarrow> m = Some t)"

definition owner_inv :: "(nat \<Rightarrow> pc) \<Rightarrow> (string \<rightharpoonup> 8 word) \<Rightarrow> bool" where
  "owner_inv pcs locks \<longleftrightarrow>
     (\<forall>t x. owns (pcs t) x \<longrightarrow> locks x = Some 1) \<and>
     (\<forall>x b. locks x = Some b \<longrightarrow> b = 1 \<and> (\<exists>t. owns (pcs t) x)) \<and>
     (\<forall>x t t'. owns (pcs t) x \<longrightarrow> owns (pcs t') x \<longrightarrow> t = t')"

definition lock_inv :: "subject_lock \<Rightarrow> bool" where
  "lock_inv s \<longleftrightarrow> mutex_inv (sl_pc s) (sl_m s) \<and> owner_inv (sl_pc s) (sl_locks s)"

lemma lock_inv_new: "lock_inv NewSubjectLock"
  by (simp add: lock_inv_def NewSubjectLock_def mutex_inv_def owner_inv_def)

lemma mutex_same: "mutex_inv pcs m \<Longrightarrow> in_mutex p = in_mutex (pcs t) \<Longrightarrow> mutex_inv (pcs(t := p)) m"
  by (simp add: mutex_inv_def)

lemma mutex_enter: "mutex_inv pcs None \<Longrightarrow> in_mutex p \<Longrightarrow> mutex_inv (pcs(t := p)) (Some t)"
  by (simp add: mutex_inv_def)

lemma mutex_leave: "mutex_inv pcs m \<Longrightarrow> in_mutex (pcs t) \<Longrightarrow> \<not> in_mutex p \<Longrightarrow> mutex_inv (pcs(t := p)) None"
  by (auto simp: mutex_inv_def)

lemma owner_same:
  assumes "owner_inv pcs locks" and "owns p = owns (pcs t)"
  shows "owner_inv (pcs(t := p)) locks"
proof -
  have "(\<lambda>u. owns ((pcs(t := p)) u)) = (\<lambda>u. owns (pcs u))" using assms(2) by (simp add: fun_eq_iff)
  then have "owns ((pcs(t := p)) u) = owns (pcs u)" for u by (rule fun_cong)
  then show ?thesis using assms(1) unfolding owner_inv_def by presburger
qed

lemma owner_take:
  assumes "owner_inv pcs locks" and "locks x = None" and "\<And>y. \<not> owns (pcs t) y"
  shows "owner_inv (pcs(t := Owning x)) (locks(x \<mapsto> 1))"
proof -
  have own: "owns ((pcs(t := Owning x)) u) y \<longleftrightarrow> (if u = t then x = y else owns (pcs u) y)" for u y by simp
  have "\<not> owns (pcs u) x" for u using assms(1,2) unfolding owner_inv_def by force
  moreover have "u \<noteq> t" if "owns (pcs u) y" for u y using that assms(3) by blast
  ultimately show ?thesis using assms(1) unfolding owner_inv_def own by (auto split: if_splits) metis
qed

lemma owner_delete:
  assumes "owner_inv pcs locks" and "pcs t = Deleting x"
  shows "owner_inv (pcs(t := Idle)) (locks(x := None))"
proof -
  have own: "owns ((pcs(t := Idle)) u) y \<longleftrightarrow> u \<noteq> t \<and> owns (pcs u) y" for u y by simp
  have t: "owns (pcs t) y \<longleftrightarrow> x = y" for y using assms(2) by simp
  then have "owns (pcs u) x \<Longrightarrow> u = t" for u using assms(1) unfolding owner_inv_def by blast
  with t show ?thesis using assms(1) unfolding owner_inv_def own by (auto split: if_splits) metis
qed

lemma owns_fun: "owns (Owning x) = (\<lambda>y. x = y)" "owns (Leaving x) = (\<lambda>y. x = y)" "owns (Deleting x) = (\<lambda>y. x = y)"
  "owns Idle = (\<lambda>y. False)" "owns (Wanting x) = (\<lambda>y. False)" "owns (Looking x) = (\<lambda>y. False)" "owns (Sleeping x) = (\<lambda>y. False)"
  by (simp_all add: fun_eq_iff)

lemma locked_value_free: "lock_inv s \<Longrightarrow> locked_value s x = 0 \<longleftrightarrow> sl_locks s x = None"
proof -
  assume "lock_inv s"
  then have "sl_locks s x = Some b \<Longrightarrow> b = 1" for b unfolding lock_inv_def owner_inv_def by blast
  then show ?thesis by (cases "sl_locks s x") (auto simp: locked_value_def)
qed

lemma lock_inv_step:
  assumes "lock_inv s" and "lock_step t s s'"
  shows "lock_inv s'"
proof -
  from assms(1) have m: "mutex_inv (sl_pc s) (sl_m s)" and o: "owner_inv (sl_pc s) (sl_locks s)"
    by (simp_all add: lock_inv_def)
  from assms(2) show ?thesis
  proof cases
    case (lock_take x)
    have "sl_locks s x = None" using locked_value_free [OF assms(1)] lock_take(3) by blast
    with lock_take owner_take [OF o this, of t] mutex_leave [OF m, of t "Owning x"] show ?thesis
      by (simp add: lock_inv_def goto_def)
  next
    case (unlock_delete x)
    with owner_delete [OF o unlock_delete(2)] mutex_leave [OF m, of t Idle] show ?thesis
      by (simp add: lock_inv_def goto_def)
  next
    case (lock_call x)
    with m o show ?thesis by (simp add: lock_inv_def goto_def mutex_same owner_same owns_fun)
  next
    case (lock_acquire x)
    with m o show ?thesis by (simp add: lock_inv_def goto_def mutex_enter owner_same owns_fun)
  next
    case (lock_busy x)
    with o mutex_leave [OF m, of t "Sleeping x"] show ?thesis by (simp add: lock_inv_def goto_def owner_same owns_fun)
  next
    case (lock_wake x)
    with m o show ?thesis by (simp add: lock_inv_def goto_def mutex_same owner_same owns_fun)
  next
    case (unlock_call x)
    with m o show ?thesis by (simp add: lock_inv_def goto_def mutex_same owner_same owns_fun)
  next
    case (unlock_acquire x)
    with m o show ?thesis by (simp add: lock_inv_def goto_def mutex_enter owner_same owns_fun)
  qed
qed

lemma lock_reach_inv: "lock_reach s \<Longrightarrow> lock_inv s"
  by (induction rule: lock_reach.induct) (auto intro: lock_inv_new lock_inv_step)

text \<open>
  C38. At most one thread owns a subject, in every reachable state of any number of threads, and the map
  holds exactly the owned subjects: it does not grow with the subjects that were ever locked.
\<close>

theorem subject_lock_exclusive:
  assumes "lock_reach s"
  shows "(\<forall>x t t'. owns (sl_pc s t) x \<longrightarrow> owns (sl_pc s t') x \<longrightarrow> t = t') \<and>
    dom (sl_locks s) = {x. \<exists>t. owns (sl_pc s t) x}"
  using lock_reach_inv [OF assms] by (auto simp: lock_inv_def owner_inv_def split: if_splits)

section \<open>Progress\<close>

lemma lock_steps_reach: "(lock_step t)\<^sup>*\<^sup>* s s' \<Longrightarrow> lock_reach s \<Longrightarrow> lock_reach s'"
  by (induction rule: rtranclp_induct) (auto intro: reach_step)

text \<open>The thread in the mutex leaves it with its next step.\<close>

lemma mutex_released:
  assumes "sl_pc s u = Looking y \<or> sl_pc s u = Deleting y"
  shows "\<exists>s'. lock_step u s s' \<and> sl_m s' = None \<and> (\<forall>v. v \<noteq> u \<longrightarrow> sl_pc s' v = sl_pc s v) \<and>
    (\<forall>x. owns (sl_pc s' u) x \<longrightarrow> owns (sl_pc s u) x \<or> x = y \<and> sl_pc s u = Looking y)"
proof -
  consider (take) "sl_pc s u = Looking y" "locked_value s y = 0" | (busy) "sl_pc s u = Looking y" "locked_value s y \<noteq> 0"
    | (del) "sl_pc s u = Deleting y" using assms by blast
  then show ?thesis
  proof cases
    case take
    from lock_take [where s = s, OF take] take show ?thesis by (intro exI conjI) (auto simp: goto_def)
  next
    case busy
    from lock_busy [where s = s, OF busy] busy show ?thesis by (intro exI conjI) (auto simp: goto_def)
  next
    case del
    from unlock_delete [where s = s, OF del] del show ?thesis by (intro exI conjI) (auto simp: goto_def)
  qed
qed

text \<open>With the mutex free and the subject without an owner, a thread in \<open>Lock\<close> takes it.\<close>

lemma lock_taken:
  assumes "lock_reach s" and "sl_m s = None" and "\<forall>u. \<not> owns (sl_pc s u) x" and "sl_pc s t = Wanting x \<or> sl_pc s t = Sleeping x"
  shows "\<exists>s'. (lock_step t)\<^sup>*\<^sup>* s s' \<and> sl_pc s' t = Owning x"
proof -
  have free: "sl_locks s x = None"
    using lock_reach_inv [OF assms(1)] assms(3) unfolding lock_inv_def owner_inv_def by (metis not_None_eq)
  have go: "\<exists>s'. (lock_step t)\<^sup>*\<^sup>* v s' \<and> sl_pc s' t = Owning x"
    if "sl_pc v t = Wanting x" "sl_m v = None" "sl_locks v x = None" for v
  proof -
    let ?w = "goto t (Looking x) (v\<lparr>sl_m := Some t\<rparr>)"
    have w: "sl_pc ?w t = Looking x" "locked_value ?w x = 0" using that(3) by (simp_all add: goto_def locked_value_def)
    from lock_acquire [where s = v, OF that(1,2)] lock_take [where s = ?w, OF w]
    have "(lock_step t)\<^sup>*\<^sup>* v (goto t (Owning x) (?w\<lparr>sl_locks := (sl_locks ?w)(x \<mapsto> 1), sl_m := None\<rparr>))"
      by (rule converse_rtranclp_into_rtranclp [OF _ r_into_rtranclp])
    then show ?thesis by (intro exI conjI) (auto simp: goto_def)
  qed
  from assms(4) show ?thesis
  proof
    assume "sl_pc s t = Wanting x"
    from go [OF this assms(2) free] show ?thesis .
  next
    assume sl: "sl_pc s t = Sleeping x"
    have "sl_pc (goto t (Wanting x) s) t = Wanting x" "sl_m (goto t (Wanting x) s) = None" "sl_locks (goto t (Wanting x) s) x = None"
      using assms(2) free by (simp_all add: goto_def)
    from go [OF this] lock_wake [where s = s, OF sl] show ?thesis by (meson converse_rtranclp_into_rtranclp)
  qed
qed

text \<open>
  Nobody waits for ever for a free subject: in a reachable state where no thread owns or is just
  looking at subject \<open>x\<close>, a thread in \<open>Lock x\<close>, waiting or asleep, comes to own it by its own steps, after
  at most one step of the thread that is inside the mutex.
\<close>

theorem subject_lock_progress:
  assumes "lock_reach s" and "sl_pc s t = Wanting x \<or> sl_pc s t = Sleeping x"
    and "\<forall>u. \<not> owns (sl_pc s u) x \<and> sl_pc s u \<noteq> Looking x"
  shows "\<exists>s1 s2. (s1 = s \<or> (\<exists>u. u \<noteq> t \<and> lock_step u s s1)) \<and> (lock_step t)\<^sup>*\<^sup>* s1 s2 \<and> sl_pc s2 t = Owning x"
proof (cases "sl_m s")
  case None
  from lock_taken [OF assms(1) this _ assms(2)] assms(3) show ?thesis by blast
next
  case (Some u)
  then have "in_mutex (sl_pc s u)" using lock_reach_inv [OF assms(1)] by (simp add: lock_inv_def mutex_inv_def)
  then obtain y where pc: "sl_pc s u = Looking y \<or> sl_pc s u = Deleting y" by (cases "sl_pc s u") auto
  then have ut: "u \<noteq> t" using assms(2) by auto
  obtain s1 where s1: "lock_step u s s1" "sl_m s1 = None" "\<forall>v. v \<noteq> u \<longrightarrow> sl_pc s1 v = sl_pc s v"
    and own: "\<forall>x. owns (sl_pc s1 u) x \<longrightarrow> owns (sl_pc s u) x \<or> x = y \<and> sl_pc s u = Looking y"
    using mutex_released [OF pc] by blast
  have "\<forall>v. \<not> owns (sl_pc s1 v) x" using s1(3) own assms(3) by metis
  moreover have "sl_pc s1 t = Wanting x \<or> sl_pc s1 t = Sleeping x" using s1(3) ut assms(2) by simp
  ultimately show ?thesis using lock_taken [OF reach_step [OF assms(1) s1(1)] s1(2)] s1(1) ut by blast
qed

section \<open>A run of two threads\<close>

text \<open>Thread 0 owns subject \<open>a\<close>; thread 1 wants \<open>x\<close>.\<close>

definition owned_state :: "string \<Rightarrow> subject_lock" where
  "owned_state x = \<lparr>sl_m = None, sl_locks = [''a'' \<mapsto> 1], sl_pc = (\<lambda>t. Idle)(0 := Owning ''a'', 1 := Wanting x)\<rparr>"

lemma owned_state_reach: "lock_reach (owned_state x)"
proof -
  let ?s1 = "goto 0 (Wanting ''a'') NewSubjectLock"
  let ?s2 = "goto 0 (Looking ''a'') (?s1\<lparr>sl_m := Some 0\<rparr>)"
  let ?s3 = "goto 0 (Owning ''a'') (?s2\<lparr>sl_locks := (sl_locks ?s2)(''a'' \<mapsto> 1), sl_m := None\<rparr>)"
  have "lock_step 0 NewSubjectLock ?s1" by (rule lock_call) (simp add: NewSubjectLock_def)
  then have "lock_reach ?s1" by (rule reach_step [OF reach_new])
  moreover have "lock_step 0 ?s1 ?s2" by (rule lock_acquire) (simp_all add: NewSubjectLock_def goto_def)
  ultimately have "lock_reach ?s2" by (rule reach_step)
  moreover have "lock_step 0 ?s2 ?s3" by (rule lock_take) (simp_all add: NewSubjectLock_def goto_def locked_value_def)
  ultimately have "lock_reach ?s3" by (rule reach_step)
  moreover have "lock_step 1 ?s3 (goto 1 (Wanting x) ?s3)" by (rule lock_call) (simp add: NewSubjectLock_def goto_def)
  ultimately have "lock_reach (goto 1 (Wanting x) ?s3)" by (rule reach_step)
  then show ?thesis by (simp add: owned_state_def goto_def NewSubjectLock_def)
qed

theorem subject_lock_exclusive_witness:
  "lock_reach (owned_state ''a'') \<and> dom (sl_locks (owned_state ''a'')) = {x. \<exists>t. owns (sl_pc (owned_state ''a'') t) x} \<and>
   owns (sl_pc (owned_state ''a'') 0) ''a''"
  by (intro conjI owned_state_reach conjunct2 [OF subject_lock_exclusive [OF owned_state_reach]])
     (simp add: owned_state_def)

theorem subject_lock_progress_witness:
  "\<exists>s1 s2. (lock_step 1)\<^sup>*\<^sup>* s1 s2 \<and> sl_pc s2 1 = Owning ''b'' \<and>
     (s1 = owned_state ''b'' \<or> (\<exists>u. u \<noteq> 1 \<and> lock_step u (owned_state ''b'') s1))"
proof -
  have "sl_pc (owned_state ''b'') 1 = Wanting ''b'' \<or> sl_pc (owned_state ''b'') 1 = Sleeping ''b''"
    "\<forall>u. \<not> owns (sl_pc (owned_state ''b'') u) ''b'' \<and> sl_pc (owned_state ''b'') u \<noteq> Looking ''b''"
    by (simp_all add: owned_state_def)
  from subject_lock_progress [OF owned_state_reach this] show ?thesis by blast
qed

end
