(* ===== verification/Spec2Isabelle.thy ===== *)
theory Spec2Isabelle
  imports EnsureConverges TypeSafe AddressRound ManagerProps ProviderModel SubjectLock
begin

text \<open>
  A model of the Anexia cloud controller manager (package \<open>anx/provider\<close> and \<open>main.go\<close>), which gives
  Kubernetes services of type LoadBalancer a load balancer of the Anexia Engine (LBaaS) and answers
  questions about the virtual machines behind the nodes.

  \<^bold>\<open>The program.\<close> The provider (\<open>provider.go\<close>) is created from the configuration
  (\<open>configuration/configuration.go\<close>) and hands two managers to the cloud controller manager. The
  LoadBalancer manager (\<open>loadbalancer/loadbalancer.go\<close>) asks the address manager
  (\<open>loadbalancer/address\<close>) for external addresses, makes one reconciliation per LBaaS LoadBalancer
  (\<open>loadbalancer/reconciliation\<close>), runs them together as a Multi and writes the status of the service.
  A reconciliation retrieves the backends, frontends, binds and servers tagged with the service and
  creates and destroys objects, one kind after the other, until they are the wanted ones. The
  instances manager (\<open>instances.go\<close>) finds the VM of a node and its state.

  \<^bold>\<open>The theories.\<close>
  \<^item> \<open>Prelude\<close>: map iteration orders, strings, lists. \<open>GoNet\<close>: \<open>net.IP\<close> with parsing and printing.
    \<open>NetRound\<close>: an address that is printed and parsed again is the same. \<open>GoErrors\<close>: error values and
    \<open>utils.go\<close>. \<open>Kube\<close>: services and nodes.
  \<^item> \<open>Objects\<close>: the LBaaS objects; the interface of the go-anxcloud library as a parameter, with the
    contracts the code relies on, and a concrete library and Engine that meet them.
  \<^item> \<open>ReconState\<close>, \<open>ReconSteps\<close>, \<open>ReconLoop\<close>: \<open>reconciliation.go\<close>, \<open>reconcile_*.go\<close>, \<open>types.go\<close> and
    \<open>object_stringer.go\<close>: the record \<open>recon\<close> and its retrieval; the four steps and
    \<open>ReconcileCheck\<close>; the loop of \<open>Reconcile\<close> with destroying, creating, tagging and waiting.
    \<open>ReconCheck\<close> and \<open>CheckProps\<close> prove what a check means, \<open>CheckSpec\<close> that its lists are those of
    a specification by sets, \<open>LoopProps\<close> and \<open>DestroyProps\<close> what a run of the loop means, fails with, or
    why it does not end, \<open>TypeSafe\<close> that it does not panic.
  \<^item> \<open>Engine\<close>, \<open>EngineRun\<close>, \<open>Converge\<close>, \<open>ConvergeProps\<close>, \<open>Convergence\<close>: total correctness. A contract for
    an Engine that serves every call (its store and tags, read off its world), the destroy loop,
    creation and waiting on it, the rank that every round lowers, and the theorems that \<open>Reconcile\<close>
    returns with the documented result and does nothing the second time. \<open>RefEngine\<close> is a concrete
    Engine that meets the contract and refuses to destroy an object others refer to.
  \<^item> \<open>MultiRecon\<close>: \<open>multirecon.go\<close>: goroutines, channel and wait group as a step relation, the drained
    results, the merged status.
  \<^item> \<open>IpCalc\<close>, \<open>Address\<close>: \<open>ipcalc.go\<close>, \<open>prefix.go\<close>, \<open>address.go\<close>: virtual IPs, allocation, the cache of
    prefixes. \<open>AddressRound\<close>: addresses survive the way through the status of the service.
  \<^item> \<open>Discovery\<close>, \<open>Config\<close>, \<open>LoadBalancer\<close>: discovery of LoadBalancers, the configuration, and the
    manager with all its operations. \<open>BalancerProps\<close>, \<open>EnsureProps\<close> and \<open>ManagerProps\<close> hold its
    properties: the pieces, what a successful \<open>EnsureLoadBalancer\<close> means for the Engine, and errors
    and construction. \<open>EnsureConverges\<close>: on a serving Engine it does succeed, the members of the Multi
    do not disturb each other, and a deletion completes.
  \<^item> \<open>Instances\<close>, \<open>Metrics\<close>, \<open>ProviderModel\<close>, \<open>SubjectLock\<close>: \<open>instances.go\<close>, \<open>metrics.go\<close>,
    \<open>provider.go\<close> with \<open>main.go\<close>, and \<open>sync.go\<close>.

  \<^bold>\<open>Correspondence.\<close> A definition has the name of its function where that is free; a loop of a
  function is a function of its own, with the accumulators as arguments. The world \<open>'w\<close> of the Engine
  is passed through every call of its API. A panic is the error \<open>Panic\<close>, which no caller wraps. Object
  identity matters in one place: \<open>calculateVIP\<close> writes into the network it is given.

  \<^bold>\<open>Interfaces.\<close> \<open>compare_step\<close> (one step of the check, interpreted for the four kinds of objects),
  \<open>reconciliation_interface\<close> (a check with nothing to do means completion, for one reconciliation and
  for a Multi) and \<open>address_manager\<close> (allocation) are locales interpreted on the model.

  \<^bold>\<open>Choices of the environment.\<close> Map iteration orders, clocks and the answers of the Engine are
  arguments, and the theorems hold for all of them. \<open>Reconcile\<close> and the destroy loop may run for ever:
  they are partial functions whose value is then \<open>None\<close>. That they may not return is a theorem
  (an Engine whose every \<open>Destroy\<close> fails), and so is that they do: on an Engine that meets the contract
  of \<open>Engine\<close>, \<open>Reconcile\<close> returns after at most seven rounds and each destroy loop after as many
  passes as it has objects. Theorems about results for an arbitrary Engine start from \<open>Some\<close>. The wait is
  the library's \<open>wait.ExponentialBackoff\<close>, a parameter with its contract.

  \<^bold>\<open>Concurrency.\<close> The goroutines of a Multi interleave in \<open>MultiRecon\<close>, where a member's call is one
  step with an unknown result. The manager runs them one after the other; \<open>ManagerProps\<close> proves that
  this is a run of that protocol. Interleavings of the members' calls to the Engine are not modelled:
  the members work on the objects of different LoadBalancers. The manager's mutex makes
  \<open>EnsureLoadBalancer\<close> one step. \<open>SubjectLock\<close> has all interleavings of any number of threads.

  \<^bold>\<open>Not modelled.\<close> Logging, contexts and their cancellation; timestamps and durations in metrics (the
  observations are counted); what the library does with the command \<open>main\<close> gives it; the stubs by
  which \<open>ProviderMetrics\<close> meets the interface of a collector; test doubles, mocks, charts,
  documentation. The contract of \<open>Engine\<close> has objects ready at once: objects that become ready later are
  covered by the theorems for an arbitrary Engine only.
\<close>

end
